(* ===== verification/Prelude.thy ===== *)
theory Prelude
  imports Complex_Main "HOL-Library.Word" "HOL-Library.List_Lexorder"
begin

text \<open>
  Shared vocabulary of the development: the machine integers and byte strings of the Rust
  sources, the protocol constants of \<^verbatim>\<open>src/lib.rs\<close>, panics as values, the integer/byte
  conversions of the Rust standard library, and the few operations on \<^verbatim>\<open>Vec\<close> and on
  \<^verbatim>\<open>HashMap\<close> entries that several components use.

  Conventions.  \<^verbatim>\<open>usize\<close> is \<open>nat\<close>; \<^verbatim>\<open>u8\<close>, \<^verbatim>\<open>u16\<close>, \<^verbatim>\<open>u32\<close> and \<^verbatim>\<open>u64\<close> are words, so
  \<open>+\<close> and \<open>-\<close> wrap around as they do in the release build that the repository's
  \<^verbatim>\<open>Dockerfile\<close> and readme describe.  A \<^verbatim>\<open>HashMap\<close> that is only looked up and updated
  is a map \<open>'k \<rightharpoonup> 'v\<close>.  An operation that can panic returns a sum whose left side is
  the panic.
\<close>

unbundle bit_operations_syntax

section \<open>Machine integers and byte strings\<close>

type_synonym byte = "8 word"
type_synonym u16 = "16 word"
type_synonym u32 = "32 word"
type_synonym u64 = "64 word"
type_synonym bytes = "byte list"

text \<open>The fixed-size arrays of \<^verbatim>\<open>src/lib.rs\<close> are byte strings; every id is a SHA-256 digest.\<close>

type_synonym Piece = bytes
type_synonym PieceId = bytes
type_synonym PieceIndex = u64
type_synonym ExpandedIV = bytes
type_synonym NodeID = bytes
type_synonym Tag = bytes
type_synonym BlockId = bytes
type_synonym ProofId = bytes
type_synonym ContentId = bytes
type_synonym TxId = bytes
type_synonym AccountAddress = bytes

section \<open>Protocol constants\<close>

definition PRIME_SIZE_BITS :: nat where "PRIME_SIZE_BITS = 256"
definition PRIME_SIZE_BYTES :: nat where "PRIME_SIZE_BYTES = PRIME_SIZE_BITS div 8"
definition IV_SIZE :: nat where "IV_SIZE = 32"
definition PIECE_SIZE :: nat where "PIECE_SIZE = 4096"
definition ENCODING_LAYERS_TEST :: nat where "ENCODING_LAYERS_TEST = 1"
definition CONFIRMATION_DEPTH :: nat where "CONFIRMATION_DEPTH = 6"
definition BLOCK_REWARD :: u64 where "BLOCK_REWARD = 1"
definition MAX_EARLY_TIMESLOTS :: u64 where "MAX_EARLY_TIMESLOTS = 10"
definition MAX_LATE_TIMESLOTS :: u64 where "MAX_LATE_TIMESLOTS = 10"
definition CHALLENGE_LOOKBACK_EPOCHS :: u64 where "CHALLENGE_LOOKBACK_EPOCHS = 1"
definition EPOCH_CLOSE_WAIT_TIME :: u64 where "EPOCH_CLOSE_WAIT_TIME = 1"
definition TIMESLOTS_PER_EPOCH :: u64 where "TIMESLOTS_PER_EPOCH = 32"
definition TIMESLOT_DURATION :: u64 where "TIMESLOT_DURATION = 1000"
definition TX_BLOCKS_PER_PROPOSER_BLOCK :: u64 where "TX_BLOCKS_PER_PROPOSER_BLOCK = 4"
definition TIMESLOTS_PER_BLOCK :: u64 where "TIMESLOTS_PER_BLOCK = 1"
definition TIMESLOTS_PER_PROPOSER_BLOCK :: u64 where "TIMESLOTS_PER_PROPOSER_BLOCK = 5"
definition PROPOSER_BLOCKS_PER_EON :: u64 where "PROPOSER_BLOCKS_PER_EON = 2016 * 4"
definition SOLUTION_RANGE_UPDATE_DELAY_IN_TIMESLOTS :: u64 where
  "SOLUTION_RANGE_UPDATE_DELAY_IN_TIMESLOTS = 10"
definition STATE_BLOCK_SIZE_IN_BYTES :: nat where "STATE_BLOCK_SIZE_IN_BYTES = 8 * 1024"
definition PIECES_PER_STATE_BLOCK :: nat where
  "PIECES_PER_STATE_BLOCK = STATE_BLOCK_SIZE_IN_BYTES div PIECE_SIZE"
definition GENESIS_STATE_BLOCKS :: nat where
  "GENESIS_STATE_BLOCKS = (1024 * 1024) div STATE_BLOCK_SIZE_IN_BYTES"
definition GENESIS_PIECE_COUNT :: nat where
  "GENESIS_PIECE_COUNT = PIECES_PER_STATE_BLOCK * GENESIS_STATE_BLOCKS"
definition PLOT_SIZE :: nat where "PLOT_SIZE = GENESIS_PIECE_COUNT"
definition INITIAL_SOLUTION_RANGE :: u64 where
  "INITIAL_SOLUTION_RANGE = (- 1) div of_nat PLOT_SIZE div TIMESLOTS_PER_BLOCK"

lemmas size_consts =
  PRIME_SIZE_BITS_def PRIME_SIZE_BYTES_def IV_SIZE_def PIECE_SIZE_def
  STATE_BLOCK_SIZE_IN_BYTES_def PIECES_PER_STATE_BLOCK_def GENESIS_STATE_BLOCKS_def
  GENESIS_PIECE_COUNT_def PLOT_SIZE_def

section \<open>Panics as values\<close>

text \<open>
  What the sources can panic with: \<^verbatim>\<open>unwrap\<close> and \<^verbatim>\<open>expect\<close> on a missing value, an explicit
  \<^verbatim>\<open>panic!\<close>, an index or slice out of range, a failed \<^verbatim>\<open>assert!\<close>.
\<close>

datatype panic = Unwrap | Expect string | PanicMsg string | OutOfBounds | AssertFailed string

text \<open>Errors of files and streams.\<close>

datatype io_error = NotFound | UnexpectedEof | InvalidData | OtherError string

type_synonym 'a res = "panic + 'a"

abbreviation Ok :: "'a \<Rightarrow> 'e + 'a" where "Ok \<equiv> Inr"
abbreviation Panic :: "panic \<Rightarrow> 'a res" where "Panic \<equiv> Inl"

definition bindR :: "'e + 'a \<Rightarrow> ('a \<Rightarrow> 'e + 'b) \<Rightarrow> 'e + 'b" where
  "bindR m f = (case m of Inl e \<Rightarrow> Inl e | Inr x \<Rightarrow> f x)"

lemma bindR_simps [simp]: "bindR (Inl e) f = Inl e" "bindR (Inr x) f = f x"
  by (simp_all add: bindR_def)

lemma bindR_Ok_iff: "bindR m f = Inr y \<longleftrightarrow> (\<exists>x. m = Inr x \<and> f x = Inr y)"
  by (cases m) auto

lemma bindR_Ok_E [elim]:
  assumes "bindR m f = Inr y"
  obtains x where "m = Inr x" "f x = Inr y"
  using assms by (auto simp: bindR_Ok_iff)

lemma bindR_assoc: "bindR (bindR m f) g = bindR m (\<lambda>x. bindR (f x) g)"
  by (cases m) auto

text \<open>\<^verbatim>\<open>Option::unwrap\<close> and \<^verbatim>\<open>Option::expect\<close>.\<close>

definition unwrap :: "'a option \<Rightarrow> 'a res" where
  "unwrap x = (case x of None \<Rightarrow> Panic Unwrap | Some y \<Rightarrow> Ok y)"

definition expect :: "string \<Rightarrow> 'a option \<Rightarrow> 'a res" where
  "expect msg x = (case x of None \<Rightarrow> Panic (Expect msg) | Some y \<Rightarrow> Ok y)"

lemma unwrap_simps [simp]: "unwrap None = Inl Unwrap" "unwrap (Some x) = Inr x"
  by (simp_all add: unwrap_def)

lemma expect_simps [simp]: "expect m None = Inl (Expect m)" "expect m (Some x) = Inr x"
  by (simp_all add: expect_def)

lemma unwrap_Ok_iff [simp]: "unwrap x = Inr y \<longleftrightarrow> x = Some y"
  by (cases x) auto

lemma expect_Ok_iff [simp]: "expect m x = Inr y \<longleftrightarrow> x = Some y"
  by (cases x) auto

text \<open>A \<^verbatim>\<open>for\<close> loop whose body may panic: the state is threaded, the first panic stops it.\<close>

fun foldR :: "('s \<Rightarrow> 'a \<Rightarrow> 'e + 's) \<Rightarrow> 's \<Rightarrow> 'a list \<Rightarrow> 'e + 's" where
  "foldR f s [] = Inr s"
| "foldR f s (x # xs) = bindR (f s x) (\<lambda>s'. foldR f s' xs)"

lemma foldR_append: "foldR f s (xs @ ys) = bindR (foldR f s xs) (\<lambda>s'. foldR f s' ys)"
  by (induction xs arbitrary: s) (auto simp: bindR_assoc)

lemma foldR_cong:
  "(\<And>s x. x \<in> set xs \<Longrightarrow> f s x = g s x) \<Longrightarrow> foldR f s xs = foldR g s xs"
proof (induction xs arbitrary: s)
  case (Cons x xs)
  then have "foldR f s' xs = foldR g s' xs" for s' by simp
  then show ?case using Cons.prems by simp
qed simp

lemma foldR_invariant:
  assumes "foldR f s xs = Inr s'" and "P s"
    and "\<And>s x s'. x \<in> set xs \<Longrightarrow> P s \<Longrightarrow> f s x = Inr s' \<Longrightarrow> P s'"
  shows "P s'"
  using assms by (induction xs arbitrary: s) (auto elim!: bindR_Ok_E)

text \<open>\<^verbatim>\<open>xs[i]\<close>: out of range panics.\<close>

definition index :: "'a list \<Rightarrow> nat \<Rightarrow> 'a res" where
  "index xs i = (if i < length xs then Ok (xs ! i) else Panic OutOfBounds)"

lemma index_Ok_iff: "index xs i = Inr x \<longleftrightarrow> i < length xs \<and> xs ! i = x"
  by (auto simp: index_def)

lemma index_0_Cons [simp]: "index (x # xs) 0 = Inr x"
  by (simp add: index_def)

section \<open>Integers and bytes\<close>

primrec nat_to_le_bytes :: "nat \<Rightarrow> nat \<Rightarrow> bytes" where
  "nat_to_le_bytes 0 x = []"
| "nat_to_le_bytes (Suc n) x = of_nat (x mod 256) # nat_to_le_bytes n (x div 256)"

fun le_bytes_to_nat :: "bytes \<Rightarrow> nat" where
  "le_bytes_to_nat [] = 0"
| "le_bytes_to_nat (b # bs) = unat b + 256 * le_bytes_to_nat bs"

definition u16_to_le_bytes :: "u16 \<Rightarrow> bytes" where "u16_to_le_bytes w = nat_to_le_bytes 2 (unat w)"
definition u16_to_be_bytes :: "u16 \<Rightarrow> bytes" where "u16_to_be_bytes w = rev (u16_to_le_bytes w)"
definition u32_to_le_bytes :: "u32 \<Rightarrow> bytes" where "u32_to_le_bytes w = nat_to_le_bytes 4 (unat w)"
definition u32_to_be_bytes :: "u32 \<Rightarrow> bytes" where "u32_to_be_bytes w = rev (u32_to_le_bytes w)"
definition u64_to_le_bytes :: "u64 \<Rightarrow> bytes" where "u64_to_le_bytes w = nat_to_le_bytes 8 (unat w)"
definition u64_to_be_bytes :: "u64 \<Rightarrow> bytes" where "u64_to_be_bytes w = rev (u64_to_le_bytes w)"
definition u16_from_le_bytes :: "bytes \<Rightarrow> u16" where "u16_from_le_bytes bs = of_nat (le_bytes_to_nat bs)"
definition u32_from_le_bytes :: "bytes \<Rightarrow> u32" where "u32_from_le_bytes bs = of_nat (le_bytes_to_nat bs)"
definition u64_from_le_bytes :: "bytes \<Rightarrow> u64" where "u64_from_le_bytes bs = of_nat (le_bytes_to_nat bs)"
definition u64_from_be_bytes :: "bytes \<Rightarrow> u64" where "u64_from_be_bytes bs = u64_from_le_bytes (rev bs)"

lemma unat_bound: "unat (w :: 'a::len word) < 2 ^ LENGTH('a)"
  by (rule unsigned_less)

lemma unat_succ_u64:
  assumes "(c :: u64) \<noteq> - 1"
  shows "unat (c + 1) = unat c + 1"
proof -
  have "unat c \<noteq> unat (- 1 :: u64)" using assms by (simp only: word_unat_eq_iff not_False_eq_True)
  then have "unat c + 1 < 2 ^ 64" using unat_bound [of c] by (simp add: unsigned_minus_1_eq_mask mask_eq_exp_minus_1)
  then show ?thesis by (simp add: unat_word_ariths)
qed

lemma succ_le_u64:
  assumes "(c :: u64) \<noteq> - 1"
  shows "i \<le> c + 1 \<longleftrightarrow> i \<le> c \<or> i = c + 1" "i < c + 1 \<longleftrightarrow> i \<le> c" "1 \<le> c + 1"
  using unat_succ_u64 [OF assms] by (auto simp: word_le_nat_alt word_less_nat_alt word_unat_eq_iff)

lemma unat_of_nat_u64: "n < 2 ^ 64 \<Longrightarrow> unat (of_nat n :: u64) = n"
  by (simp add: unat_of_nat)

lemma unat_of_nat_byte: "x < 256 \<Longrightarrow> unat (of_nat x :: byte) = x"
  by (simp add: unat_of_nat)

lemma length_nat_to_le_bytes [simp]: "length (nat_to_le_bytes n x) = n"
  by (induction n arbitrary: x) auto

lemma le_bytes_roundtrip_mod: "le_bytes_to_nat (nat_to_le_bytes n x) = x mod 256 ^ n"
proof (induction n arbitrary: x)
  case (Suc n)
  have "x mod 256 ^ Suc n = x mod 256 + 256 * (x div 256 mod 256 ^ n)"
    by (simp add: mod_mult2_eq)
  with Suc show ?case by (simp add: unat_of_nat_byte)
qed simp

lemma le_bytes_roundtrip: "x < 256 ^ n \<Longrightarrow> le_bytes_to_nat (nat_to_le_bytes n x) = x"
  by (simp add: le_bytes_roundtrip_mod)

lemma unat_byte_lt [simp]: "unat (b :: byte) < 256"
  using unat_bound [of b] by simp

lemma le_bytes_to_nat_bound: "le_bytes_to_nat bs < 256 ^ length bs"
proof (induction bs)
  case (Cons b bs)
  have "unat b + 256 * le_bytes_to_nat bs < 256 + 256 * le_bytes_to_nat bs" by simp
  also have "\<dots> \<le> 256 * 256 ^ length bs" using Cons by simp
  finally show ?case by simp
qed simp

lemma nat_to_le_bytes_inverse: "nat_to_le_bytes (length bs) (le_bytes_to_nat bs) = bs"
proof (induction bs)
  case (Cons b bs)
  have "(unat b + 256 * le_bytes_to_nat bs) div 256 = le_bytes_to_nat bs"
    "(unat b + 256 * le_bytes_to_nat bs) mod 256 = unat b" by simp_all
  with Cons show ?case by simp
qed simp

lemma le_bytes_to_nat_replicate_0 [simp]: "le_bytes_to_nat (replicate n 0) = 0"
  by (induction n) auto

lemma le_bytes_to_nat_append:
  "le_bytes_to_nat (xs @ ys) = le_bytes_to_nat xs + 256 ^ length xs * le_bytes_to_nat ys"
  by (induction xs) (auto simp: algebra_simps)

lemma u16_le_roundtrip [simp]: "u16_from_le_bytes (u16_to_le_bytes w) = w"
  using unat_bound [of w] by (simp add: u16_from_le_bytes_def u16_to_le_bytes_def le_bytes_roundtrip)

lemma u32_le_roundtrip [simp]: "u32_from_le_bytes (u32_to_le_bytes w) = w"
  using unat_bound [of w] by (simp add: u32_from_le_bytes_def u32_to_le_bytes_def le_bytes_roundtrip)

lemma u64_le_roundtrip [simp]: "u64_from_le_bytes (u64_to_le_bytes w) = w"
  using unat_bound [of w] by (simp add: u64_from_le_bytes_def u64_to_le_bytes_def le_bytes_roundtrip)

lemma u64_be_roundtrip [simp]: "u64_from_be_bytes (u64_to_be_bytes w) = w"
  by (simp add: u64_from_be_bytes_def u64_to_be_bytes_def)

lemma length_to_bytes [simp]:
  "length (u16_to_le_bytes a) = 2" "length (u16_to_be_bytes a) = 2"
  "length (u32_to_le_bytes b) = 4" "length (u32_to_be_bytes b) = 4"
  "length (u64_to_le_bytes c) = 8" "length (u64_to_be_bytes c) = 8"
  by (simp_all add: u16_to_le_bytes_def u16_to_be_bytes_def u32_to_le_bytes_def
      u32_to_be_bytes_def u64_to_le_bytes_def u64_to_be_bytes_def)

text \<open>\<^verbatim>\<open>overflowing_add\<close> and \<^verbatim>\<open>overflowing_sub\<close> of \<^verbatim>\<open>u64\<close>.\<close>

definition overflowing_add :: "u64 \<Rightarrow> u64 \<Rightarrow> u64 \<times> bool" where
  "overflowing_add a b = (a + b, a + b < a)"

definition overflowing_sub :: "u64 \<Rightarrow> u64 \<Rightarrow> u64 \<times> bool" where
  "overflowing_sub a b = (a - b, a < b)"

lemma overflowing_add_iff: "snd (overflowing_add a b) \<longleftrightarrow> 2 ^ 64 \<le> unat a + unat b"
  using unat_bound [of a] unat_bound [of b]
  by (auto simp: overflowing_add_def word_less_nat_alt unat_word_ariths mod_if)

lemma overflowing_sub_iff: "snd (overflowing_sub a b) \<longleftrightarrow> unat a < unat b"
  by (simp add: overflowing_sub_def word_less_nat_alt)

section \<open>Vectors and map entries\<close>

text \<open>
  \<^verbatim>\<open>entry(k).and_modify(|v| v.push(x)).or_insert(vec![x])\<close>, \<^verbatim>\<open>Vec::remove\<close>,
  \<^verbatim>\<open>iter().position\<close>, \<^verbatim>\<open>slice::swap\<close> and \<^verbatim>\<open>chunks_exact\<close>.
\<close>

definition entry_push :: "('k \<rightharpoonup> 'v list) \<Rightarrow> 'k \<Rightarrow> 'v \<Rightarrow> ('k \<rightharpoonup> 'v list)" where
  "entry_push m k x = m(k \<mapsto> (case m k of None \<Rightarrow> [x] | Some xs \<Rightarrow> xs @ [x]))"

definition vec_remove :: "nat \<Rightarrow> 'a list \<Rightarrow> 'a list" where
  "vec_remove i xs = take i xs @ drop (Suc i) xs"

fun position :: "('a \<Rightarrow> bool) \<Rightarrow> 'a list \<Rightarrow> nat option" where
  "position P [] = None"
| "position P (x # xs) = (if P x then Some 0 else map_option Suc (position P xs))"

definition vec_swap :: "nat \<Rightarrow> nat \<Rightarrow> 'a list \<Rightarrow> 'a list" where
  "vec_swap i j xs = xs[i := xs ! j, j := xs ! i]"

fun chunks_exact :: "nat \<Rightarrow> 'a list \<Rightarrow> 'a list list" where
  "chunks_exact n xs = (if n = 0 \<or> length xs < n then [] else take n xs # chunks_exact n (drop n xs))"

declare chunks_exact.simps [simp del]

lemma position_Some_iff:
  "position P xs = Some i \<longleftrightarrow> i < length xs \<and> P (xs ! i) \<and> (\<forall>j < i. \<not> P (xs ! j))"
proof (induction xs arbitrary: i)
  case (Cons x xs)
  show ?case
    by (cases i) (use Cons in \<open>auto simp: nth_Cons' less_Suc_eq_0_disj\<close>)
qed simp

lemma position_None_iff: "position P xs = None \<longleftrightarrow> (\<forall>x \<in> set xs. \<not> P x)"
  by (induction xs) auto

lemma set_vec_remove_subset: "set (vec_remove i xs) \<subseteq> set xs"
  by (auto simp: vec_remove_def dest: in_set_takeD in_set_dropD)

lemma length_vec_remove: "i < length xs \<Longrightarrow> length (vec_remove i xs) = length xs - 1"
  by (simp add: vec_remove_def)

lemma length_vec_swap [simp]: "length (vec_swap i j xs) = length xs"
  by (simp add: vec_swap_def)

lemma set_vec_swap: "i < length xs \<Longrightarrow> j < length xs \<Longrightarrow> set (vec_swap i j xs) = set xs"
  by (simp add: vec_swap_def)

lemma chunks_exact_concat:
  assumes "0 < n" and "\<forall>c \<in> set cs. length c = n"
  shows "chunks_exact n (concat cs) = cs"
  using assms(2)
proof (induction cs)
  case Nil
  show ?case using assms(1) by (simp add: chunks_exact.simps)
next
  case (Cons c cs)
  then show ?case using assms(1) by (simp add: chunks_exact.simps [of n "c @ concat cs"])
qed

lemma length_chunks_exact: "0 < n \<Longrightarrow> length (chunks_exact n xs) = length xs div n"
proof (induction n xs rule: chunks_exact.induct)
  case (1 n xs)
  show ?case
  proof (cases "length xs < n")
    case True
    then show ?thesis by (simp add: chunks_exact.simps)
  next
    case False
    with 1 have "length (chunks_exact n (drop n xs)) = (length xs - n) div n" by simp
    with False 1(2) show ?thesis
      by (simp add: chunks_exact.simps [of n xs] le_div_geq)
  qed
qed

lemma chunks_exact_lengths: "c \<in> set (chunks_exact n xs) \<Longrightarrow> length c = n"
proof (induction n xs rule: chunks_exact.induct)
  case (1 n xs)
  then show ?case by (auto simp: chunks_exact.simps [of n xs] split: if_splits)
qed

lemma concat_chunks_exact:
  "0 < n \<Longrightarrow> n dvd length xs \<Longrightarrow> concat (chunks_exact n xs) = xs"
proof (induction n xs rule: chunks_exact.induct)
  case (1 n xs)
  show ?case
  proof (cases "length xs < n")
    case True
    with 1(3) have "xs = []" by (auto dest: dvd_imp_le)
    then show ?thesis using 1(2) by (simp add: chunks_exact.simps)
  next
    case False
    then have "n dvd length (drop n xs)" using 1(3) by (simp add: dvd_diff_nat)
    with False 1 have "concat (chunks_exact n (drop n xs)) = drop n xs" by simp
    with False 1(2) show ?thesis by (simp add: chunks_exact.simps [of n xs])
  qed
qed

section \<open>Ordered maps\<close>

text \<open>
  A \<^verbatim>\<open>BTreeMap\<close> whose iteration order matters is an association list with increasing keys.
  \<open>btree_entry k f v\<close> is \<^verbatim>\<open>entry(k).and_modify(f).or_insert(v)\<close>, \<open>btree_push\<close> the common case of a
  vector that is pushed to.
\<close>

fun btree_entry :: "'k::linorder \<Rightarrow> ('v \<Rightarrow> 'v) \<Rightarrow> 'v \<Rightarrow> ('k \<times> 'v) list \<Rightarrow> ('k \<times> 'v) list" where
  "btree_entry k f v [] = [(k, v)]"
| "btree_entry k f v ((k', v') # m) =
     (if k < k' then (k, v) # (k', v') # m
      else if k = k' then (k', f v') # m
      else (k', v') # btree_entry k f v m)"

definition btree_push :: "'k::linorder \<Rightarrow> 'v \<Rightarrow> ('k \<times> 'v list) list \<Rightarrow> ('k \<times> 'v list) list" where
  "btree_push k x = btree_entry k (\<lambda>xs. xs @ [x]) [x]"

lemma btree_entry_keys: "fst ` set (btree_entry k f v m) = insert k (fst ` set m)"
  by (induction k f v m rule: btree_entry.induct) auto

lemma btree_entry_sorted:
  "sorted_wrt (<) (map fst m) \<Longrightarrow> sorted_wrt (<) (map fst (btree_entry k f v m))"
proof (induction k f v m rule: btree_entry.induct)
  case (2 k f v k' v' m)
  have "fst ` set (btree_entry k f v m) = insert k (fst ` set m)" by (rule btree_entry_keys)
  then show ?case using 2 by (auto simp: image_iff)
qed simp

lemma btree_entry_lookup:
  "sorted_wrt (<) (map fst m) \<Longrightarrow>
     map_of (btree_entry k f v m) = (map_of m)(k \<mapsto> (case map_of m k of None \<Rightarrow> v | Some v' \<Rightarrow> f v'))"
proof (induction k f v m rule: btree_entry.induct)
  case (2 k f v k' v' m)
  have "map_of m k = None" if "k < k'"
    using 2(2) that by (fastforce simp: map_of_eq_None_iff)
  then show ?case using 2 by (auto simp: fun_eq_iff)
qed simp

lemma btree_push_sorted: "sorted_wrt (<) (map fst m) \<Longrightarrow> sorted_wrt (<) (map fst (btree_push k x m))"
  by (simp add: btree_push_def btree_entry_sorted)

lemma btree_push_lookup:
  "sorted_wrt (<) (map fst m) \<Longrightarrow> map_of (btree_push k x m) = entry_push (map_of m) k x"
  by (simp add: btree_push_def btree_entry_lookup entry_push_def)

text \<open>An ordered map is determined by its lookups.\<close>

lemma btree_ext:
  fixes m m' :: "('k::linorder \<times> 'v) list"
  assumes "sorted_wrt (<) (map fst m)" and "sorted_wrt (<) (map fst m')" and "map_of m = map_of m'"
  shows "m = m'"
proof -
  have rebuild: "xs = map (\<lambda>k. (k, the (map_of xs k))) (map fst xs)" if "sorted_wrt (<) (map fst xs)" for xs :: "('k \<times> 'v) list"
  proof -
    have "distinct (map fst xs)" using that by (simp add: strict_sorted_iff)
    then have "the (map_of xs (fst x)) = snd x" if "x \<in> set xs" for x using that by (cases x) simp
    then show ?thesis by (simp add: comp_def map_idI)
  qed
  have "set (map fst m) = set (map fst m')" using arg_cong [OF assms(3), of dom] by (simp add: dom_map_of_conv_image_fst)
  then have "map fst m = map fst m'" using strict_sorted_equal [OF assms(1,2)] by simp
  then show ?thesis using rebuild [OF assms(1)] rebuild [OF assms(2)] assms(3) by metis
qed

section \<open>Runs of an operation\<close>

text \<open>
  A component whose operation keeps an invariant: the contract that a sequence of calls relies
  on.  \<open>total_operation\<close> adds that a call never panics.
\<close>

locale invariant_operation =
  fixes step :: "'s \<Rightarrow> 'a \<Rightarrow> 'e + 's"
    and inv_ok :: "'s \<Rightarrow> bool"
    and arg_ok :: "'a \<Rightarrow> bool"
  assumes step_keeps: "inv_ok s \<Longrightarrow> arg_ok a \<Longrightarrow> step s a = Inr s' \<Longrightarrow> inv_ok s'"
begin

lemma run_keeps:
  assumes "inv_ok s" and "\<forall>a \<in> set as. arg_ok a" and "foldR step s as = Inr s'"
  shows "inv_ok s'"
  using assms(3,1) by (rule foldR_invariant) (use assms(2) step_keeps in blast)

end

locale total_operation = invariant_operation +
  assumes step_total: "inv_ok s \<Longrightarrow> arg_ok a \<Longrightarrow> \<exists>s'. step s a = Inr s'"
begin

lemma run_total:
  assumes "inv_ok s" and "\<forall>a \<in> set as. arg_ok a"
  shows "\<exists>s'. foldR step s as = Inr s' \<and> inv_ok s'"
  using assms
proof (induction as arbitrary: s)
  case (Cons a as)
  then obtain s1 where "step s a = Inr s1" using step_total by fastforce
  moreover have "inv_ok s1" using step_keeps [of s a s1] calculation Cons.prems by simp
  ultimately show ?case using Cons.IH [of s1] Cons.prems(2) by simp
qed simp

end

end
