(* ===== verification/Utils.thy ===== *)
theory Utils
  imports Prelude
begin

text \<open>
  The byte helpers of \<^verbatim>\<open>src/utils.rs\<close>.  \<^verbatim>\<open>BigUint\<close> values are \<open>nat\<close>; \<^verbatim>\<open>lzcnt\<close>, the
  leading-zero count of the \<^verbatim>\<open>bitintr\<close> package, is an argument of \<open>measure_quality\<close>.
\<close>

section \<open>Definitions\<close>

definition xor_bytes :: "bytes \<Rightarrow> bytes \<Rightarrow> bytes res" where
  "xor_bytes a b =
     foldR (\<lambda>a i. bindR (index b i) (\<lambda>b_i. Ok (a[i := a ! i XOR b_i]))) a [0..<length a]"

definition usize_to_bytes :: "nat \<Rightarrow> bytes" where
  "usize_to_bytes number = u32_to_be_bytes (of_nat number) @ replicate 12 0"

definition bytes_to_bigint :: "bytes \<Rightarrow> nat" where
  "bytes_to_bigint bs = le_bytes_to_nat (rev bs)"

definition usize_to_bigint :: "nat \<Rightarrow> nat" where
  "usize_to_bigint number = number"

definition bigint_to_usize :: "nat \<Rightarrow> nat res" where
  "bigint_to_usize bigint = (if bigint < 2 ^ 64 then Ok bigint else Panic Unwrap)"

definition modulo :: "bytes \<Rightarrow> nat \<Rightarrow> nat res" where
  "modulo a n =
     (if usize_to_bigint n = 0 then Panic (PanicMsg ''attempt to divide by zero'')
      else bigint_to_usize (bytes_to_bigint a mod usize_to_bigint n))"

definition bytes_le_to_u32 :: "bytes \<Rightarrow> u32 res" where
  "bytes_le_to_u32 array =
     bindR (index array 0) (\<lambda>b0. bindR (index array 1) (\<lambda>b1.
     bindR (index array 2) (\<lambda>b2. bindR (index array 3) (\<lambda>b3.
     Ok (ucast b0 + push_bit 8 (ucast b1) + push_bit 16 (ucast b2) + push_bit 24 (ucast b3))))))"

definition u16_to_bytes_le :: "u16 \<Rightarrow> bytes" where
  "u16_to_bytes_le number = u16_to_le_bytes number"

text \<open>As in the source, the argument is 16 bits wide.\<close>

definition u64_to_bytes_le :: "u16 \<Rightarrow> bytes" where
  "u64_to_bytes_le number = u16_to_le_bytes number"

definition bytes_to_le_16 :: "bytes \<Rightarrow> u16 res" where
  "bytes_to_le_16 array =
     bindR (index array 0) (\<lambda>b0. bindR (index array 1) (\<lambda>b1.
     Ok (ucast b0 + push_bit 8 (ucast b1))))"

fun measure_quality_loop :: "(byte \<Rightarrow> byte) \<Rightarrow> byte \<Rightarrow> bytes \<Rightarrow> byte" where
  "measure_quality_loop lzcnt quality [] = quality"
| "measure_quality_loop lzcnt quality (b # bs) =
     (if lzcnt b < 8 then quality + lzcnt b
      else measure_quality_loop lzcnt (quality + lzcnt b) bs)"

definition measure_quality :: "(byte \<Rightarrow> byte) \<Rightarrow> bytes \<Rightarrow> byte" where
  "measure_quality lzcnt tag = measure_quality_loop lzcnt 0 tag"

section \<open>Properties\<close>

lemma xor_loop:
  assumes "n \<le> length a" and "n \<le> length b"
  shows "foldR (\<lambda>a i. bindR (index b i) (\<lambda>b_i. Ok (a[i := a ! i XOR b_i]))) a [0..<n] =
           Ok (map2 (XOR) (take n a) (take n b) @ drop n a)"
  using assms
proof (induction n)
  case (Suc n)
  then have n: "n < length a" "n < length b" by auto
  have "(map2 (XOR) (take n a) (take n b) @ drop n a)[n := a ! n XOR b ! n] =
      map2 (XOR) (take (Suc n) a) (take (Suc n) b) @ drop (Suc n) a"
    using n by (simp add: take_Suc_conv_app_nth list_update_append Cons_nth_drop_Suc [symmetric])
  then show ?case using Suc n
    by (simp add: foldR_append index_def nth_append)
qed simp

lemma xor_bytes_Ok: "length a = length b \<Longrightarrow> xor_bytes a b = Ok (map2 (XOR) a b)"
  using xor_loop [of "length a" a b] by (simp add: xor_bytes_def)

lemma xor_bytes_short:
  assumes "length b < length a"
  shows "xor_bytes a b = Panic OutOfBounds"
proof -
  have "[0..<length a] = [0..<length b] @ [length b..<length a]"
    using assms upt_add_eq_append [of 0 "length b" "length a - length b"] by simp
  also have "\<dots> = [0..<length b] @ length b # [Suc (length b)..<length a]"
    using assms by (simp add: upt_conv_Cons)
  finally show ?thesis using assms xor_loop [of "length b" a b]
    by (simp add: xor_bytes_def foldR_append index_def)
qed

lemma xor_bytes_involution:
  assumes "length a = length b" and "xor_bytes a b = Ok c"
  shows "xor_bytes c b = Ok a"
proof -
  have "map2 (XOR) (map2 (XOR) a b) b = a" using assms(1)
    by (induction a b rule: list_induct2) (simp_all add: xor.assoc)
  moreover have "c = map2 (XOR) a b" using assms xor_bytes_Ok by simp
  ultimately show ?thesis using assms(1) xor_bytes_Ok [of c b] by simp
qed

lemma modulo_bound: "0 < n \<Longrightarrow> n < 2 ^ 64 \<Longrightarrow> modulo a n = Ok (bytes_to_bigint a mod n)"
  using less_trans [OF mod_less_divisor [of n "bytes_to_bigint a"]]
  by (simp add: modulo_def usize_to_bigint_def bigint_to_usize_def)

lemma ucast_shift_16: "(ucast (b :: byte) :: u16) + push_bit 8 (ucast c) = of_nat (unat b + 256 * unat c)"
  by (simp add: push_bit_eq_mult of_nat_unat mult.commute)

lemma u16_bytes_roundtrip: "bytes_to_le_16 (u16_to_bytes_le n) = Ok n"
proof -
  have "unat n < 65536" using unat_bound [of n] by simp
  then have "unat n div 256 < 256" "unat n mod 256 < 256" by auto
  then have "unat (of_nat (unat n mod 256) :: byte) + 256 * unat (of_nat (unat n div 256 mod 256) :: byte) = unat n"
    by (simp add: unat_of_nat_byte)
  then have "(of_nat (unat (of_nat (unat n mod 256) :: byte) + 256 * unat (of_nat (unat n div 256 mod 256) :: byte)) :: u16) = n"
    by (simp only: of_nat_unat ucast_id)
  then show ?thesis unfolding bytes_to_le_16_def u16_to_bytes_le_def u16_to_le_bytes_def
    by (simp add: index_def numeral_2_eq_2 ucast_shift_16 del: of_nat_add of_nat_mult)
qed

text \<open>
  \<^verbatim>\<open>measure_quality\<close> counts leading zero bits in a \<^verbatim>\<open>u8\<close>: the count of an all-zero tag of
  32 bytes is 256, which wraps to 0, the quality of the worst tag.
\<close>

lemma measure_quality_zeros:
  "lzcnt 0 = 8 \<Longrightarrow> measure_quality lzcnt (replicate n 0) = of_nat (8 * n)"
proof -
  assume l: "lzcnt 0 = 8"
  have "measure_quality_loop lzcnt q (replicate n 0) = q + of_nat (8 * n)" for q
    by (induction n arbitrary: q) (simp_all add: l)
  then show ?thesis by (simp add: measure_quality_def)
qed

end
