(* ===== verification/Sloth_Math.thy ===== *)
theory Sloth_Math
  imports Prelude
begin

text \<open>
  The number theory behind \<^verbatim>\<open>src/sloth.rs\<close>: arithmetic modulo a prime \<open>p\<close> with
  \<open>p mod 4 = 3\<close>.  Fermat's little theorem, the fact that exactly one of \<open>a\<close> and \<open>p - a\<close>
  is a square, and that raising a square to \<open>(p + 1) div 4\<close> gives a square root of it.
\<close>

definition is_prime :: "int \<Rightarrow> bool" where
  "is_prime p \<longleftrightarrow> 1 < p \<and> (\<forall>d. 0 < d \<longrightarrow> d dvd p \<longrightarrow> d = 1 \<or> d = p)"

definition is_square_mod :: "int \<Rightarrow> int \<Rightarrow> bool" where
  "is_square_mod p a \<longleftrightarrow> (\<exists>b. b * b mod p = a mod p)"

lemma is_prime_pos: "is_prime p \<Longrightarrow> 1 < p"
  by (simp add: is_prime_def)

lemma is_prime_3: "is_prime 3"
proof -
  have "d = 1 \<or> d = 3" if "0 < d" "d dvd 3" for d :: int
  proof -
    from that have "d \<le> 3" by (auto dest: zdvd_imp_le)
    then consider "d = 1" | "d = 2" | "d = 3" using \<open>0 < d\<close> by linarith
    then show ?thesis using that by cases auto
  qed
  then show ?thesis by (simp add: is_prime_def)
qed

lemma is_prime_odd:
  assumes "is_prime p" and "2 < p"
  shows "odd p"
proof
  assume "even p"
  with assms(1) have "(2::int) = 1 \<or> 2 = p" unfolding is_prime_def
    by (metis zero_less_numeral)
  then show False using assms(2) by simp
qed

lemma prime_coprime:
  assumes "is_prime p" and "\<not> p dvd a"
  shows "coprime p a"
proof -
  have "gcd p a dvd p" "0 < gcd p a" using assms(1) by (auto simp: is_prime_def)
  then have "gcd p a = 1 \<or> gcd p a = p" using assms(1) by (auto simp: is_prime_def)
  moreover have "gcd p a \<noteq> p" using assms(2) by (metis gcd_dvd2)
  ultimately show ?thesis by (simp add: coprime_iff_gcd_eq_1)
qed

lemma prime_dvd_mult:
  assumes "is_prime p" and "p dvd a * b"
  shows "p dvd a \<or> p dvd b"
proof (cases "p dvd a")
  case False
  then have "coprime p a" using assms(1) by (intro prime_coprime)
  then show ?thesis using assms(2) by (simp add: coprime_dvd_mult_right_iff)
qed simp

lemma prime_dvd_prod:
  assumes "is_prime p" and "finite A" and "p dvd prod f A"
  shows "\<exists>x \<in> A. p dvd f x"
  using assms(2,1,3)
proof (induction A rule: finite_induct)
  case empty
  then show ?case using is_prime_pos [of p] by (auto dest: zdvd_imp_le)
next
  case (insert x F)
  then have "p dvd f x \<or> p dvd prod f F" by (intro prime_dvd_mult) auto
  with insert show ?case by blast
qed

lemma mult_mod_inj:
  assumes "is_prime p" "\<not> p dvd a" "x \<in> {1..<p}" "y \<in> {1..<p}" "a * x mod p = a * y mod p"
  shows "x = y"
proof -
  have "p dvd a * x - a * y" using assms(5) by (simp add: mod_eq_dvd_iff)
  then have "p dvd a * (x - y)" by (simp add: algebra_simps)
  then have "p dvd x - y" using assms(1,2) prime_dvd_mult by blast
  then show ?thesis using assms(3,4) dvd_imp_le_int [of "x - y" p] by (cases "x = y") auto
qed

theorem fermat_little:
  assumes p: "is_prime p" and a: "\<not> p dvd a"
  shows "a ^ nat (p - 1) mod p = 1"
proof -
  let ?A = "{1..<p}" and ?f = "\<lambda>x. a * x mod p"
  have p1: "1 < p" using p by (rule is_prime_pos)
  have range: "?f x \<in> ?A" if "x \<in> ?A" for x
  proof -
    have "\<not> p dvd x" using that by (auto dest: zdvd_imp_le)
    then have "\<not> p dvd a * x" using p a prime_dvd_mult by blast
    then have "a * x mod p \<noteq> 0" by (simp add: dvd_eq_mod_eq_0)
    moreover have "0 \<le> a * x mod p" "a * x mod p < p" using p1 by simp_all
    ultimately show ?thesis by auto
  qed
  have inj: "inj_on ?f ?A"
    by (rule inj_onI) (blast intro: mult_mod_inj [OF p a])
  then have "?f ` ?A = ?A"
    by (intro endo_inj_surj) (use range in auto)
  with inj have bij: "bij_betw ?f ?A ?A" by (simp add: bij_betw_def)
  let ?P = "prod (\<lambda>x. x) ?A"
  have "?P = prod ?f ?A" by (rule prod.reindex_bij_betw [OF bij, symmetric])
  then have "?P mod p = prod ?f ?A mod p" by simp
  also have "\<dots> = prod (\<lambda>x. a * x) ?A mod p" by (rule mod_prod_eq)
  also have "prod (\<lambda>x. a * x) ?A = a ^ nat (p - 1) * ?P"
    by (simp add: prod.distrib)
  finally have "p dvd (a ^ nat (p - 1) - 1) * ?P"
    by (simp add: mod_eq_dvd_iff algebra_simps) (metis dvd_minus_iff minus_diff_eq)
  moreover have "\<not> p dvd ?P"
  proof
    assume "p dvd ?P"
    then obtain x where "x \<in> ?A" "p dvd x" using prime_dvd_prod [OF p, of ?A "\<lambda>x. x"] by auto
    then show False by (auto dest: zdvd_imp_le)
  qed
  ultimately have "p dvd a ^ nat (p - 1) - 1" using p prime_dvd_mult by blast
  then have "a ^ nat (p - 1) mod p = 1 mod p" by (simp add: mod_eq_dvd_iff)
  then show ?thesis using p1 by simp
qed

section \<open>Squares modulo a prime that is 3 mod 4\<close>

lemma square_mod_inj:
  assumes "is_prime p" "x \<in> {1..(p - 1) div 2}" "y \<in> {1..(p - 1) div 2}"
    and "x * x mod p = y * y mod p"
  shows "x = y"
proof -
  have "p dvd x * x - y * y" using assms(4) by (simp add: mod_eq_dvd_iff)
  then have "p dvd (x + y) * (x - y)" by (simp add: algebra_simps)
  then consider "p dvd x + y" | "p dvd x - y" using assms(1) prime_dvd_mult by blast
  then show ?thesis
  proof cases
    case 1
    then have "p \<le> x + y" using assms(2,3) by (intro zdvd_imp_le) auto
    then show ?thesis using assms(2,3) by auto
  next
    case 2
    then show ?thesis using assms(2,3) is_prime_pos [OF assms(1)]
        dvd_imp_le_int [of "x - y" p] by (cases "x = y") auto
  qed
qed

lemma mod_4_cases:
  assumes "1 < (p :: int)" and "p mod 4 = 3"
  obtains k where "p = 4 * int k + 3"
proof -
  have "p = 4 * (p div 4) + 3" using assms(2) by presburger
  moreover have "0 \<le> p div 4" using assms(1) by simp
  ultimately have "p = 4 * int (nat (p div 4)) + 3" by simp
  then show thesis by (rule that)
qed

lemma half_of_prime:
  assumes "1 < (p :: int)" and "p mod 4 = 3"
  shows "odd (nat ((p - 1) div 2))" and "2 * nat ((p - 1) div 2) = nat (p - 1)"
    and "2 * (2 * nat ((p + 1) div 4)) = nat (p - 1) + 2"
proof -
  obtain k where k: "p = 4 * int k + 3" using assms by (rule mod_4_cases)
  have "(p - 1) div 2 = int (2 * k + 1)" and "(p + 1) div 4 = int (k + 1)"
    and "p - 1 = int (4 * k + 2)" using k by simp_all
  then show "odd (nat ((p - 1) div 2))" and "2 * nat ((p - 1) div 2) = nat (p - 1)"
    and "2 * (2 * nat ((p + 1) div 4)) = nat (p - 1) + 2" by (simp_all only: nat_int) simp_all
qed

lemma neg_not_square:
  assumes p: "is_prime p" and p4: "p mod 4 = 3" and x: "\<not> p dvd x"
  shows "\<not> p dvd x * x + y * y"
proof
  assume sum: "p dvd x * x + y * y"
  let ?h = "nat ((p - 1) div 2)"
  have h: "odd ?h" "2 * ?h = nat (p - 1)"
    by (rule half_of_prime [OF is_prime_pos [OF p] p4])+
  have y: "\<not> p dvd y"
  proof
    assume "p dvd y"
    then have "p dvd x * x" using sum by (simp add: dvd_add_left_iff)
    then show False using x p prime_dvd_mult by blast
  qed
  have pow: "(z * z) ^ ?h mod p = 1" if "\<not> p dvd z" for z
  proof -
    have "(z * z) ^ ?h = z ^ (2 * ?h)" by (simp add: power_mult power2_eq_square)
    then show ?thesis using fermat_little [OF p that] h(2) by simp
  qed
  have "(x * x) mod p = (- (y * y)) mod p" using sum by (simp add: mod_eq_dvd_iff)
  then have "(x * x) ^ ?h mod p = (- (y * y)) ^ ?h mod p" by (metis power_mod)
  also have "(- (y * y)) ^ ?h = - ((y * y) ^ ?h)" using h(1) by simp
  also have "\<dots> mod p = (- 1) mod p" using pow [OF y] by (metis mod_minus_eq)
  finally have "1 = (- 1) mod p" using pow [OF x] by simp
  then have "p dvd 2" using is_prime_pos [OF p]
    by (metis add.inverse_inverse diff_minus_eq_add mod_eq_dvd_iff mod_mod_trivial one_add_one)
  then have "p \<le> 2" by (auto dest: zdvd_imp_le)
  then show False using p4 is_prime_pos [OF p] by auto
qed

lemma square_mod_range:
  assumes "is_prime p" and "\<not> p dvd x"
  shows "x * x mod p \<in> {1..<p}"
proof -
  have p1: "1 < p" using assms(1) by (rule is_prime_pos)
  have "\<not> p dvd x * x" using assms prime_dvd_mult by blast
  then have "x * x mod p \<noteq> 0" by (simp add: dvd_eq_mod_eq_0)
  moreover have "0 \<le> x * x mod p" "x * x mod p < p" using p1 by simp_all
  ultimately show ?thesis unfolding atLeastLessThan_iff by linarith
qed

lemma square_not_neg_square:
  assumes "is_prime p" and "p mod 4 = 3" and "\<not> p dvd x"
  shows "x * x mod p \<noteq> p - y * y mod p"
proof
  assume e: "x * x mod p = p - y * y mod p"
  have "(x * x + y * y) mod p = (x * x mod p + y * y mod p) mod p" by (simp add: mod_add_eq)
  also have "x * x mod p + y * y mod p = p" using e by linarith
  finally have "p dvd x * x + y * y" by (simp add: mod_0_imp_dvd)
  then show False using neg_not_square [OF assms] by blast
qed

theorem square_or_neg_square:
  assumes p: "is_prime p" and p4: "p mod 4 = 3" and a: "a \<in> {1..<p}"
  shows "is_square_mod p a \<or> is_square_mod p (p - a)"
proof -
  let ?H = "{1..(p - 1) div 2}"
  let ?Q = "(\<lambda>x. x * x mod p) ` ?H"
  let ?N = "(\<lambda>x. p - x) ` ?Q"
  have p1: "1 < p" using p by (rule is_prime_pos)
  have H: "\<not> p dvd x" if "x \<in> ?H" for x using that p1 by (auto dest: zdvd_imp_le)
  have cQ: "card ?Q = nat ((p - 1) div 2)"
    by (subst card_image) (use square_mod_inj [OF p] in \<open>auto intro: inj_onI\<close>)
  have cN: "card ?N = nat ((p - 1) div 2)"
    by (subst card_image) (simp_all add: cQ inj_on_def)
  have disj: "?Q \<inter> ?N = {}" using square_not_neg_square [OF p p4 H] by blast
  have "card (?Q \<union> ?N) = card ?Q + card ?N"
    by (rule card_Un_disjoint) (simp_all only: finite_imageI finite_atLeastAtMost_int disj)
  also have "\<dots> = 2 * nat ((p - 1) div 2)" by (simp only: cQ cN mult_2)
  also have "\<dots> = card {1..<p}" using half_of_prime(2) [OF p1 p4] by simp
  finally have "card (?Q \<union> ?N) = card {1..<p}" .
  moreover have "?Q \<union> ?N \<subseteq> {1..<p}"
  proof
    fix q assume "q \<in> ?Q \<union> ?N"
    then obtain x where x: "x \<in> ?H" "q = x * x mod p \<or> q = p - x * x mod p" by blast
    then show "q \<in> {1..<p}" using square_mod_range [OF p H [OF x(1)]] unfolding atLeastLessThan_iff by linarith
  qed
  ultimately have "?Q \<union> ?N = {1..<p}" by (intro card_subset_eq) simp_all
  then obtain x where "a = x * x mod p \<or> a = p - x * x mod p" using a by blast
  then show ?thesis by (auto simp: is_square_mod_def)
qed

lemma sqrt_by_power:
  assumes p: "is_prime p" and p4: "p mod 4 = 3" and a: "a \<in> {1..<p}"
    and sq: "is_square_mod p a" and r: "r = a ^ nat ((p + 1) div 4) mod p"
  shows "r * r mod p = a" and "r \<in> {1..<p}"
proof -
  let ?e = "nat ((p + 1) div 4)"
  have p1: "1 < p" using p by (rule is_prime_pos)
  obtain b where b: "b * b mod p = a" using sq a by (auto simp: is_square_mod_def)
  have nb: "\<not> p dvd b" using b a by (auto simp: dvd_eq_mod_eq_0)
  have e: "2 * (2 * ?e) = nat (p - 1) + 2" by (rule half_of_prime(3) [OF p1 p4])
  have "r * r mod p = a ^ (2 * ?e) mod p"
    by (simp add: r mod_mult_eq power_add mult_2)
  also have "\<dots> = (b * b) ^ (2 * ?e) mod p" using b by (metis power_mod)
  also have "(b * b) ^ (2 * ?e) = b ^ (2 * (2 * ?e))"
    by (simp only: power_mult [of b 2] power2_eq_square)
  also have "\<dots> = b ^ nat (p - 1) * (b * b)" by (simp only: e power_add power2_eq_square)
  also have "\<dots> mod p = 1 * (b * b) mod p"
    using fermat_little [OF p nb] by (metis mod_mult_left_eq)
  finally show rr: "r * r mod p = a" using b by simp
  have "r \<noteq> 0" using rr a by auto
  moreover have "0 \<le> r" "r < p" using r p1 by simp_all
  ultimately show "r \<in> {1..<p}" by simp
qed

end
