(* ===== verification/Sloth.thy ===== *)
theory Sloth
  imports Sloth_Math
begin

text \<open>
  The time-asymmetric block cipher of \<^verbatim>\<open>src/sloth.rs\<close>.  GMP integers are \<open>int\<close>; the three
  GMP functions with content of their own (the primality test, the Jacobi symbol and modular
  exponentiation) are the parameters of the record \<open>gmp\<close>, and \<open>gmp_ok\<close> and
  \<open>prime_test_exact\<close> say what their documentation promises.

  Main results: \<open>Sloth::init\<close> finds the largest suitable prime; the square-root permutation is
  a permutation of \<open>1..<p\<close> with inverse \<open>inverse_sqrt\<close>; \<open>decode\<close> undoes \<open>encode\<close>;
  \<open>decode_parallel\<close> computes what \<open>decode\<close> computes.
\<close>

section \<open>Parameters: the GMP functions\<close>

datatype IsPrime = No | Probably | Yes

record gmp =
  is_probably_prime :: "int \<Rightarrow> nat \<Rightarrow> IsPrime"
  jacobi :: "int \<Rightarrow> int \<Rightarrow> int"
  pow_mod :: "int \<Rightarrow> int \<Rightarrow> int \<Rightarrow> int"

definition prime_test_exact :: "'z gmp_scheme \<Rightarrow> bool" where
  "prime_test_exact E \<longleftrightarrow> (\<forall>n > 1. is_probably_prime E n 25 \<noteq> No \<longleftrightarrow> is_prime n)"

definition pow_mod_ok :: "'z gmp_scheme \<Rightarrow> bool" where
  "pow_mod_ok E \<longleftrightarrow> (\<forall>b e m. 0 \<le> e \<longrightarrow> 0 < m \<longrightarrow> pow_mod E b e m = b ^ nat e mod m)"

definition jacobi_ok :: "'z gmp_scheme \<Rightarrow> int \<Rightarrow> bool" where
  "jacobi_ok E p \<longleftrightarrow> (\<forall>a. 0 \<le> a \<longrightarrow> a < p \<longrightarrow>
     jacobi E a p = (if a = 0 then 0 else if is_square_mod p a then 1 else - 1))"

section \<open>The cipher\<close>

record Sloth =
  block_size_bits :: nat
  block_size_bytes :: nat
  prime :: int
  exponent :: int

text \<open>\<^verbatim>\<open>prev_prime\<close>: \<open>None\<close> stands for a loop that does not end.\<close>

partial_function (option) prev_prime_loop :: "'z gmp_scheme \<Rightarrow> int \<Rightarrow> int option" where
  "prev_prime_loop E p =
     (if is_probably_prime E p 25 = No then prev_prime_loop E (p - 2) else Some p)"

definition prev_prime :: "'z gmp_scheme \<Rightarrow> int \<Rightarrow> int option" where
  "prev_prime E p = prev_prime_loop E (if even p then p - 1 else p - 2)"

partial_function (option) init_loop :: "'z gmp_scheme \<Rightarrow> int \<Rightarrow> int option" where
  "init_loop E p =
     (if p mod 4 \<noteq> 3 then Option.bind (prev_prime E p) (init_loop E) else Some p)"

definition init :: "'z gmp_scheme \<Rightarrow> nat \<Rightarrow> Sloth option" where
  "init E bits =
     Option.bind (prev_prime E (2 ^ bits - 1)) (\<lambda>p0.
     Option.bind (init_loop E p0) (\<lambda>p.
     Some \<lparr>block_size_bits = bits, block_size_bytes = bits div 8,
           prime = p, exponent = (p + 1) div 4\<rparr>))"

text \<open>
  \<^verbatim>\<open>DataBiggerThanPrime\<close> is the error of the source; \<open>SlothPanic\<close> is the panic of
  \<^verbatim>\<open>chunks_exact\<close> on a zero block size.
\<close>

datatype sloth_error = DataBiggerThanPrime | SlothPanic panic

definition sqrt_permutation :: "'z gmp_scheme \<Rightarrow> Sloth \<Rightarrow> int \<Rightarrow> sloth_error + int" where
  "sqrt_permutation E s data =
     (if prime s \<le> data then Inl DataBiggerThanPrime
      else if jacobi E data (prime s) = 1 then
        (let r = pow_mod E data (exponent s) (prime s)
         in Ok (if odd r then - r + prime s else r))
      else
        (let r = pow_mod E (- data + prime s) (exponent s) (prime s)
         in Ok (if even r then - r + prime s else r)))"

definition inverse_sqrt :: "'z gmp_scheme \<Rightarrow> Sloth \<Rightarrow> int \<Rightarrow> int" where
  "inverse_sqrt E s data =
     (let r = pow_mod E (data * data) 1 (prime s)
      in if odd data then - r + prime s else r)"

text \<open>Integers and bytes: \<^verbatim>\<open>Integer::from_digits\<close> and \<^verbatim>\<open>to_digits\<close>, least significant first.\<close>

definition from_digits :: "bytes \<Rightarrow> int" where
  "from_digits bs = int (le_bytes_to_nat bs)"

fun nat_digits :: "nat \<Rightarrow> bytes" where
  "nat_digits x = (if x = 0 then [] else of_nat (x mod 256) # nat_digits (x div 256))"

declare nat_digits.simps [simp del]

definition to_digits :: "int \<Rightarrow> bytes" where
  "to_digits x = nat_digits (nat \<bar>x\<bar>)"

text \<open>
  \<^verbatim>\<open>write_integers_to_array\<close>: each integer's digits padded to the block size; the padding
  length is a \<^verbatim>\<open>usize\<close> subtraction, which wraps.  Writing stops at the shorter of the two sides.
\<close>

definition pad_len :: "nat \<Rightarrow> nat \<Rightarrow> nat" where
  "pad_len bs n = (if n \<le> bs then bs - n else 2 ^ 64 + bs - n)"

definition write_integers_to_array :: "int list \<Rightarrow> bytes \<Rightarrow> nat \<Rightarrow> bytes" where
  "write_integers_to_array integer_piece piece bs =
     (let from_bytes = concat (map (\<lambda>x. to_digits x @ replicate (pad_len bs (length (to_digits x))) 0)
                                integer_piece)
      in take (length piece) from_bytes @ drop (length from_bytes) piece)"

text \<open>The cipher loop: each block is combined with the feedback, permuted, and fed forward.\<close>

fun feedback_layer :: "(int \<Rightarrow> 'e + int) \<Rightarrow> int \<Rightarrow> int list \<Rightarrow> 'e + int list \<times> int" where
  "feedback_layer perm fb [] = Ok ([], fb)"
| "feedback_layer perm fb (b # bs) =
     bindR (perm (b XOR fb)) (\<lambda>c.
     bindR (feedback_layer perm c bs) (\<lambda>(cs, fb'). Ok (c # cs, fb')))"

fun feedback_layers :: "(int \<Rightarrow> 'e + int) \<Rightarrow> nat \<Rightarrow> int \<Rightarrow> int list \<Rightarrow> 'e + int list" where
  "feedback_layers perm 0 fb bs = Ok bs"
| "feedback_layers perm (Suc n) fb bs =
     bindR (feedback_layer perm fb bs) (\<lambda>(cs, fb'). feedback_layers perm n fb' cs)"

definition encode :: "'z gmp_scheme \<Rightarrow> Sloth \<Rightarrow> Piece \<Rightarrow> int \<Rightarrow> nat \<Rightarrow> sloth_error + Piece" where
  "encode E s piece expanded_iv layers =
     (if block_size_bytes s = 0 then Inl (SlothPanic (PanicMsg ''chunk_size must be non-zero''))
      else
        bindR (feedback_layers (sqrt_permutation E s) layers expanded_iv
                 (map from_digits (chunks_exact (block_size_bytes s) piece)))
          (\<lambda>integer_piece. Ok (write_integers_to_array integer_piece piece (block_size_bytes s))))"

definition piece_to_block_and_feedback :: "int list \<Rightarrow> nat \<Rightarrow> (int \<times> int) res" where
  "piece_to_block_and_feedback xs i =
     (if 0 < i \<and> i < length xs then Ok (xs ! i, xs ! (i - 1)) else Panic OutOfBounds)"

definition piece_to_first_block_and_feedback :: "int list \<Rightarrow> (int \<times> int) res" where
  "piece_to_first_block_and_feedback xs =
     (if 2 \<le> length xs then Ok (xs ! 0, last xs) else Panic OutOfBounds)"

definition unchain_step :: "(int \<Rightarrow> int) \<Rightarrow> int list \<Rightarrow> nat \<Rightarrow> int list res" where
  "unchain_step unperm xs i =
     bindR (piece_to_block_and_feedback xs i) (\<lambda>(block, feedback).
     Ok (xs[i := unperm block XOR feedback]))"

definition unchain_first :: "(int \<Rightarrow> int) \<Rightarrow> bool \<Rightarrow> int list \<Rightarrow> int list res" where
  "unchain_first unperm is_last xs =
     bindR (piece_to_first_block_and_feedback xs) (\<lambda>(block, feedback).
     Ok (xs[0 := (if is_last then unperm block else unperm block XOR feedback)]))"

definition decode_layer :: "(int \<Rightarrow> int) \<Rightarrow> nat \<Rightarrow> bool \<Rightarrow> int list \<Rightarrow> int list res" where
  "decode_layer unperm n is_last xs =
     bindR (foldR (unchain_step unperm) xs (rev [1..<n])) (unchain_first unperm is_last)"

definition remove_iv :: "ExpandedIV \<Rightarrow> int list \<Rightarrow> int list res" where
  "remove_iv expanded_iv xs = bindR (index xs 0) (\<lambda>b. Ok (xs[0 := b XOR from_digits expanded_iv]))"

definition decode :: "'z gmp_scheme \<Rightarrow> Sloth \<Rightarrow> bytes \<Rightarrow> ExpandedIV \<Rightarrow> nat \<Rightarrow> bytes res" where
  "decode E s piece expanded_iv layers =
     (if block_size_bytes s = 0 then Panic (PanicMsg ''chunk_size must be non-zero'')
      else
        bindR (foldR (\<lambda>xs layer. decode_layer (inverse_sqrt E s) (PIECE_SIZE div block_size_bytes s)
                                   (layer = layers - 1) xs)
                 (map from_digits (chunks_exact (block_size_bytes s) piece)) [0..<layers]) (\<lambda>xs.
        bindR (remove_iv expanded_iv xs) (\<lambda>xs.
        Ok (write_integers_to_array xs piece (block_size_bytes s)))))"

text \<open>
  \<^verbatim>\<open>decode_parallel\<close>: block \<open>i\<close> is combined with block \<open>i - 1\<close> of a copy taken before the layer.
\<close>

definition decode_parallel_layer :: "(int \<Rightarrow> int) \<Rightarrow> bool \<Rightarrow> int list \<Rightarrow> int list res" where
  "decode_parallel_layer unperm is_last xs =
     (let tail = rev (map2 (\<lambda>block feedback. unperm block XOR feedback)
                        (rev (drop 1 xs)) (drop 1 (rev xs)))
      in unchain_first unperm is_last (take 1 xs @ tail))"

definition decode_parallel :: "'z gmp_scheme \<Rightarrow> Sloth \<Rightarrow> Piece \<Rightarrow> ExpandedIV \<Rightarrow> nat \<Rightarrow> Piece res" where
  "decode_parallel E s piece expanded_iv layers =
     (if block_size_bytes s = 0 then Panic (PanicMsg ''chunk_size must be non-zero'')
      else
        bindR (foldR (\<lambda>xs layer. decode_parallel_layer (inverse_sqrt E s) (layer = layers - 1) xs)
                 (map from_digits (chunks_exact (block_size_bytes s) piece)) [0..<layers]) (\<lambda>xs.
        bindR (remove_iv expanded_iv xs) (\<lambda>xs.
        Ok (write_integers_to_array xs piece (block_size_bytes s)))))"

section \<open>Finding the prime\<close>

lemma prev_prime_loop_spec:
  assumes E: "prime_test_exact E" and "odd n" and "3 \<le> n"
  shows "\<exists>p. prev_prime_loop E n = Some p \<and> is_prime p \<and> odd p \<and> 3 \<le> p \<and> p \<le> n \<and>
           (\<forall>q. is_prime q \<longrightarrow> q \<le> n \<longrightarrow> q \<le> p)"
  using assms(2,3)
proof (induction "nat n" arbitrary: n rule: less_induct)
  case less
  have test: "is_probably_prime E n 25 \<noteq> No \<longleftrightarrow> is_prime n"
    using E less.prems by (auto simp: prime_test_exact_def)
  show ?case
  proof (cases "is_prime n")
    case True
    then show ?thesis using test less.prems by (auto simp: prev_prime_loop.simps [of E n])
  next
    case False
    then have "n \<noteq> 3" using is_prime_3 by auto
    then have n5: "5 \<le> n" using less.prems by presburger
    have IH: "\<exists>p. prev_prime_loop E (n - 2) = Some p \<and> is_prime p \<and> odd p \<and> 3 \<le> p \<and> p \<le> n - 2 \<and>
                (\<forall>q. is_prime q \<longrightarrow> q \<le> n - 2 \<longrightarrow> q \<le> p)"
      by (rule less.hyps) (use n5 less.prems in auto)
    have skip: "q \<le> n - 2" if "is_prime q" "q \<le> n" for q
    proof (cases "2 < q")
      case True
      then have "odd q" using that(1) by (intro is_prime_odd)
      moreover have "q \<noteq> n" using that(1) False by auto
      ultimately show ?thesis using that(2) \<open>odd n\<close> by presburger
    next
      case False
      then show ?thesis using n5 by linarith
    qed
    have "prev_prime_loop E n = prev_prime_loop E (n - 2)"
      using test False by (simp add: prev_prime_loop.simps [of E n])
    then show ?thesis using IH skip by fastforce
  qed
qed

lemma prev_prime_spec:
  assumes "prime_test_exact E" and "4 \<le> n"
  shows "\<exists>p. prev_prime E n = Some p \<and> is_prime p \<and> odd p \<and> 3 \<le> p \<and> p < n \<and>
           (\<forall>q. is_prime q \<longrightarrow> q < n \<longrightarrow> q \<le> p)"
proof -
  let ?m = "if even n then n - 1 else n - 2"
  have "odd ?m" "3 \<le> ?m" using assms(2) by auto presburger
  from prev_prime_loop_spec [OF assms(1) this] obtain p where
    p: "prev_prime_loop E ?m = Some p" "is_prime p" "odd p" "3 \<le> p" "p \<le> ?m"
    and max: "\<forall>q. is_prime q \<longrightarrow> q \<le> ?m \<longrightarrow> q \<le> p" by blast
  have "q \<le> p" if "is_prime q" "q < n" for q
  proof (cases "2 < q")
    case True
    then have "odd q" using that(1) by (intro is_prime_odd)
    then have "q \<le> ?m" using that(2) by (cases "q = n - 1") auto
    then show ?thesis using max that(1) by blast
  qed (use p(4) in linarith)
  with p show ?thesis by (auto simp: prev_prime_def split: if_splits)
qed

lemma init_loop_spec:
  assumes E: "prime_test_exact E" and "is_prime n" and "odd n" and "3 \<le> n"
  shows "\<exists>p. init_loop E n = Some p \<and> is_prime p \<and> p mod 4 = 3 \<and> p \<le> n \<and>
           (\<forall>q. is_prime q \<longrightarrow> q mod 4 = 3 \<longrightarrow> q \<le> n \<longrightarrow> q \<le> p)"
  using assms(2-)
proof (induction "nat n" arbitrary: n rule: less_induct)
  case less
  show ?case
  proof (cases "n mod 4 = 3")
    case True
    then show ?thesis using less.prems by (auto simp: init_loop.simps [of E n])
  next
    case False
    then have "4 \<le> n" using less.prems by (cases "n = 3") auto
    then obtain p where p: "prev_prime E n = Some p" "is_prime p" "odd p" "3 \<le> p" "p < n"
      and max: "\<forall>q. is_prime q \<longrightarrow> q < n \<longrightarrow> q \<le> p"
      using prev_prime_spec [OF E, of n] by blast
    have "\<exists>p'. init_loop E p = Some p' \<and> is_prime p' \<and> p' mod 4 = 3 \<and> p' \<le> p \<and>
            (\<forall>q. is_prime q \<longrightarrow> q mod 4 = 3 \<longrightarrow> q \<le> p \<longrightarrow> q \<le> p')"
      by (rule less.hyps) (use p in auto)
    moreover have "init_loop E n = init_loop E p"
      using False p(1) by (simp add: init_loop.simps [of E n])
    moreover have "q \<le> p" if "is_prime q" "q mod 4 = 3" "q \<le> n" for q
      using that False max by (cases "q = n") auto
    ultimately show ?thesis using p(5) by fastforce
  qed
qed

definition sloth_ok :: "'z gmp_scheme \<Rightarrow> Sloth \<Rightarrow> bool" where
  "sloth_ok E s \<longleftrightarrow> is_prime (prime s) \<and> prime s mod 4 = 3 \<and> exponent s = (prime s + 1) div 4 \<and>
     0 < block_size_bytes s \<and> prime s < 256 ^ block_size_bytes s \<and>
     pow_mod_ok E \<and> jacobi_ok E (prime s)"


section \<open>The square-root permutation\<close>

lemma sloth_okD:
  assumes "sloth_ok E s"
  shows "is_prime (prime s)" "prime s mod 4 = 3" "1 < prime s" "odd (prime s)"
    "exponent s = (prime s + 1) div 4" "0 \<le> exponent s"
    "\<And>b. pow_mod E b (exponent s) (prime s) = b ^ nat ((prime s + 1) div 4) mod prime s"
    "\<And>b. pow_mod E b 1 (prime s) = b mod prime s"
    "\<And>a. 0 \<le> a \<Longrightarrow> a < prime s \<Longrightarrow>
       jacobi E a (prime s) = (if a = 0 then 0 else if is_square_mod (prime s) a then 1 else - 1)"
proof -
  show p: "is_prime (prime s)" "prime s mod 4 = 3" and e: "exponent s = (prime s + 1) div 4"
    using assms by (auto simp: sloth_ok_def)
  show p1: "1 < prime s" using p(1) by (rule is_prime_pos)
  show "odd (prime s)" using p(2) by presburger
  show e0: "0 \<le> exponent s" using p1 e by simp
  show "pow_mod E b (exponent s) (prime s) = b ^ nat ((prime s + 1) div 4) mod prime s"
    and "pow_mod E b 1 (prime s) = b mod prime s" for b
    using assms p1 e e0 by (auto simp: sloth_ok_def pow_mod_ok_def)
  show "jacobi E a (prime s) = (if a = 0 then 0 else if is_square_mod (prime s) a then 1 else - 1)"
    if "0 \<le> a" "a < prime s" for a
    using assms that by (auto simp: sloth_ok_def jacobi_ok_def)
qed

lemma inverse_sqrt_simp:
  "sloth_ok E s \<Longrightarrow> inverse_sqrt E s x =
     (if odd x then prime s - x * x mod prime s else x * x mod prime s)"
  by (simp add: inverse_sqrt_def sloth_okD(8) Let_def)

lemma minus_square_mod: "(p - r) * (p - r) mod p = r * r mod (p :: int)"
proof -
  have "(p - r) * (p - r) = r * r + p * (p - 2 * r)" by (simp add: algebra_simps)
  then show ?thesis by simp
qed

lemma sqrt_permutation_correct:
  assumes ok: "sloth_ok E s" and x: "x \<in> {1..<prime s}"
  shows "\<exists>y \<in> {1..<prime s}. sqrt_permutation E s x = Ok y \<and> inverse_sqrt E s y = x"
proof -
  let ?p = "prime s"
  note p = sloth_okD [OF ok]
  define root where "root a = a ^ nat ((?p + 1) div 4) mod ?p" for a
  have root: "root a * root a mod ?p = a" "root a \<in> {1..<?p}"
    if "a \<in> {1..<?p}" "is_square_mod ?p a" for a
    using sqrt_by_power [OF p(1,2) that(1,2) root_def] by blast+
  show ?thesis
  proof (cases "is_square_mod ?p x")
    case True
    let ?y = "if odd (root x) then ?p - root x else root x"
    have y: "?y \<in> {1..<?p}" "even ?y" "?y * ?y mod ?p = x"
      using root [OF x True] p(4) minus_square_mod [of ?p "root x"] by auto
    have "sqrt_permutation E s x = Ok ?y"
      using x True p(9) [of x] by (auto simp: sqrt_permutation_def p(7) root_def Let_def)
    moreover have "inverse_sqrt E s ?y = x" using y by (simp add: inverse_sqrt_simp [OF ok])
    ultimately show ?thesis using y(1) by blast
  next
    case False
    let ?a = "?p - x"
    have a: "?a \<in> {1..<?p}" using x by auto
    have sq: "is_square_mod ?p ?a" using square_or_neg_square [OF p(1,2) x] False by blast
    let ?y = "if even (root ?a) then ?p - root ?a else root ?a"
    have y: "?y \<in> {1..<?p}" "odd ?y" "?y * ?y mod ?p = ?a"
      using root [OF a sq] p(4) minus_square_mod [of ?p "root ?a"] by auto
    have "sqrt_permutation E s x = Ok ?y"
      using x False p(9) [of x] by (auto simp: sqrt_permutation_def p(7) root_def Let_def)
    moreover have "inverse_sqrt E s ?y = x" using y by (simp add: inverse_sqrt_simp [OF ok])
    ultimately show ?thesis using y(1) by blast
  qed
qed

lemma sqrt_permutation_zero:
  assumes "sloth_ok E s"
  shows "sqrt_permutation E s 0 = Ok (prime s)"
proof -
  note p = sloth_okD [OF assms]
  have "nat ((prime s + 1) div 4) \<noteq> 0" using half_of_prime(3) [OF p(3,2)] by auto
  then have "prime s ^ nat ((prime s + 1) div 4) mod prime s = 0" by simp
  then show ?thesis using p(3,9) by (simp add: sqrt_permutation_def p(7) Let_def)
qed

text \<open>What a successful call says about its argument and its result.\<close>

lemma sqrt_permutation_result:
  assumes ok: "sloth_ok E s" and "0 \<le> x" and res: "sqrt_permutation E s x = Ok y"
  shows "x < prime s" and "0 < y" and "y \<le> prime s"
    and "y \<noteq> prime s \<Longrightarrow> inverse_sqrt E s y = x"
proof -
  show x: "x < prime s" using res by (auto simp: sqrt_permutation_def split: if_splits)
  consider "x = 0" | "x \<in> {1..<prime s}" using x \<open>0 \<le> x\<close> by fastforce
  then have "0 < y \<and> y \<le> prime s \<and> (y \<noteq> prime s \<longrightarrow> inverse_sqrt E s y = x)"
  proof cases
    case 1
    then show ?thesis using res sqrt_permutation_zero [OF ok] sloth_okD(3) [OF ok] by simp
  next
    case 2
    then show ?thesis using res sqrt_permutation_correct [OF ok] by fastforce
  qed
  then show "0 < y" "y \<le> prime s" "y \<noteq> prime s \<Longrightarrow> inverse_sqrt E s y = x" by auto
qed


text \<open>
  The square-root permutation is a permutation of \<open>1..<p\<close>, and \<^verbatim>\<open>inverse_sqrt\<close> is its
  inverse there, from both sides.
\<close>

theorem sqrt_permutation_bij:
  assumes "sloth_ok E s"
  shows "bij_betw (inverse_sqrt E s) {1..<prime s} {1..<prime s} \<and>
    (\<forall>x \<in> {1..<prime s}. \<exists>y \<in> {1..<prime s}.
        sqrt_permutation E s x = Ok y \<and> inverse_sqrt E s y = x) \<and>
    (\<forall>y \<in> {1..<prime s}. sqrt_permutation E s (inverse_sqrt E s y) = Ok y)"
proof -
  let ?A = "{1..<prime s}"
  note corr = sqrt_permutation_correct [OF assms]
  have surj: "?A \<subseteq> inverse_sqrt E s ` ?A"
  proof
    fix x assume "x \<in> ?A"
    then show "x \<in> inverse_sqrt E s ` ?A" using corr by (metis image_eqI)
  qed
  then have "card ?A \<le> card (inverse_sqrt E s ` ?A)" by (intro card_mono) auto
  then have inj: "inj_on (inverse_sqrt E s) ?A"
    by (intro eq_card_imp_inj_on) (simp_all only: antisym card_image_le finite_atLeastLessThan_int)
  then have "card (inverse_sqrt E s ` ?A) = card ?A" by (rule card_image)
  then have img: "inverse_sqrt E s ` ?A = ?A"
    using surj by (metis card_subset_eq finite_atLeastLessThan_int finite_imageI)
  have "sqrt_permutation E s (inverse_sqrt E s y) = Ok y" if "y \<in> ?A" for y
  proof -
    have "inverse_sqrt E s y \<in> ?A" using img that by blast
    then obtain y' where "y' \<in> ?A" "sqrt_permutation E s (inverse_sqrt E s y) = Ok y'"
      "inverse_sqrt E s y' = inverse_sqrt E s y" using corr by blast
    then show ?thesis using inj that by (metis inj_onD)
  qed
  then show ?thesis using inj img corr by (simp add: bij_betw_def)
qed

section \<open>Chaining and unchaining\<close>

text \<open>
  The interface between the permutation and the chaining loops: \<open>perm\<close> may reject a block,
  \<open>unperm\<close> undoes it on the outputs that are \<open>good\<close>.
\<close>

locale block_cipher =
  fixes perm :: "int \<Rightarrow> 'e + int" and unperm :: "int \<Rightarrow> int" and good :: "int \<Rightarrow> bool"
  assumes unperm_perm: "0 \<le> x \<Longrightarrow> perm x = Inr y \<Longrightarrow> good y \<Longrightarrow> unperm y = x"
    and perm_nonneg: "good y \<Longrightarrow> 0 \<le> y"
begin

lemma feedback_layer_nth:
  assumes "feedback_layer perm fb bs = Inr (cs, fb')"
  shows "length cs = length bs" and "fb' = last (fb # cs)"
    and "i < length bs \<Longrightarrow> perm (bs ! i XOR (fb # cs) ! i) = Inr (cs ! i)"
proof -
  have "length cs = length bs \<and> fb' = last (fb # cs) \<and>
    (\<forall>i < length bs. perm (bs ! i XOR (fb # cs) ! i) = Inr (cs ! i))"
    using assms
  proof (induction bs arbitrary: fb cs)
    case (Cons b bs)
    then obtain c cs' where c: "perm (b XOR fb) = Inr c"
      and r: "feedback_layer perm c bs = Inr (cs', fb')" and cs: "cs = c # cs'"
      by (auto elim!: bindR_Ok_E)
    show ?case using Cons.IH [OF r] c cs by (auto simp: less_Suc_eq_0_disj)
  qed simp
  then show "length cs = length bs" "fb' = last (fb # cs)"
    "i < length bs \<Longrightarrow> perm (bs ! i XOR (fb # cs) ! i) = Inr (cs ! i)" by auto
qed

lemma unperm_block:
  assumes enc: "feedback_layer perm fb bs = Inr (cs, fb')"
    and "0 \<le> fb" and "\<forall>b \<in> set bs. 0 \<le> b" and good: "\<forall>c \<in> set cs. good c" and i: "i < length bs"
  shows "unperm (cs ! i) = bs ! i XOR (fb # cs) ! i"
proof -
  note len = feedback_layer_nth(1) [OF enc]
  have "0 \<le> (fb # cs) ! i"
    using assms len by (cases i) (auto intro!: perm_nonneg)
  then have "0 \<le> bs ! i XOR (fb # cs) ! i" using assms by simp
  then show ?thesis
    using feedback_layer_nth(3) [OF enc i] good i len by (intro unperm_perm) auto
qed

end

text \<open>The sequential loop leaves each block combined with its still encoded predecessor.\<close>

lemma unchain_steps:
  assumes "k \<le> length xs"
  shows "foldR (unchain_step unperm) xs (rev [1..<k]) =
    Ok (map (\<lambda>i. if 0 < i \<and> i < k then unperm (xs ! i) XOR xs ! (i - 1) else xs ! i) [0..<length xs])"
  using assms
proof (induction k arbitrary: xs)
  case 0
  have "map (\<lambda>i. xs ! i) [0..<length xs] = xs" by (rule map_nth)
  then show ?case by simp
next
  case (Suc k)
  show ?case
  proof (cases "k = 0")
    case True
    have "map (\<lambda>i. if 0 < i \<and> i < Suc 0 then unperm (xs ! i) XOR xs ! (i - 1) else xs ! i)
        [0..<length xs] = map (\<lambda>i. xs ! i) [0..<length xs]" by (rule map_cong) auto
    also have "\<dots> = xs" by (rule map_nth)
    finally show ?thesis using True by simp
  next
    case False
    let ?ys = "xs[k := unperm (xs ! k) XOR xs ! (k - 1)]"
    have "unchain_step unperm xs k = Ok ?ys"
      using False Suc.prems by (simp add: unchain_step_def piece_to_block_and_feedback_def)
    moreover have "foldR (unchain_step unperm) ?ys (rev [1..<k]) =
      Ok (map (\<lambda>i. if 0 < i \<and> i < k then unperm (?ys ! i) XOR ?ys ! (i - 1) else ?ys ! i)
          [0..<length xs])"
      using Suc.IH [of ?ys] Suc.prems by simp
    moreover have "rev [1..<Suc k] = k # rev [1..<k]" using False by simp
    ultimately show ?thesis
      using Suc.prems False
      by (simp del: upt_Suc) (auto simp: nth_list_update less_Suc_eq)
  qed
qed

definition unchained :: "(int \<Rightarrow> int) \<Rightarrow> int list \<Rightarrow> int list" where
  "unchained unperm xs = map (\<lambda>i. if 0 < i then unperm (xs ! i) XOR xs ! (i - 1) else xs ! i) [0..<length xs]"

lemma length_unchained [simp]: "length (unchained unperm xs) = length xs"
  by (simp add: unchained_def)

lemma decode_layer_unchained:
  "decode_layer unperm (length xs) is_last xs = unchain_first unperm is_last (unchained unperm xs)"
proof -
  have "map (\<lambda>i. if 0 < i \<and> i < length xs then unperm (xs ! i) XOR xs ! (i - 1) else xs ! i) [0..<length xs]
    = unchained unperm xs" unfolding unchained_def by (rule map_cong) auto
  then show ?thesis by (simp only: decode_layer_def unchain_steps order_refl bindR_simps)
qed

lemma decode_parallel_layer_unchained:
  "decode_parallel_layer unperm is_last xs = unchain_first unperm is_last (unchained unperm xs)"
proof -
  let ?g = "\<lambda>b f. unperm b XOR f"
  have tl: "rev (map2 ?g (rev (drop 1 xs)) (drop 1 (rev xs))) = map2 ?g (drop 1 xs) (butlast xs)"
  proof -
    have "drop 1 (rev xs) = rev (butlast xs)" by (simp add: butlast_conv_take drop_rev)
    then show ?thesis by (simp add: rev_map zip_rev)
  qed
  have "take 1 xs @ map2 ?g (drop 1 xs) (butlast xs) = unchained unperm xs"
  proof (rule nth_equalityI)
    fix i assume "i < length (take 1 xs @ map2 ?g (drop 1 xs) (butlast xs))"
    then have "i < length xs" by auto
    then show "(take 1 xs @ map2 ?g (drop 1 xs) (butlast xs)) ! i = unchained unperm xs ! i"
      by (cases i) (auto simp: unchained_def nth_append nth_butlast)
  qed auto
  then show ?thesis by (simp only: decode_parallel_layer_def Let_def tl)
qed


text \<open>Every block that any layer outputs satisfies \<open>good\<close>.\<close>

fun layers_good :: "(int \<Rightarrow> 'e + int) \<Rightarrow> (int \<Rightarrow> bool) \<Rightarrow> nat \<Rightarrow> int \<Rightarrow> int list \<Rightarrow> bool" where
  "layers_good perm good 0 fb bs = True"
| "layers_good perm good (Suc n) fb bs =
     (case feedback_layer perm fb bs of
        Inl _ \<Rightarrow> True
      | Inr (cs, fb') \<Rightarrow> (\<forall>c \<in> set cs. good c) \<and> layers_good perm good n fb' cs)"

context block_cipher
begin

lemma unchained_layer:
  assumes enc: "feedback_layer perm fb bs = Inr (cs, fb')" and fb: "0 \<le> fb"
    and bs: "\<forall>b \<in> set bs. 0 \<le> b" and good: "\<forall>c \<in> set cs. good c" and len: "2 \<le> length bs"
  shows "unchain_first unperm True (unchained unperm cs) = Ok (bs[0 := bs ! 0 XOR fb])"
    and "last bs = fb \<Longrightarrow> unchain_first unperm False (unchained unperm cs) = Ok bs"
proof -
  note lcs = feedback_layer_nth(1) [OF enc]
  have u: "unchained unperm cs = cs ! 0 # tl bs"
  proof (rule nth_equalityI)
    show "length (unchained unperm cs) = length (cs ! 0 # tl bs)" using lcs len by simp
    fix i assume "i < length (unchained unperm cs)"
    then have i: "i < length bs" using lcs by simp
    show "unchained unperm cs ! i = (cs ! 0 # tl bs) ! i"
    proof (cases i)
      case 0
      then show ?thesis using i lcs by (simp add: unchained_def)
    next
      case (Suc j)
      have "unperm (cs ! i) XOR cs ! j = bs ! i"
        using unperm_block [OF enc fb bs good i] Suc by (simp add: xor.assoc)
      then show ?thesis using Suc i lcs by (simp add: unchained_def nth_tl)
    qed
  qed
  have ne: "tl bs \<noteq> []" "bs \<noteq> []" using len by (cases bs; auto)+
  have h: "unperm (cs ! 0) = bs ! 0 XOR fb"
    using unperm_block [OF enc fb bs good, of 0] ne by simp
  have l: "last (tl bs) = last bs" using ne by (simp add: last_tl)
  show "unchain_first unperm True (unchained unperm cs) = Ok (bs[0 := bs ! 0 XOR fb])"
    using ne h by (cases bs) (auto simp: u unchain_first_def piece_to_first_block_and_feedback_def Suc_le_eq)
  show "unchain_first unperm False (unchained unperm cs) = Ok bs" if "last bs = fb"
    using ne h l that
    by (cases bs) (auto simp: u unchain_first_def piece_to_first_block_and_feedback_def xor.assoc Suc_le_eq)
qed

lemma layer_nonneg:
  "feedback_layer perm fb bs = Inr (cs, fb') \<Longrightarrow> \<forall>c \<in> set cs. good c \<Longrightarrow> \<forall>c \<in> set cs. 0 \<le> c"
  by (auto intro: perm_nonneg)

lemma undo_mid_layers:
  assumes "feedback_layers perm n fb bs = Inr ds" and "layers_good perm good n fb bs"
    and "last bs = fb" and "\<forall>b \<in> set bs. 0 \<le> b" and "2 \<le> length bs"
  shows "foldR (\<lambda>xs _. decode_layer unperm (length bs) False xs) ds [0..<n] = Ok bs
    \<and> length ds = length bs"
  using assms
proof (induction n arbitrary: fb bs)
  case (Suc n)
  then obtain cs fb' where cs: "feedback_layer perm fb bs = Inr (cs, fb')"
    and ds: "feedback_layers perm n fb' cs = Inr ds" by (auto elim!: bindR_Ok_E)
  with Suc.prems have good: "\<forall>c \<in> set cs. good c" "layers_good perm good n fb' cs" by auto
  note len = feedback_layer_nth(1) [OF cs]
  have "bs \<noteq> []" using Suc.prems(5) by auto
  then have "cs \<noteq> []" using len by auto
  then have "last cs = fb'" using feedback_layer_nth(2) [OF cs] by simp
  then have IH: "foldR (\<lambda>xs _. decode_layer unperm (length cs) False xs) ds [0..<n] = Ok cs
      \<and> length ds = length cs"
    using Suc.IH [OF ds good(2) _ layer_nonneg [OF cs good(1)]] len Suc.prems(5) by simp
  have "0 \<le> fb" using Suc.prems \<open>bs \<noteq> []\<close> by auto
  then have "decode_layer unperm (length bs) False cs = Ok bs"
    using unchained_layer(2) [OF cs _ Suc.prems(4) good(1) Suc.prems(5) Suc.prems(3)]
      decode_layer_unchained [of unperm cs] len by simp
  then show ?case using IH len by (simp add: foldR_append)
qed simp

lemma undo_layers:
  assumes enc: "feedback_layers perm layers fb bs = Inr ds" and good: "layers_good perm good layers fb bs"
    and "0 < layers" and fb: "0 \<le> fb" and bs: "\<forall>b \<in> set bs. 0 \<le> b" and len: "2 \<le> length bs"
  shows "foldR (\<lambda>xs layer. decode_layer unperm (length bs) (layer = layers - 1) xs) ds [0..<layers]
      = Ok (bs[0 := bs ! 0 XOR fb]) \<and> length ds = length bs"
proof -
  obtain n where n: "layers = Suc n" using \<open>0 < layers\<close> by (cases layers) auto
  obtain cs fb' where cs: "feedback_layer perm fb bs = Inr (cs, fb')"
    and ds: "feedback_layers perm n fb' cs = Inr ds"
    using enc n by (auto elim!: bindR_Ok_E)
  have g: "\<forall>c \<in> set cs. good c" "layers_good perm good n fb' cs" using good n cs by auto
  note lcs = feedback_layer_nth(1) [OF cs]
  have "cs \<noteq> []" using lcs len by auto
  then have "last cs = fb'" using feedback_layer_nth(2) [OF cs] by simp
  then have mid: "foldR (\<lambda>xs _. decode_layer unperm (length cs) False xs) ds [0..<n] = Ok cs"
    "length ds = length cs"
    using undo_mid_layers [OF ds g(2) _ layer_nonneg [OF cs g(1)]] lcs len by auto
  have "foldR (\<lambda>xs layer. decode_layer unperm (length bs) (layer = layers - 1) xs) ds [0..<n]
      = foldR (\<lambda>xs _. decode_layer unperm (length cs) False xs) ds [0..<n]"
    using lcs n by (intro foldR_cong) auto
  then show ?thesis
    using mid unchained_layer(1) [OF cs fb bs g(1) len] decode_layer_unchained [of unperm cs] lcs n
    by (simp add: foldR_append)
qed

end

interpretation sloth_cipher: block_cipher "sqrt_permutation E s" "inverse_sqrt E s"
  "\<lambda>y. sloth_ok E s \<and> 0 < y \<and> y \<noteq> prime s" for E :: "'z gmp_scheme" and s
  by unfold_locales (auto dest: sqrt_permutation_result)

section \<open>Bytes\<close>

lemma nat_digits_pad:
  "x < 256 ^ n \<Longrightarrow> nat_digits x @ replicate (pad_len n (length (nat_digits x))) 0 = nat_to_le_bytes n x
     \<and> length (nat_digits x) \<le> n"
proof (induction n arbitrary: x)
  case 0
  then show ?case by (simp add: nat_digits.simps pad_len_def)
next
  case (Suc n)
  show ?case
  proof (cases "x = 0")
    case True
    have "nat_to_le_bytes m 0 = replicate m 0" for m by (induction m) auto
    then show ?thesis using True by (simp add: nat_digits.simps pad_len_def)
  next
    case False
    have "x div 256 < 256 ^ n" using Suc.prems by (simp add: less_mult_imp_div_less mult.commute)
    from Suc.IH [OF this] show ?thesis
      using False by (auto simp add: nat_digits.simps [of x] pad_len_def)
  qed
qed

lemma write_integers_full:
  assumes "\<forall>x \<in> set xs. 0 \<le> x \<and> x < 256 ^ bs" and "bs * length xs = length piece"
  shows "write_integers_to_array xs piece bs = concat (map (\<lambda>x. nat_to_le_bytes bs (nat x)) xs)"
proof -
  have "to_digits x @ replicate (pad_len bs (length (to_digits x))) 0 = nat_to_le_bytes bs (nat x)"
    if "x \<in> set xs" for x
  proof -
    have "nat x < 256 ^ bs" using assms(1) that
      by (metis nat_less_iff of_nat_numeral of_nat_power)
    then show ?thesis using nat_digits_pad assms(1) that by (simp add: to_digits_def)
  qed
  then have flat: "concat (map (\<lambda>x. to_digits x @ replicate (pad_len bs (length (to_digits x))) 0) xs)
      = concat (map (\<lambda>x. nat_to_le_bytes bs (nat x)) xs)"
    by (metis (no_types, lifting) map_eq_conv)
  have "length (concat (map (\<lambda>x. nat_to_le_bytes bs (nat x)) xs)) = length piece"
    using assms(2) by (simp add: length_concat comp_def sum_list_triv mult.commute)
  then show ?thesis by (simp add: write_integers_to_array_def flat)
qed

lemma integers_roundtrip:
  assumes "\<forall>x \<in> set xs. 0 \<le> x \<and> x < 256 ^ bs" and "0 < bs"
  shows "map from_digits (chunks_exact bs (concat (map (\<lambda>x. nat_to_le_bytes bs (nat x)) xs))) = xs"
proof -
  have "from_digits (nat_to_le_bytes bs (nat x)) = x" if "x \<in> set xs" for x
  proof -
    have "nat x < 256 ^ bs" using assms(1) that
      by (metis nat_less_iff of_nat_numeral of_nat_power)
    then show ?thesis using assms(1) that by (simp add: from_digits_def le_bytes_roundtrip)
  qed
  then show ?thesis using assms(2) by (simp add: chunks_exact_concat map_idI)
qed

lemma bytes_roundtrip:
  assumes "0 < bs" and "bs dvd length piece"
  shows "concat (map (\<lambda>x. nat_to_le_bytes bs (nat x)) (map from_digits (chunks_exact bs piece))) = piece"
proof -
  have "map (\<lambda>c. nat_to_le_bytes bs (nat (from_digits c))) (chunks_exact bs piece)
      = chunks_exact bs piece"
    by (rule map_idI) (metis chunks_exact_lengths from_digits_def nat_int nat_to_le_bytes_inverse)
  then show ?thesis using concat_chunks_exact [OF assms] by (simp add: comp_def)
qed

lemma from_digits_bounds: "0 \<le> from_digits bs" "from_digits bs < 256 ^ length bs"
  using le_bytes_to_nat_bound [of bs] by (simp_all add: from_digits_def)


lemma blocks_range: "\<forall>b \<in> set (map from_digits (chunks_exact bs piece)). 0 \<le> b \<and> b < 256 ^ bs"
proof
  fix b assume "b \<in> set (map from_digits (chunks_exact bs piece))"
  then obtain c where "b = from_digits c" "length c = bs" by (auto dest: chunks_exact_lengths)
  then show "0 \<le> b \<and> b < 256 ^ bs" using from_digits_bounds [of c] by simp
qed

lemma remove_iv_undo: "xs \<noteq> [] \<Longrightarrow> remove_iv iv (xs[0 := xs ! 0 XOR from_digits iv]) = Ok xs"
  by (cases xs) (auto simp: remove_iv_def xor.assoc)

section \<open>Decoding undoes encoding\<close>

lemma sqrt_layer_range:
  assumes ok: "sloth_ok E s" and "0 \<le> fb" and "\<forall>b \<in> set bs. 0 \<le> b"
    and "feedback_layer (sqrt_permutation E s) fb bs = Inr (cs, fb')"
  shows "(\<forall>c \<in> set cs. 0 < c \<and> c \<le> prime s) \<and> 0 \<le> fb' \<and> length cs = length bs"
  using assms(2-)
proof (induction bs arbitrary: fb cs)
  case (Cons b bs)
  then obtain c cs' where c: "sqrt_permutation E s (b XOR fb) = Inr c"
    and r: "feedback_layer (sqrt_permutation E s) c bs = Inr (cs', fb')" and cs: "cs = c # cs'"
    by (auto elim!: bindR_Ok_E)
  have "0 < c \<and> c \<le> prime s" using sqrt_permutation_result(2,3) [OF ok _ c] Cons.prems by simp
  then show ?case using Cons.IH [of c cs'] Cons.prems r cs by simp
qed simp

lemma sqrt_layers_range:
  assumes ok: "sloth_ok E s" and "0 \<le> fb" and "\<forall>b \<in> set bs. 0 \<le> b \<and> b < M" and "prime s < M"
    and "feedback_layers (sqrt_permutation E s) n fb bs = Inr ds"
  shows "(\<forall>d \<in> set ds. 0 \<le> d \<and> d < M) \<and> length ds = length bs"
  using assms(2-)
proof (induction n arbitrary: fb bs)
  case (Suc n)
  from Suc.prems(4) obtain cs fb' where
    cs: "feedback_layer (sqrt_permutation E s) fb bs = Inr (cs, fb')"
    and ds: "feedback_layers (sqrt_permutation E s) n fb' cs = Inr ds" by (auto elim!: bindR_Ok_E)
  have "\<forall>b \<in> set bs. 0 \<le> b" using Suc.prems(2) by blast
  then have *: "\<forall>c \<in> set cs. 0 < c \<and> c \<le> prime s" and fb': "0 \<le> fb'"
    and len: "length cs = length bs"
    using sqrt_layer_range [OF ok Suc.prems(1) _ cs] by blast+
  have "\<forall>c \<in> set cs. 0 \<le> c \<and> c < M" using * Suc.prems(3) by (meson le_less_trans less_imp_le)
  from Suc.IH [OF fb' this Suc.prems(3) ds] show ?case unfolding len .
qed simp

lemma layers_good_sloth:
  assumes ok: "sloth_ok E s" and "0 \<le> fb" and "\<forall>b \<in> set bs. 0 \<le> b"
    and "layers_good (sqrt_permutation E s) (\<lambda>c. c \<noteq> prime s) n fb bs"
  shows "layers_good (sqrt_permutation E s) (\<lambda>y. sloth_ok E s \<and> 0 < y \<and> y \<noteq> prime s) n fb bs"
  using assms(2-)
proof (induction n arbitrary: fb bs)
  case (Suc n)
  show ?case
  proof (cases "feedback_layer (sqrt_permutation E s) fb bs")
    case (Inr r)
    obtain cs fb' where r: "r = (cs, fb')" by (cases r)
    have pos: "\<forall>c \<in> set cs. 0 < c" and fb': "0 \<le> fb'"
      using sqrt_layer_range [OF ok Suc.prems(1,2)] Inr r by blast+
    have ne: "\<forall>c \<in> set cs. c \<noteq> prime s"
      and g: "layers_good (sqrt_permutation E s) (\<lambda>c. c \<noteq> prime s) n fb' cs"
      using Suc.prems(3) Inr r by simp_all
    have "\<forall>c \<in> set cs. 0 \<le> c" using pos by fastforce
    with fb' have "layers_good (sqrt_permutation E s) (\<lambda>y. sloth_ok E s \<and> 0 < y \<and> y \<noteq> prime s) n fb' cs"
      using g by (rule Suc.IH)
    then show ?thesis using Inr r ok pos ne by simp
  qed simp
qed simp

lemma encode_decode:
  assumes ok: "sloth_ok E s" and dvd: "block_size_bytes s dvd PIECE_SIZE"
    and two: "2 * block_size_bytes s \<le> PIECE_SIZE" and piece: "length piece = PIECE_SIZE"
    and layers: "0 < layers" and enc: "encode E s piece (from_digits iv) layers = Ok encoding"
    and nz: "layers_good (sqrt_permutation E s) (\<lambda>c. c \<noteq> prime s) layers (from_digits iv)
               (map from_digits (chunks_exact (block_size_bytes s) piece))"
  shows "decode E s encoding iv layers = Ok piece \<and> length encoding = PIECE_SIZE"
proof -
  let ?bs = "block_size_bytes s" and ?iv = "from_digits iv"
  let ?xs = "map from_digits (chunks_exact (block_size_bytes s) piece)"
  have bs: "0 < ?bs" and pM: "prime s < 256 ^ ?bs" using ok by (auto simp: sloth_ok_def)
  have len: "length ?xs = PIECE_SIZE div ?bs" using bs piece by (simp add: length_chunks_exact)
  have n2: "2 \<le> length ?xs" using two bs unfolding len by (simp only: less_eq_div_iff_mult_less_eq)
  have xs: "\<forall>b \<in> set ?xs. 0 \<le> b \<and> b < 256 ^ ?bs" by (rule blocks_range)
  then have xs0: "\<forall>b \<in> set ?xs. 0 \<le> b" by blast
  obtain ds where ds: "feedback_layers (sqrt_permutation E s) layers ?iv ?xs = Inr ds"
    and e: "encoding = write_integers_to_array ds piece ?bs"
    using enc bs by (auto simp: encode_def elim!: bindR_Ok_E)
  have dsM: "\<forall>d \<in> set ds. 0 \<le> d \<and> d < 256 ^ ?bs" and lds: "length ds = length ?xs"
    using sqrt_layers_range [OF ok from_digits_bounds(1) xs pM ds] by auto
  have full: "?bs * length ds = length piece" using lds len dvd piece by simp
  have e': "encoding = concat (map (\<lambda>x. nat_to_le_bytes ?bs (nat x)) ds)"
    using write_integers_full [OF dsM full] e by simp
  have le: "length encoding = length piece"
    using full by (simp add: e' length_concat comp_def sum_list_triv mult.commute)
  have "foldR (\<lambda>xs layer. decode_layer (inverse_sqrt E s) (length ?xs) (layer = layers - 1) xs)
          ds [0..<layers] = Ok (?xs[0 := ?xs ! 0 XOR ?iv])"
    using sloth_cipher.undo_layers [OF ds layers_good_sloth [OF ok from_digits_bounds(1) xs0 nz]
        layers from_digits_bounds(1) xs0 n2] by blast
  moreover have "map from_digits (chunks_exact ?bs encoding) = ds"
    unfolding e' by (rule integers_roundtrip [OF dsM bs])
  moreover have "?xs \<noteq> []" using n2 by (metis list.size(3) not_numeral_le_zero)
  then have "remove_iv iv (?xs[0 := ?xs ! 0 XOR ?iv]) = Ok ?xs" by (rule remove_iv_undo)
  moreover have "write_integers_to_array ?xs encoding ?bs = piece"
  proof -
    have "?bs * length ?xs = length encoding" using full lds le by simp
    then have "write_integers_to_array ?xs encoding ?bs = concat (map (\<lambda>x. nat_to_le_bytes ?bs (nat x)) ?xs)"
      by (rule write_integers_full [OF xs])
    also have "\<dots> = piece" by (rule bytes_roundtrip [OF bs]) (use dvd piece in simp)
    finally show ?thesis .
  qed
  ultimately have "decode E s encoding iv layers = Ok piece"
    using less_not_refl2 [OF bs] by (simp only: decode_def len bindR_simps if_False)
  then show ?thesis using le piece by simp
qed

text \<open>
  \<^bold>\<open>C1\<close>.  Decoding an encoded piece gives the piece back, for any number of layers, provided no
  block of any layer came out as the prime itself (the image of zero, the one input on which the
  permutation is not inverted; see the next section).
\<close>

theorem sloth_roundtrip:
  assumes ok: "sloth_ok E s" and dvd: "block_size_bytes s dvd PIECE_SIZE"
    and two: "2 * block_size_bytes s \<le> PIECE_SIZE" and piece: "length piece = PIECE_SIZE"
    and layers: "0 < layers" and enc: "encode E s piece (from_digits iv) layers = Ok encoding"
    and nz: "layers_good (sqrt_permutation E s) (\<lambda>c. c \<noteq> prime s) layers (from_digits iv)
               (map from_digits (chunks_exact (block_size_bytes s) piece))"
  shows "decode E s encoding iv layers = Ok piece \<and> length encoding = PIECE_SIZE"
  by (rule encode_decode [OF assms])

section \<open>Totality, equivalence of the parallel decoder, and the block that is not inverted\<close>

lemma decode_layer_length:
  assumes "n \<le> length xs" and "2 \<le> length xs"
  shows "\<exists>ys. decode_layer unperm n is_last xs = Ok ys \<and> length ys = length xs"
  using assms
  by (simp add: decode_layer_def unchain_steps unchain_first_def piece_to_first_block_and_feedback_def
      del: One_nat_def)

lemma decode_layers_length:
  assumes "n \<le> length xs" and "2 \<le> length xs"
  shows "\<exists>ys. foldR (\<lambda>xs layer. decode_layer unperm n (P layer) xs) xs ls = Ok ys \<and> length ys = length xs"
  using assms
proof (induction ls arbitrary: xs)
  case (Cons l ls)
  then obtain ys where "decode_layer unperm n (P l) xs = Ok ys" "length ys = length xs"
    using decode_layer_length by blast
  then show ?case using Cons.IH [of ys] Cons.prems by simp
qed simp

lemma decode_layer_short:
  assumes "length xs < n" and "2 \<le> n"
  shows "decode_layer unperm n is_last xs = Panic OutOfBounds"
proof -
  obtain m where m: "n = Suc m" "1 \<le> m" using assms(2) by (cases n) auto
  then have "rev [1..<n] = m # rev [1..<m]" by simp
  moreover have "unchain_step unperm xs m = Panic OutOfBounds"
    using assms(1) m by (simp add: unchain_step_def piece_to_block_and_feedback_def)
  ultimately show ?thesis by (simp add: decode_layer_def)
qed

lemma decode_long:
  assumes "0 < block_size_bytes s" and "2 * block_size_bytes s \<le> PIECE_SIZE"
    and "PIECE_SIZE div block_size_bytes s \<le> length piece div block_size_bytes s"
  shows "\<exists>y. decode E s piece iv layers = Ok y"
proof -
  let ?bs = "block_size_bytes s" and ?n = "PIECE_SIZE div block_size_bytes s"
  let ?xs = "map from_digits (chunks_exact ?bs piece)"
  have "2 \<le> ?n" using assms(1,2) by (simp only: less_eq_div_iff_mult_less_eq)
  moreover have "length ?xs = length piece div ?bs" using assms(1) by (simp add: length_chunks_exact)
  ultimately have l: "?n \<le> length ?xs" "2 \<le> length ?xs" using assms(3) by auto
  then obtain ys where
    "foldR (\<lambda>xs layer. decode_layer (inverse_sqrt E s) ?n (layer = layers - 1) xs) ?xs [0..<layers] = Ok ys"
    "length ys = length ?xs"
    using decode_layers_length [where P = "\<lambda>layer. layer = layers - 1"] by blast
  moreover from this have "\<exists>zs. remove_iv iv ys = Ok zs"
    using l(2) by (cases ys) (auto simp: remove_iv_def index_def)
  ultimately show ?thesis using assms(1) by (auto simp: decode_def)
qed

lemma decode_total:
  assumes "PIECE_SIZE \<le> length piece" and "0 < block_size_bytes s" and "2 * block_size_bytes s \<le> PIECE_SIZE"
  shows "\<exists>y. decode E s piece iv layers = Ok y"
  using decode_long [OF assms(2,3)] div_le_mono [OF assms(1)] by blast

text \<open>
  \<^verbatim>\<open>decode\<close> takes a slice of any length.  It panics exactly when the slice holds fewer
  blocks than a piece does, so a shorter encoding received from a peer stops the decoder.
\<close>

theorem decode_panics_iff_short:
  assumes "0 < block_size_bytes s" and "2 * block_size_bytes s \<le> PIECE_SIZE" and "0 < layers"
  shows "decode E s piece iv layers = Panic OutOfBounds \<longleftrightarrow>
           length piece div block_size_bytes s < PIECE_SIZE div block_size_bytes s"
    (is "?panics \<longleftrightarrow> ?short")
proof -
  let ?bs = "block_size_bytes s" and ?n = "PIECE_SIZE div block_size_bytes s"
  let ?xs = "map from_digits (chunks_exact ?bs piece)"
  have n2: "2 \<le> ?n" using assms(1,2) by (simp only: less_eq_div_iff_mult_less_eq)
  have len: "length ?xs = length piece div ?bs" using assms(1) by (simp add: length_chunks_exact)
  show ?thesis
  proof
    assume short: ?short
    have "[0..<layers] = 0 # [1..<layers]" using assms(3) by (simp add: upt_conv_Cons)
    then show ?panics
      using short n2 len assms(1) decode_layer_short [of ?xs ?n] by (simp add: decode_def)
  next
    assume ?panics
    then show ?short using decode_long [OF assms(1,2), of piece E iv layers] by (cases ?short) (auto simp: not_less)
  qed
qed

text \<open>
  \<^bold>\<open>C17\<close>.  On a piece of the fixed size, the parallel decoder computes what the sequential one does.
\<close>

theorem decode_parallel_eq_decode:
  assumes "length piece = PIECE_SIZE" and "2 * block_size_bytes s \<le> PIECE_SIZE"
  shows "decode_parallel E s piece iv layers = decode E s piece iv layers"
proof (cases "block_size_bytes s = 0")
  case False
  let ?n = "PIECE_SIZE div block_size_bytes s" and ?u = "inverse_sqrt E s"
  have n2: "2 \<le> ?n" using assms(2) False by (simp add: less_eq_div_iff_mult_less_eq)
  have "foldR (\<lambda>xs layer. decode_parallel_layer ?u (layer = layers - 1) xs) xs ls =
      foldR (\<lambda>xs layer. decode_layer ?u ?n (layer = layers - 1) xs) xs ls"
    if "length xs = ?n" for xs ls
    using that
  proof (induction ls arbitrary: xs)
    case (Cons l ls)
    have eq: "decode_parallel_layer ?u b xs = decode_layer ?u ?n b xs" for b
      using decode_parallel_layer_unchained decode_layer_unchained Cons.prems by metis
    obtain ys where "decode_layer ?u ?n (l = layers - 1) xs = Ok ys" "length ys = length xs"
      using decode_layer_length [of ?n xs] n2 Cons.prems by auto
    then show ?case using Cons eq by simp
  qed simp
  then show ?thesis using assms(1) False
    by (simp add: decode_parallel_def decode_def length_chunks_exact)
qed (simp add: decode_parallel_def decode_def)

text \<open>
  Zero is mapped to the prime, and the prime is mapped back to itself: the permutation and
  its inverse disagree on a block that equals its feedback.
\<close>

theorem sqrt_zero_not_inverted:
  assumes "sloth_ok E s"
  shows "sqrt_permutation E s 0 = Ok (prime s) \<and> inverse_sqrt E s (prime s) = prime s \<and> prime s \<noteq> 0"
  using sqrt_permutation_zero [OF assms] inverse_sqrt_simp [OF assms] sloth_okD(3,4) [OF assms] by simp

section \<open>A concrete instance\<close>

text \<open>
  Trial division, Euler's criterion and plain exponentiation satisfy the laws of the GMP
  functions; a cipher with two blocks of half a piece and the prime 7 evaluates by hand.
\<close>

definition small_gmp :: gmp where
  "small_gmp =
     \<lparr>is_probably_prime = (\<lambda>n _. if 1 < n \<and> (\<forall>d \<in> set [2..n - 1]. \<not> d dvd n) then Yes else No),
      jacobi = (\<lambda>a p. if a mod p = 0 then 0
                      else if a ^ nat ((p - 1) div 2) mod p = 1 then 1 else - 1),
      pow_mod = (\<lambda>b e m. b ^ nat e mod m)\<rparr>"

definition small_sloth :: Sloth where
  "small_sloth = \<lparr>block_size_bits = 16384, block_size_bytes = 2048, prime = 7, exponent = 2\<rparr>"

definition small_piece :: Piece where
  "small_piece = (3 # replicate 2047 0) @ (1 # replicate 2047 0)"

lemma small_prime_test: "prime_test_exact small_gmp"
proof -
  have "(\<forall>d \<in> {2..n - 1}. \<not> d dvd n) \<longleftrightarrow> (\<forall>d. 0 < d \<longrightarrow> d dvd n \<longrightarrow> d = 1 \<or> d = n)" if "1 < n" for n :: int
  proof
    assume l: "\<forall>d \<in> {2..n - 1}. \<not> d dvd n"
    show "\<forall>d. 0 < d \<longrightarrow> d dvd n \<longrightarrow> d = 1 \<or> d = n"
    proof (intro allI impI)
      fix d :: int assume d: "0 < d" "d dvd n"
      then have "d \<le> n" using that by (intro zdvd_imp_le) auto
      moreover have "d \<notin> {2..n - 1}" using l d(2) by blast
      ultimately show "d = 1 \<or> d = n" using d(1) by auto
    qed
  next
    assume r: "\<forall>d. 0 < d \<longrightarrow> d dvd n \<longrightarrow> d = 1 \<or> d = n"
    show "\<forall>d \<in> {2..n - 1}. \<not> d dvd n"
    proof
      fix d assume "d \<in> {2..n - 1}"
      then show "\<not> d dvd n" using r [rule_format, of d] by auto
    qed
  qed
  then show ?thesis by (simp add: prime_test_exact_def is_prime_def small_gmp_def)
qed

lemma residue_7: "0 \<le> b \<Longrightarrow> b < 7 \<Longrightarrow> b = 0 \<or> b = 1 \<or> b = 2 \<or> b = 3 \<or> b = 4 \<or> b = 5 \<or> b = (6::int)"
  by linarith

lemma squares_7: "b * b mod 7 \<in> {0, 1, 2, 4 :: int}"
proof -
  have "b * b mod 7 = (b mod 7) * (b mod 7) mod 7" by (simp add: mod_mult_eq)
  then show ?thesis using residue_7 [of "b mod 7"] by auto
qed

lemma square_mod_7: "0 \<le> a \<Longrightarrow> a < 7 \<Longrightarrow> is_square_mod 7 a \<longleftrightarrow> a \<in> {0, 1, 2, 4}"
proof
  assume "0 \<le> a" "a < 7" "is_square_mod 7 a"
  then show "a \<in> {0, 1, 2, 4}" using squares_7 by (metis is_square_mod_def mod_pos_pos_trivial)
next
  assume "a \<in> {0, 1, 2, 4}"
  moreover have "(0::int) * 0 mod 7 = 0 mod 7" "(1::int) * 1 mod 7 = 1 mod 7"
    "(3::int) * 3 mod 7 = 2 mod 7" "(2::int) * 2 mod 7 = 4 mod 7" by simp_all
  ultimately show "is_square_mod 7 a" unfolding is_square_mod_def by blast
qed

lemma small_sloth_ok: "sloth_ok small_gmp small_sloth"
proof -
  have "jacobi_ok small_gmp 7"
    unfolding jacobi_ok_def
  proof (intro allI impI)
    fix a :: int assume a: "0 \<le> a" "a < 7"
    show "jacobi small_gmp a 7 = (if a = 0 then 0 else if is_square_mod 7 a then 1 else - 1)"
      using residue_7 [OF a] unfolding square_mod_7 [OF a]
      by (elim disjE) (simp_all add: small_gmp_def numeral_eq_Suc)
  qed
  moreover have "is_prime 7"
  proof -
    have "\<forall>d \<in> set [2..6::int]. \<not> d dvd 7" by code_simp
    then have "is_probably_prime small_gmp 7 25 \<noteq> No" by (simp add: small_gmp_def del: set_upto)
    then show ?thesis using small_prime_test by (simp add: prime_test_exact_def)
  qed
  moreover have "7 < (256::int) ^ block_size_bytes small_sloth"
  proof (rule less_le_trans)
    show "(256::int) ^ 1 \<le> 256 ^ block_size_bytes small_sloth"
      by (rule power_increasing) (simp_all add: small_sloth_def)
  qed simp
  moreover have "pow_mod_ok small_gmp" by (simp add: pow_mod_ok_def small_gmp_def)
  moreover have "prime small_sloth = 7" "exponent small_sloth = 2" "0 < block_size_bytes small_sloth"
    by (simp_all add: small_sloth_def)
  ultimately show ?thesis unfolding sloth_ok_def by simp
qed

lemma small_blocks:
  "map from_digits (chunks_exact (block_size_bytes small_sloth) small_piece) = [3, 1]"
proof -
  have "chunks_exact 2048 (concat [3 # replicate 2047 0, 1 # replicate 2047 (0::byte)]) =
      [3 # replicate 2047 0, 1 # replicate 2047 0]"
    by (rule chunks_exact_concat) simp_all
  then show ?thesis by (simp add: small_piece_def small_sloth_def from_digits_def)
qed

lemma small_encode_layer:
  "feedback_layer (sqrt_permutation small_gmp small_sloth) 0 [3, 1] = Ok ([5, 2], 2)"
  by (simp add: sqrt_permutation_def small_gmp_def small_sloth_def Let_def)

lemma small_length: "length small_piece = PIECE_SIZE"
  by (simp add: small_piece_def PIECE_SIZE_def)

lemma small_encode:
  "encode small_gmp small_sloth small_piece (from_digits (replicate 32 0)) 1 =
     Ok (write_integers_to_array [5, 2] small_piece 2048)"
  using small_blocks small_encode_layer
  by (simp add: encode_def from_digits_def) (simp add: small_sloth_def)

lemma small_layers_good:
  "layers_good (sqrt_permutation small_gmp small_sloth) (\<lambda>c. c \<noteq> prime small_sloth) 1
     (from_digits (replicate 32 0))
     (map from_digits (chunks_exact (block_size_bytes small_sloth) small_piece))"
  using small_encode_layer unfolding small_blocks by (simp add: from_digits_def small_sloth_def)


theorem sqrt_permutation_bij_witness:
  "sloth_ok small_gmp small_sloth \<and> bij_betw (inverse_sqrt small_gmp small_sloth) {1..<7} {1..<7}"
  using sqrt_permutation_bij [OF small_sloth_ok] small_sloth_ok by (simp add: small_sloth_def)

theorem sloth_roundtrip_witness:
  "\<exists>encoding. encode small_gmp small_sloth small_piece (from_digits (replicate 32 0)) 1 = Ok encoding \<and>
     decode small_gmp small_sloth encoding (replicate 32 0) 1 = Ok small_piece"
  using sloth_roundtrip [OF small_sloth_ok _ _ small_length _ small_encode small_layers_good] small_encode
  by (simp add: small_sloth_def PIECE_SIZE_def)

theorem decode_panics_iff_short_witness:
  "decode small_gmp small_sloth [] (replicate 32 0) 1 = Panic OutOfBounds"
  using decode_panics_iff_short [of small_sloth 1 small_gmp "[]" "replicate 32 0"]
  by (simp add: small_sloth_def PIECE_SIZE_def)

theorem decode_parallel_eq_decode_witness:
  "decode_parallel small_gmp small_sloth small_piece (replicate 32 0) 1 =
     decode small_gmp small_sloth small_piece (replicate 32 0) 1"
  using decode_parallel_eq_decode [OF small_length, of small_sloth small_gmp "replicate 32 0" 1]
  by (simp add: small_sloth_def PIECE_SIZE_def)

theorem sqrt_zero_not_inverted_witness:
  "sqrt_permutation small_gmp small_sloth 0 = Ok 7 \<and> inverse_sqrt small_gmp small_sloth 7 = 7"
  using sqrt_zero_not_inverted [OF small_sloth_ok] by (simp add: small_sloth_def)

end
