(* ===== verification/Crypto.thy ===== *)
theory Crypto
  imports Sloth
begin

text \<open>
  \<^verbatim>\<open>src/crypto.rs\<close>.  The hash functions, the Merkle trees and the signatures come from other
  packages (\<^verbatim>\<open>ring\<close>, \<^verbatim>\<open>merkle_tree_binary\<close>, \<^verbatim>\<open>ed25519_dalek\<close>); they are fields of the
  parameter record \<open>crypto\<close>, with their documented behaviour in \<open>sha256_ok\<close>, \<open>merkle_ok\<close>
  and \<open>ed25519_ok\<close>.
\<close>

section \<open>Parameters: hashes, Merkle trees, signatures\<close>

record Keypair =
  public :: bytes
  secret :: bytes

record crypto = gmp +
  sha256 :: "bytes \<Rightarrow> bytes"
  hmac_sha256 :: "bytes \<Rightarrow> bytes \<Rightarrow> bytes"
  tree_root :: "(bytes \<Rightarrow> bytes) \<Rightarrow> bytes list \<Rightarrow> bytes"
  tree_get_proof :: "(bytes \<Rightarrow> bytes) \<Rightarrow> bytes list \<Rightarrow> bytes \<Rightarrow> bytes option"
  tree_check_proof :: "(bytes \<Rightarrow> bytes) \<Rightarrow> bytes \<Rightarrow> bytes \<Rightarrow> bytes \<Rightarrow> bool"
  public_key_ok :: "bytes \<Rightarrow> bool"
  signature_ok :: "bytes \<Rightarrow> bool"
  verify_strict :: "bytes \<Rightarrow> bytes \<Rightarrow> bytes \<Rightarrow> bool"
  sign :: "Keypair \<Rightarrow> bytes \<Rightarrow> bytes"

definition sha256_ok :: "'z crypto_scheme \<Rightarrow> bool" where
  "sha256_ok E \<longleftrightarrow> (\<forall>d. length (sha256 E d) = 32)"

text \<open>
  A tree over a non-empty list of items has a root as long as a digest, gives a proof for each of
  its items, and a proof it gives checks against its root.
\<close>

definition merkle_ok :: "'z crypto_scheme \<Rightarrow> bool" where
  "merkle_ok E \<longleftrightarrow>
     (\<forall>h ids. ids \<noteq> [] \<longrightarrow> (\<forall>d. length (h d) = 32) \<longrightarrow> (\<forall>id \<in> set ids. length id = 32) \<longrightarrow>
        length (tree_root E h ids) = 32 \<and>
        (\<forall>id \<in> set ids. tree_get_proof E h ids id \<noteq> None) \<and>
        (\<forall>id p. tree_get_proof E h ids id = Some p \<longrightarrow> tree_check_proof E h (tree_root E h ids) p id))"

text \<open>A key pair's public key and signatures are well formed, and its signatures verify.\<close>

definition ed25519_ok :: "'z crypto_scheme \<Rightarrow> Keypair \<Rightarrow> bool" where
  "ed25519_ok E keys \<longleftrightarrow> length (public keys) = 32 \<and> public_key_ok E (public keys) \<and>
     (\<forall>m. signature_ok E (sign E keys m) \<and> verify_strict E (public keys) m (sign E keys m))"

section \<open>Definitions\<close>

text \<open>The first 32 bytes of the digest are copied; a SHA-256 digest has no others.\<close>

definition digest_sha_256 :: "'z crypto_scheme \<Rightarrow> bytes \<Rightarrow> bytes" where
  "digest_sha_256 E data = take 32 (sha256 E data)"

definition digest_sha_256_simple :: "'z crypto_scheme \<Rightarrow> bytes \<Rightarrow> bytes" where
  "digest_sha_256_simple E data = sha256 E data"

text \<open>\<^verbatim>\<open>array[o..o + len].clone_from_slice(xs)\<close>.\<close>

definition write_at :: "nat \<Rightarrow> 'a list \<Rightarrow> 'a list \<Rightarrow> 'a list" where
  "write_at off xs array = take off array @ xs @ drop (off + length xs) array"

text \<open>
  The loop that three functions share: the input is hashed again and again, and each digest is
  written at the next offset.
\<close>

primrec hash_chain :: "'z crypto_scheme \<Rightarrow> nat \<Rightarrow> bytes \<Rightarrow> nat \<Rightarrow> bytes \<Rightarrow> bytes" where
  "hash_chain E 0 input block_offset array = array"
| "hash_chain E (Suc n) input block_offset array =
     (let input' = digest_sha_256 E input
      in hash_chain E n input' (block_offset + 32) (write_at block_offset input' array))"

definition genesis_piece_from_seed :: "'z crypto_scheme \<Rightarrow> bytes \<Rightarrow> Piece" where
  "genesis_piece_from_seed E seed = hash_chain E 128 seed 0 (replicate PIECE_SIZE 0)"

definition expand_iv :: "'z crypto_scheme \<Rightarrow> bytes \<Rightarrow> ExpandedIV" where
  "expand_iv E iv =
     hash_chain E (PRIME_SIZE_BYTES div IV_SIZE) iv 0 (replicate PRIME_SIZE_BYTES 0)"

definition genesis_data_from_seed :: "'z crypto_scheme \<Rightarrow> bytes \<Rightarrow> bytes" where
  "genesis_data_from_seed E seed = take 4094 (hash_chain E 128 seed 0 (replicate PIECE_SIZE 0))"

definition create_hmac :: "'z crypto_scheme \<Rightarrow> bytes \<Rightarrow> bytes \<Rightarrow> bytes" where
  "create_hmac E message challenge = take 32 (hmac_sha256 E challenge message)"

definition create_merkle_tree :: "'z crypto_scheme \<Rightarrow> bytes list \<Rightarrow> (bytes \<times> bytes list) res" where
  "create_merkle_tree E ids =
     (let h = digest_sha_256_simple E; root = tree_root E h ids
      in bindR (foldR (\<lambda>proofs id. bindR (unwrap (tree_get_proof E h ids id)) (\<lambda>p. Ok (proofs @ [p])))
                  [] ids) (\<lambda>merkle_proofs.
         if length root = 32 then Ok (root, merkle_proofs)
         else Panic (Expect ''Hash is always 32 bytes'')))"

definition validate_merkle_proof :: "'z crypto_scheme \<Rightarrow> bytes \<Rightarrow> bytes \<Rightarrow> bytes \<Rightarrow> bool" where
  "validate_merkle_proof E piece_hash piece_proof piece_merkle_root =
     tree_check_proof E (digest_sha_256_simple E) piece_merkle_root piece_proof piece_hash"

section \<open>Properties\<close>

lemma length_digest [simp]: "sha256_ok E \<Longrightarrow> length (digest_sha_256 E d) = 32"
  by (simp add: sha256_ok_def digest_sha_256_def)

lemma digest_simple_eq: "sha256_ok E \<Longrightarrow> digest_sha_256_simple E = digest_sha_256 E"
  by (auto simp: sha256_ok_def digest_sha_256_def digest_sha_256_simple_def)

lemma write_at_length [simp]: "off + length xs \<le> length a \<Longrightarrow> length (write_at off xs a) = length a"
  by (simp add: write_at_def)

text \<open>The digests of the chain, in order.\<close>

primrec hash_iterates :: "'z crypto_scheme \<Rightarrow> nat \<Rightarrow> bytes \<Rightarrow> bytes list" where
  "hash_iterates E 0 x = []"
| "hash_iterates E (Suc n) x = digest_sha_256 E x # hash_iterates E n (digest_sha_256 E x)"

lemma hash_chain_contents:
  assumes "sha256_ok E" and "off + 32 * n = length a"
  shows "hash_chain E n x off a = take off a @ concat (hash_iterates E n x)"
  using assms(2)
proof (induction n arbitrary: x off a)
  case (Suc n)
  let ?d = "digest_sha_256 E x"
  have l: "length ?d = 32" using assms(1) by simp
  have "take (off + 32) (write_at off ?d a) = take off a @ ?d"
    using Suc.prems l by (simp add: write_at_def)
  moreover have "off + 32 + 32 * n = length (write_at off ?d a)"
    using Suc.prems l by (subst write_at_length) simp_all
  ultimately show ?case using Suc.IH [of "off + 32" "write_at off ?d a" ?d] by (simp add: Let_def)
qed simp

lemma length_hash_iterates: "sha256_ok E \<Longrightarrow> length (concat (hash_iterates E n x)) = 32 * n"
  by (induction n arbitrary: x) simp_all

lemma genesis_data_length [simp]: "sha256_ok E \<Longrightarrow> length (genesis_data_from_seed E seed) = 4094"
  by (simp add: genesis_data_from_seed_def hash_chain_contents length_hash_iterates PIECE_SIZE_def)

lemma expand_iv_length [simp]: "sha256_ok E \<Longrightarrow> length (expand_iv E iv) = PRIME_SIZE_BYTES"
  by (simp add: expand_iv_def hash_chain_contents length_hash_iterates size_consts)

lemma expand_iv_digest: "sha256_ok E \<Longrightarrow> expand_iv E iv = digest_sha_256 E iv"
  by (simp add: expand_iv_def write_at_def size_consts)

lemma proofs_loop:
  assumes "\<forall>id \<in> set ids. f id \<noteq> None"
  shows "foldR (\<lambda>proofs id. bindR (unwrap (f id)) (\<lambda>p. Ok (proofs @ [p]))) acc ids =
           Ok (acc @ map (the \<circ> f) ids)"
  using assms by (induction ids arbitrary: acc) auto

lemma create_merkle_tree_Ok:
  assumes "sha256_ok E" and "merkle_ok E" and "ids \<noteq> []" and "\<forall>id \<in> set ids. length id = 32"
  shows "\<exists>root proofs. create_merkle_tree E ids = Ok (root, proofs) \<and> length proofs = length ids \<and>
           length root = 32 \<and> (\<forall>i < length ids. validate_merkle_proof E (ids ! i) (proofs ! i) root)"
proof -
  let ?h = "digest_sha_256_simple E"
  let ?f = "tree_get_proof E ?h ids"
  have h: "\<forall>d. length (?h d) = 32" using assms(1) by (simp add: digest_simple_eq)
  have r: "length (tree_root E ?h ids) = 32" and p: "\<forall>id \<in> set ids. ?f id \<noteq> None"
    and c: "\<And>id p. ?f id = Some p \<Longrightarrow> tree_check_proof E ?h (tree_root E ?h ids) p id"
    using assms(2-4) h unfolding merkle_ok_def by blast+
  have "validate_merkle_proof E (ids ! i) (map (the \<circ> ?f) ids ! i) (tree_root E ?h ids)"
    if "i < length ids" for i
    using that p c by (force simp: validate_merkle_proof_def)
  moreover have "create_merkle_tree E ids = Ok (tree_root E ?h ids, map (the \<circ> ?f) ids)"
    using r proofs_loop [OF p] by (simp add: create_merkle_tree_def Let_def)
  ultimately show ?thesis using r by fastforce
qed

section \<open>A concrete instance\<close>

text \<open>
  Simple functions that satisfy the laws: a hash that truncates, a tree whose root is the hash of
  all its items and whose proofs list them, signatures that are a key with a hash.
\<close>

definition toy_sha256 :: "bytes \<Rightarrow> bytes" where
  "toy_sha256 d = take 32 (d @ replicate 32 0)"

definition toy_crypto :: crypto where
  "toy_crypto = gmp.extend small_gmp (crypto.fields toy_sha256 (\<lambda>k m. toy_sha256 (m @ k))
     (\<lambda>h ids. h (concat ids))
     (\<lambda>h ids i. if i \<in> set ids then Some (concat ids) else None)
     (\<lambda>h root p i. h p = root \<and> i \<in> set (chunks_exact 32 p))
     (\<lambda>pk. length pk = 32) (\<lambda>sg. length sg = 64)
     (\<lambda>pk m sg. sg = pk @ toy_sha256 m) (\<lambda>keys m. public keys @ toy_sha256 m))"

lemma length_toy_sha256 [simp]: "length (toy_sha256 d) = 32"
  by (simp add: toy_sha256_def)

lemma toy_laws:
  "sha256 E = toy_sha256 \<Longrightarrow> sha256_ok E"
  "tree_root E = (\<lambda>h ids. h (concat ids)) \<Longrightarrow>
   tree_get_proof E = (\<lambda>h ids i. if i \<in> set ids then Some (concat ids) else None) \<Longrightarrow>
   tree_check_proof E = (\<lambda>h root p i. h p = root \<and> i \<in> set (chunks_exact 32 p)) \<Longrightarrow> merkle_ok E"
  "public_key_ok E = (\<lambda>pk. length pk = 32) \<Longrightarrow> signature_ok E = (\<lambda>sg. length sg = 64) \<Longrightarrow>
   verify_strict E = (\<lambda>pk m sg. sg = pk @ toy_sha256 m) \<Longrightarrow>
   sign E = (\<lambda>keys m. public keys @ toy_sha256 m) \<Longrightarrow> length (public keys) = 32 \<Longrightarrow> ed25519_ok E keys"
  by (auto simp: sha256_ok_def merkle_ok_def ed25519_ok_def chunks_exact_concat)

end
