(* ===== verification/State.thy ===== *)
theory State
  imports Crypto
begin

text \<open>
  The state chain of \<^verbatim>\<open>src/state.rs\<close>: length-prefixed records are buffered, and each full
  buffer is cut into pieces, committed to with a Merkle root and appended to a chain of state
  blocks.  \<^verbatim>\<open>bincode\<close>'s serialisation of a state block is the parameter \<open>ser_state_block\<close>.
  The channel \<^verbatim>\<open>state_sender\<close> is the list of the bundles sent on it.

  Main results: records of at most 8190 bytes are never lost and can be parsed back out of the
  pieces; every piece's Merkle proof checks against the state block found at the height
  \<open>piece_index div 2\<close>, which is where \<^verbatim>\<open>Block::is_valid\<close> looks; the genesis state has exactly
  the pieces asked for.
\<close>

section \<open>Data\<close>

record PieceBundle =
  pb_piece :: Piece
  pb_piece_id :: PieceId
  pb_piece_index :: u64
  pb_piece_proof :: bytes

record StateBlock =
  previous_state_block_id :: bytes
  piece_merkle_root :: bytes
  sb_height :: u64

record StateBundle =
  state_block :: StateBlock
  merkle_root :: bytes
  piece_bundles :: "PieceBundle list"

record State =
  pending_state :: bytes
  blocks_by_id :: "bytes \<rightharpoonup> StateBlock"
  blocks_by_height :: "u64 \<rightharpoonup> bytes"
  last_state_block_id :: bytes
  last_state_block_height :: u64
  state_sender :: "StateBundle list"

record statelib = crypto +
  ser_state_block :: "StateBlock \<Rightarrow> bytes"

section \<open>Operations\<close>

definition StateBlock_get_id :: "'z statelib_scheme \<Rightarrow> StateBlock \<Rightarrow> bytes" where
  "StateBlock_get_id E b = digest_sha_256 E (ser_state_block E b)"

definition State_new :: State where
  "State_new = \<lparr>pending_state = [], blocks_by_id = Map.empty, blocks_by_height = Map.empty,
     last_state_block_id = replicate 32 0, last_state_block_height = 0, state_sender = []\<rparr>"

definition save_state_block :: "'z statelib_scheme \<Rightarrow> State \<Rightarrow> StateBlock \<Rightarrow> State" where
  "save_state_block E st b =
     (let state_block_id = StateBlock_get_id E b
      in st\<lparr>blocks_by_id := (blocks_by_id st)(state_block_id \<mapsto> b),
            blocks_by_height := (blocks_by_height st)(sb_height b \<mapsto> state_block_id),
            last_state_block_height := last_state_block_height st + 1,
            last_state_block_id := state_block_id\<rparr>)"

text \<open>\<^verbatim>\<open>Vec::resize\<close>: pads or truncates.\<close>

definition resize :: "nat \<Rightarrow> 'a \<Rightarrow> 'a list \<Rightarrow> 'a list" where
  "resize n x xs = take n xs @ replicate (n - length xs) x"

text \<open>The loop over \<^verbatim>\<open>izip!(&pieces, piece_ids, merkle_proofs)\<close>.\<close>

fun make_piece_bundles :: "u64 \<Rightarrow> Piece list \<Rightarrow> PieceId list \<Rightarrow> bytes list \<Rightarrow> PieceBundle list" where
  "make_piece_bundles piece_index (piece # pieces) (piece_id # ids) (piece_proof # proofs) =
     \<lparr>pb_piece = piece, pb_piece_id = piece_id, pb_piece_index = piece_index,
      pb_piece_proof = piece_proof\<rparr> # make_piece_bundles (piece_index + 1) pieces ids proofs"
| "make_piece_bundles _ _ _ _ = []"

definition State_encode :: "'z statelib_scheme \<Rightarrow> State \<Rightarrow> (State \<times> StateBundle) res" where
  "State_encode E st =
     (let new_state = resize STATE_BLOCK_SIZE_IN_BYTES 0 (pending_state st);
          st = st\<lparr>pending_state := []\<rparr>;
          pieces = chunks_exact PIECE_SIZE new_state;
          piece_ids = map (digest_sha_256 E) pieces
      in bindR (create_merkle_tree E piece_ids) (\<lambda>(root, merkle_proofs).
         let piece_index = of_nat PIECES_PER_STATE_BLOCK * last_state_block_height st;
             bundles = make_piece_bundles piece_index pieces piece_ids merkle_proofs;
             b = \<lparr>previous_state_block_id = last_state_block_id st, piece_merkle_root = root,
                  sb_height = last_state_block_height st\<rparr>
         in Ok (save_state_block E st b,
                \<lparr>state_block = b, merkle_root = root, piece_bundles = bundles\<rparr>)))"

definition append_record :: "bytes \<Rightarrow> bytes \<Rightarrow> State \<Rightarrow> State" where
  "append_record len_as_bytes data st =
     st\<lparr>pending_state := pending_state st @ len_as_bytes @ data\<rparr>"

definition add_data :: "'z statelib_scheme \<Rightarrow> State \<Rightarrow> bytes \<Rightarrow> (State \<times> StateBundle option) res" where
  "add_data E st data =
     (let data_len = (of_nat (length data) :: u16);
          len_as_bytes = u16_to_be_bytes data_len;
          full_len = data_len + 2;
          new_len = length (pending_state st) + unat full_len;
          st = (if new_len = STATE_BLOCK_SIZE_IN_BYTES then append_record len_as_bytes data st else st)
      in bindR
           (if STATE_BLOCK_SIZE_IN_BYTES \<le> new_len then
              bindR (State_encode E st) (\<lambda>(st, state_bundle).
              Ok (st\<lparr>state_sender := state_sender st @ [state_bundle]\<rparr>, Some state_bundle))
            else Ok (st, None)) (\<lambda>(st, state_bundle_option).
         Ok (if new_len \<noteq> STATE_BLOCK_SIZE_IN_BYTES then append_record len_as_bytes data st else st,
             state_bundle_option)))"

definition genesis_step ::
  "'z statelib_scheme \<Rightarrow> bytes \<times> State \<times> PieceBundle list \<Rightarrow> (bytes \<times> State \<times> PieceBundle list) res" where
  "genesis_step E = (\<lambda>(input, st, bundles).
     let input = digest_sha_256_simple E input
     in if length input \<noteq> 32 then Panic (Expect ''32 bytes'')
        else bindR (add_data E st (genesis_data_from_seed E input)) (\<lambda>(st, bundle).
             Ok (input, st, bundles @ (case bundle of Some b \<Rightarrow> piece_bundles b | None \<Rightarrow> []))))"

definition create_genesis_state ::
  "'z statelib_scheme \<Rightarrow> State \<Rightarrow> bytes \<Rightarrow> nat \<Rightarrow> (State \<times> PieceBundle list) res" where
  "create_genesis_state E st seed piece_count =
     (if piece_count mod PIECES_PER_STATE_BLOCK \<noteq> 0 then
        Panic (PanicMsg ''Genesis piece set must always create an exact number of state blocks'')
      else bindR (foldR (\<lambda>s _. genesis_step E s) (seed, st, []) [0..<piece_count])
             (\<lambda>(_, st, bundles). Ok (st, bundles)))"

definition get_state_block_by_id :: "State \<Rightarrow> bytes \<Rightarrow> StateBlock option" where
  "get_state_block_by_id st i = blocks_by_id st i"

definition get_state_block_by_height :: "State \<Rightarrow> u64 \<Rightarrow> StateBlock option" where
  "get_state_block_by_height st h =
     (case blocks_by_height st h of Some i \<Rightarrow> get_state_block_by_id st i | None \<Rightarrow> None)"

text \<open>A sequence of calls of \<^verbatim>\<open>add_data\<close>.\<close>

definition add_one :: "'z statelib_scheme \<Rightarrow> State \<Rightarrow> bytes \<Rightarrow> State res" where
  "add_one E st data = bindR (add_data E st data) (\<lambda>(st, _). Ok st)"

definition add_all :: "'z statelib_scheme \<Rightarrow> State \<Rightarrow> bytes list \<Rightarrow> State res" where
  "add_all E st datas = foldR (add_one E) st datas"

section \<open>The chain invariant\<close>

text \<open>The padded buffer that a bundle's pieces hold.\<close>

definition bundle_bytes :: "StateBundle \<Rightarrow> bytes" where
  "bundle_bytes b = concat (map pb_piece (piece_bundles b))"

definition bundle_ok :: "'z statelib_scheme \<Rightarrow> nat \<Rightarrow> StateBundle \<Rightarrow> bool" where
  "bundle_ok E h b \<longleftrightarrow>
     sb_height (state_block b) = of_nat h \<and> merkle_root b = piece_merkle_root (state_block b) \<and>
     length (piece_bundles b) = PIECES_PER_STATE_BLOCK \<and>
     (\<forall>j < PIECES_PER_STATE_BLOCK. let p = piece_bundles b ! j in
        length (pb_piece p) = PIECE_SIZE \<and> pb_piece_id p = digest_sha_256 E (pb_piece p) \<and>
        pb_piece_index p = of_nat (PIECES_PER_STATE_BLOCK * h + j) \<and>
        validate_merkle_proof E (pb_piece_id p) (pb_piece_proof p) (merkle_root b))"

definition sent_blocks :: "State \<Rightarrow> StateBlock list" where
  "sent_blocks st = map state_block (state_sender st)"

definition last_id :: "'z statelib_scheme \<Rightarrow> StateBlock list \<Rightarrow> bytes" where
  "last_id E bs = (if bs = [] then replicate 32 0 else StateBlock_get_id E (last bs))"

text \<open>
  The blocks sent so far form a chain from the all-zero id, each at the height of its position,
  and the two maps index exactly these blocks.
\<close>

definition chain_ok :: "'z statelib_scheme \<Rightarrow> State \<Rightarrow> bool" where
  "chain_ok E st \<longleftrightarrow>
     (let bs = sent_blocks st in
        last_state_block_height st = of_nat (length bs) \<and> last_state_block_id st = last_id E bs \<and>
        (\<forall>i < length bs. bundle_ok E i (state_sender st ! i) \<and>
            previous_state_block_id (bs ! i) = last_id E (take i bs)) \<and>
        blocks_by_id st = map_of (rev (map (\<lambda>b. (StateBlock_get_id E b, b)) bs)) \<and>
        blocks_by_height st = map_of (rev (map (\<lambda>b. (sb_height b, StateBlock_get_id E b)) bs)))"

lemma chain_ok_new: "chain_ok E State_new"
  by (simp add: chain_ok_def State_new_def sent_blocks_def last_id_def)

lemma chain_ok_pending [simp]:
  "chain_ok E (st\<lparr>pending_state := p\<rparr>) = chain_ok E st"
  "chain_ok E (append_record l d st) = chain_ok E st"
  by (simp_all add: chain_ok_def sent_blocks_def append_record_def Let_def)

lemma make_piece_bundles_nth:
  assumes "length ids = length ps" and "length prs = length ps"
  shows "length (make_piece_bundles k ps ids prs) = length ps \<and>
    (\<forall>j < length ps. make_piece_bundles k ps ids prs ! j =
       \<lparr>pb_piece = ps ! j, pb_piece_id = ids ! j, pb_piece_index = k + of_nat j, pb_piece_proof = prs ! j\<rparr>)"
  using assms
proof (induction k ps ids prs rule: make_piece_bundles.induct)
  case (1 k p ps i ids pr prs)
  then show ?case by (auto simp: nth_Cons' less_Suc_eq_0_disj)
qed auto

lemma length_resize [simp]: "length (resize n x xs) = n"
  by (simp add: resize_def)

definition pieces_of :: "bytes \<Rightarrow> Piece list" where
  "pieces_of pending = chunks_exact PIECE_SIZE (resize STATE_BLOCK_SIZE_IN_BYTES 0 pending)"

lemma pieces_of_facts:
  "length (pieces_of p) = PIECES_PER_STATE_BLOCK" "\<forall>x \<in> set (pieces_of p). length x = PIECE_SIZE"
  "concat (pieces_of p) = resize STATE_BLOCK_SIZE_IN_BYTES 0 p"
  by (auto simp: pieces_of_def length_chunks_exact size_consts concat_chunks_exact
      dest: chunks_exact_lengths)

text \<open>What \<^verbatim>\<open>encode\<close> returns, and that it cannot panic.\<close>

lemma State_encode_Ok:
  assumes "sha256_ok E" and "merkle_ok E"
  shows "\<exists>b. State_encode E st = Ok (save_state_block E (st\<lparr>pending_state := []\<rparr>) (state_block b), b) \<and>
    previous_state_block_id (state_block b) = last_state_block_id st \<and>
    sb_height (state_block b) = last_state_block_height st \<and>
    bundle_bytes b = resize STATE_BLOCK_SIZE_IN_BYTES 0 (pending_state st) \<and>
    (last_state_block_height st = of_nat h \<longrightarrow> bundle_ok E h b)"
proof -
  let ?ps = "pieces_of (pending_state st)"
  let ?ids = "map (digest_sha_256 E) ?ps"
  let ?k = "of_nat PIECES_PER_STATE_BLOCK * last_state_block_height st"
  have ne: "?ids \<noteq> []" using pieces_of_facts(1) [of "pending_state st"] by (auto simp: size_consts)
  obtain root proofs where tree: "create_merkle_tree E ?ids = Ok (root, proofs)"
      "length proofs = length ?ids"
      "\<forall>i < length ?ids. validate_merkle_proof E (?ids ! i) (proofs ! i) root"
    using create_merkle_tree_Ok [OF assms ne] assms(1) by auto
  define pbs where "pbs = make_piece_bundles ?k ?ps ?ids proofs"
  define b where "b = \<lparr>state_block = \<lparr>previous_state_block_id = last_state_block_id st,
    piece_merkle_root = root, sb_height = last_state_block_height st\<rparr>, merkle_root = root, piece_bundles = pbs\<rparr>"
  have pbs: "length pbs = length ?ps"
    "\<And>j. j < length ?ps \<Longrightarrow> pbs ! j = \<lparr>pb_piece = ?ps ! j, pb_piece_id = ?ids ! j,
        pb_piece_index = ?k + of_nat j, pb_piece_proof = proofs ! j\<rparr>"
    using make_piece_bundles_nth [of ?ids ?ps proofs ?k] tree(2) unfolding pbs_def by auto
  have "State_encode E st = Ok (save_state_block E (st\<lparr>pending_state := []\<rparr>) (state_block b), b)"
    using tree(1) by (simp add: State_encode_def pieces_of_def b_def pbs_def Let_def)
  moreover have "map pb_piece pbs = ?ps" using pbs by (intro nth_equalityI) auto
  then have "bundle_bytes b = resize STATE_BLOCK_SIZE_IN_BYTES 0 (pending_state st)"
    by (simp add: bundle_bytes_def b_def pieces_of_facts(3))
  moreover have "bundle_ok E h b" if "last_state_block_height st = of_nat h"
    using that pbs tree pieces_of_facts(1,2) [of "pending_state st"]
    by (auto simp: bundle_ok_def b_def Let_def)
  moreover have "previous_state_block_id (state_block b) = last_state_block_id st"
    "sb_height (state_block b) = last_state_block_height st" by (simp_all add: b_def)
  ultimately show ?thesis by blast
qed

lemma chain_ok_extend:
  assumes "chain_ok E st" and "bundle_ok E (length (sent_blocks st)) b"
    and "previous_state_block_id (state_block b) = last_state_block_id st"
  shows "chain_ok E ((save_state_block E st (state_block b))\<lparr>state_sender := state_sender st @ [b]\<rparr>)"
proof -
  have "sb_height (state_block b) = of_nat (length (state_sender st))"
    using assms(2) by (simp add: bundle_ok_def sent_blocks_def)
  then show ?thesis using assms
    by (auto simp: chain_ok_def sent_blocks_def save_state_block_def Let_def last_id_def nth_append
        less_Suc_eq)
qed

section \<open>Adding data\<close>

text \<open>Encoding and sending: the bundle holds the padded buffer, and the chain grows by its block.\<close>

definition emit :: "'z statelib_scheme \<Rightarrow> State \<Rightarrow> (State \<times> StateBundle option) res" where
  "emit E st = bindR (State_encode E st) (\<lambda>(st, b). Ok (st\<lparr>state_sender := state_sender st @ [b]\<rparr>, Some b))"

lemma emit_Ok:
  assumes "sha256_ok E" and "merkle_ok E"
  obtains st' b where "emit E st = Ok (st', Some b)" "pending_state st' = []"
    "state_sender st' = state_sender st @ [b]"
    "bundle_bytes b = resize STATE_BLOCK_SIZE_IN_BYTES 0 (pending_state st)"
    "chain_ok E st \<longrightarrow> chain_ok E st'"
proof -
  let ?st = "st\<lparr>pending_state := []\<rparr>"
  obtain b where b: "State_encode E st = Ok (save_state_block E ?st (state_block b), b)"
    "previous_state_block_id (state_block b) = last_state_block_id st"
    "bundle_bytes b = resize STATE_BLOCK_SIZE_IN_BYTES 0 (pending_state st)"
    "last_state_block_height st = of_nat (length (sent_blocks st)) \<longrightarrow> bundle_ok E (length (sent_blocks st)) b"
    using State_encode_Ok [OF assms, where h = "length (sent_blocks st)"] by blast
  have "chain_ok E ((save_state_block E ?st (state_block b))\<lparr>state_sender := state_sender ?st @ [b]\<rparr>)"
    if "chain_ok E st"
    by (rule chain_ok_extend) (use that b in \<open>auto simp: chain_ok_def sent_blocks_def Let_def\<close>)
  then show thesis using that b by (simp add: emit_def save_state_block_def Let_def)
qed

text \<open>A record as it is written to the buffer: its length as two big-endian bytes, then the data.\<close>

definition frame_record :: "bytes \<Rightarrow> bytes" where
  "frame_record data = u16_to_be_bytes (of_nat (length data)) @ data"

definition full_len :: "bytes \<Rightarrow> nat" where
  "full_len data = unat (of_nat (length data) + 2 :: u16)"

lemma add_data_below:
  "length (pending_state st) + full_len data < STATE_BLOCK_SIZE_IN_BYTES \<Longrightarrow>
     add_data E st data = Ok (st\<lparr>pending_state := pending_state st @ frame_record data\<rparr>, None)"
  by (simp add: add_data_def append_record_def frame_record_def full_len_def Let_def)

lemma add_data_exact:
  "length (pending_state st) + full_len data = STATE_BLOCK_SIZE_IN_BYTES \<Longrightarrow>
     add_data E st data = emit E (st\<lparr>pending_state := pending_state st @ frame_record data\<rparr>)"
  by (cases "State_encode E (st\<lparr>pending_state := pending_state st @ frame_record data\<rparr>)")
    (auto simp: add_data_def append_record_def frame_record_def full_len_def Let_def emit_def)

lemma add_data_above:
  "STATE_BLOCK_SIZE_IN_BYTES < length (pending_state st) + full_len data \<Longrightarrow>
     add_data E st data = bindR (emit E st) (\<lambda>(st, b).
       Ok (st\<lparr>pending_state := pending_state st @ frame_record data\<rparr>, b))"
  by (cases "State_encode E st")
    (auto simp: add_data_def append_record_def frame_record_def full_len_def Let_def emit_def)

lemma add_data_total:
  assumes "sha256_ok E" and "merkle_ok E"
  shows "\<exists>st' b. add_data E st data = Ok (st', b) \<and> (chain_ok E st \<longrightarrow> chain_ok E st')"
proof -
  consider "length (pending_state st) + full_len data < STATE_BLOCK_SIZE_IN_BYTES"
    | "length (pending_state st) + full_len data = STATE_BLOCK_SIZE_IN_BYTES"
    | "STATE_BLOCK_SIZE_IN_BYTES < length (pending_state st) + full_len data" by linarith
  then show ?thesis
  proof cases
    case 1
    then show ?thesis by (simp add: add_data_below)
  next
    case 2
    let ?st = "st\<lparr>pending_state := pending_state st @ frame_record data\<rparr>"
    obtain st' b where "emit E ?st = Ok (st', Some b)" "chain_ok E ?st \<longrightarrow> chain_ok E st'"
      using emit_Ok [OF assms, of ?st] by blast
    then show ?thesis by (simp add: add_data_exact [OF 2])
  next
    case 3
    obtain st' b where "emit E st = Ok (st', Some b)" "chain_ok E st \<longrightarrow> chain_ok E st'"
      using emit_Ok [OF assms, of st] by blast
    then show ?thesis by (simp add: add_data_above [OF 3])
  qed
qed

interpretation state_run: total_operation "add_one E" "chain_ok E" "\<lambda>_. sha256_ok E \<and> merkle_ok E"
proof
  show "chain_ok E s'"
    if "chain_ok E s" "sha256_ok E \<and> merkle_ok E" "add_one E s a = Inr s'" for s a s'
    using that add_data_total [of E s a] by (auto simp: add_one_def)
  show "\<exists>s'. add_one E s a = Inr s'"
    if "chain_ok E s" "sha256_ok E \<and> merkle_ok E" for s a
    using that add_data_total [of E s a] by (auto simp: add_one_def)
qed

section \<open>Records can be parsed back\<close>

fun parse_state :: "bytes \<Rightarrow> bytes list" where
  "parse_state (hi # lo # rest) =
     (let n = unat (u16_from_le_bytes [lo, hi])
      in if n = 0 \<or> length rest < n then [] else take n rest # parse_state (drop n rest))"
| "parse_state _ = []"

definition record_ok :: "bytes \<Rightarrow> bool" where
  "record_ok data \<longleftrightarrow> 0 < length data \<and> length data + 2 \<le> STATE_BLOCK_SIZE_IN_BYTES"

lemma record_full_len: "record_ok d \<Longrightarrow> full_len d = length (frame_record d)"
  by (simp add: record_ok_def full_len_def frame_record_def size_consts unat_word_ariths unat_of_nat)

lemma parse_frame:
  assumes "record_ok r"
  shows "parse_state (frame_record r @ rest) = r # parse_state rest"
proof -
  let ?w = "of_nat (length r) :: u16"
  obtain lo hi where b: "u16_to_le_bytes ?w = [lo, hi]"
    by (simp add: u16_to_le_bytes_def numeral_2_eq_2)
  have "u16_from_le_bytes [lo, hi] = ?w" using u16_le_roundtrip [of ?w] b by simp
  moreover have "unat ?w = length r" using assms by (simp add: record_ok_def size_consts unat_of_nat)
  ultimately show ?thesis using assms b
    by (simp add: frame_record_def u16_to_be_bytes_def record_ok_def Let_def)
qed

lemma parse_padding [simp]: "parse_state (replicate k 0) = []"
proof -
  consider "k = 0" | "k = 1" | m where "k = Suc (Suc m)" by (metis One_nat_def not0_implies_Suc)
  then show ?thesis by cases (auto simp: u16_from_le_bytes_def)
qed

lemma parse_frames:
  "\<forall>r \<in> set rs. record_ok r \<Longrightarrow> parse_state (concat (map frame_record rs) @ replicate k 0) = rs"
  by (induction rs) (auto simp: parse_frame)

text \<open>Everything that the sent pieces and the buffer hold, in order.\<close>

definition stored :: "State \<Rightarrow> bytes list" where
  "stored st = concat (map (parse_state \<circ> bundle_bytes) (state_sender st)) @ parse_state (pending_state st)"

definition buffer_ok :: "State \<Rightarrow> bool" where
  "buffer_ok st \<longleftrightarrow> length (pending_state st) \<le> STATE_BLOCK_SIZE_IN_BYTES \<and>
     (\<exists>rs. (\<forall>r \<in> set rs. record_ok r) \<and> pending_state st = concat (map frame_record rs))"

lemma buffer_okE:
  assumes "buffer_ok st"
  obtains rs where "\<forall>r \<in> set rs. record_ok r" "pending_state st = concat (map frame_record rs)"
    "parse_state (pending_state st) = rs"
    "parse_state (resize STATE_BLOCK_SIZE_IN_BYTES 0 (pending_state st)) = rs"
    "length (pending_state st) \<le> STATE_BLOCK_SIZE_IN_BYTES"
proof -
  obtain rs where rs: "\<forall>r \<in> set rs. record_ok r" "pending_state st = concat (map frame_record rs)"
    using assms by (auto simp: buffer_ok_def)
  have "parse_state (pending_state st) = rs" using parse_frames [OF rs(1), of 0] rs(2) by simp
  moreover have "parse_state (resize STATE_BLOCK_SIZE_IN_BYTES 0 (pending_state st)) = rs"
    using parse_frames [OF rs(1)] rs(2) assms by (simp add: resize_def buffer_ok_def)
  ultimately show thesis using that rs assms by (auto simp: buffer_ok_def)
qed

lemma buffer_ok_append:
  assumes "buffer_ok st" and "record_ok d"
    and "length (pending_state st) + full_len d \<le> STATE_BLOCK_SIZE_IN_BYTES"
  shows "buffer_ok (st\<lparr>pending_state := pending_state st @ frame_record d\<rparr>)"
    and "stored (st\<lparr>pending_state := pending_state st @ frame_record d\<rparr>) = stored st @ [d]"
proof -
  obtain rs where rs: "\<forall>r \<in> set rs. record_ok r" "pending_state st = concat (map frame_record rs)"
    "parse_state (pending_state st) = rs" using assms(1) by (rule buffer_okE)
  have a: "pending_state st @ frame_record d = concat (map frame_record (rs @ [d]))"
    and r: "\<forall>r \<in> set (rs @ [d]). record_ok r" using rs assms(2) by auto
  have l: "length (pending_state st @ frame_record d) \<le> STATE_BLOCK_SIZE_IN_BYTES"
    using assms(3) record_full_len [OF assms(2)] by simp
  show "buffer_ok (st\<lparr>pending_state := pending_state st @ frame_record d\<rparr>)"
    unfolding buffer_ok_def using l r by (auto simp: a intro!: exI [of _ "rs @ [d]"])
  have "parse_state (pending_state st @ frame_record d) = rs @ [d]"
    using parse_frames [OF r, of 0] a by simp
  then show "stored (st\<lparr>pending_state := pending_state st @ frame_record d\<rparr>) = stored st @ [d]"
    using rs(3) by (simp add: stored_def)
qed

lemma buffer_ok_emit:
  assumes "sha256_ok E" and "merkle_ok E" and "buffer_ok st"
  obtains st' b where "emit E st = Ok (st', Some b)" "pending_state st' = []" "buffer_ok st'"
    "stored st' = stored st"
proof -
  obtain st' b where e: "emit E st = Ok (st', Some b)" "pending_state st' = []"
    "state_sender st' = state_sender st @ [b]"
    "bundle_bytes b = resize STATE_BLOCK_SIZE_IN_BYTES 0 (pending_state st)"
    using emit_Ok [OF assms(1,2), of st] by blast
  obtain rs where "parse_state (pending_state st) = rs"
    "parse_state (resize STATE_BLOCK_SIZE_IN_BYTES 0 (pending_state st)) = rs"
    using buffer_okE [OF assms(3)] by blast
  then have "parse_state (bundle_bytes b) = parse_state (pending_state st)" using e(4) by simp
  then have "stored st' = stored st" using e by (simp add: stored_def)
  moreover have "buffer_ok st'" using e(2) by (auto simp: buffer_ok_def intro!: exI [of _ "[]"])
  ultimately show thesis using that e by blast
qed

lemma add_data_stored:
  assumes "sha256_ok E" and "merkle_ok E" and "buffer_ok st" and "record_ok d"
  shows "\<exists>st' b. add_data E st d = Ok (st', b) \<and> buffer_ok st' \<and> stored st' = stored st @ [d]"
proof -
  let ?st = "st\<lparr>pending_state := pending_state st @ frame_record d\<rparr>"
  consider "length (pending_state st) + full_len d < STATE_BLOCK_SIZE_IN_BYTES"
    | "length (pending_state st) + full_len d = STATE_BLOCK_SIZE_IN_BYTES"
    | "STATE_BLOCK_SIZE_IN_BYTES < length (pending_state st) + full_len d" by linarith
  then show ?thesis
  proof cases
    case 1
    then show ?thesis using buffer_ok_append [OF assms(3,4)] by (simp add: add_data_below)
  next
    case 2
    then have b: "buffer_ok ?st" and s: "stored ?st = stored st @ [d]"
      using buffer_ok_append [OF assms(3,4)] by simp_all
    obtain st' b where "emit E ?st = Ok (st', Some b)" "buffer_ok st'" "stored st' = stored ?st"
      using buffer_ok_emit [OF assms(1,2) b] by blast
    then show ?thesis using s by (simp add: add_data_exact [OF 2])
  next
    case 3
    obtain st' b where e: "emit E st = Ok (st', Some b)" "pending_state st' = []" "buffer_ok st'"
      "stored st' = stored st" using buffer_ok_emit [OF assms(1-3)] by blast
    have "length (pending_state st') + full_len d \<le> STATE_BLOCK_SIZE_IN_BYTES"
      using assms(4) e(2) by (simp add: record_full_len) (simp add: record_ok_def frame_record_def)
    from buffer_ok_append [OF e(3) assms(4) this] show ?thesis
      using e by (simp add: add_data_above [OF 3])
  qed
qed

interpretation record_run: total_operation "add_one E" buffer_ok
  "\<lambda>d. sha256_ok E \<and> merkle_ok E \<and> record_ok d"
proof
  show "buffer_ok s'"
    if "buffer_ok s" "sha256_ok E \<and> merkle_ok E \<and> record_ok a" "add_one E s a = Inr s'" for s a s'
    using that add_data_stored [of E s a] by (auto simp: add_one_def)
  show "\<exists>s'. add_one E s a = Inr s'"
    if "buffer_ok s" "sha256_ok E \<and> merkle_ok E \<and> record_ok a" for s a
    using that add_data_stored [of E s a] by (auto simp: add_one_def)
qed

lemma add_all_stored:
  assumes "sha256_ok E" and "merkle_ok E" and "buffer_ok st" and "\<forall>d \<in> set ds. record_ok d"
    and "add_all E st ds = Ok st'"
  shows "stored st' = stored st @ ds"
  using assms(3-5)
proof (induction ds arbitrary: st)
  case (Cons d ds)
  have "record_ok d" using Cons.prems(2) by simp
  then obtain s1 b where s1: "add_data E st d = Ok (s1, b)" "buffer_ok s1" "stored s1 = stored st @ [d]"
    using add_data_stored [OF assms(1,2) Cons.prems(1)] by blast
  then have "add_all E s1 ds = Ok st'" using Cons.prems(3) by (simp add: add_all_def add_one_def)
  then show ?case using Cons.IH [of s1] s1 Cons.prems(2) by simp
qed (simp add: add_all_def)

section \<open>Looking a piece's state block up\<close>

lemma map_of_rev_nth:
  assumes "distinct (map fst kvs)" and "i < length kvs"
  shows "map_of (rev kvs) (fst (kvs ! i)) = Some (snd (kvs ! i))"
  using assms by (intro map_of_is_SomeI) (simp_all flip: rev_map)

lemma map_of_rev_consistent:
  assumes "(k, v) \<in> set kvs" and "\<And>v'. (k, v') \<in> set kvs \<Longrightarrow> v' = v"
  shows "map_of (rev kvs) k = Some v"
proof -
  have "k \<in> fst ` set (rev kvs)" using assms(1) by force
  then obtain v' where "map_of (rev kvs) k = Some v'" by (meson map_of_eq_None_iff not_None_eq)
  then show ?thesis using assms(2) map_of_SomeD by fastforce
qed

lemma chain_height:
  assumes "chain_ok E st" and "i < length (state_sender st)"
  shows "sb_height (sent_blocks st ! i) = of_nat i"
  using assms by (auto simp: chain_ok_def bundle_ok_def sent_blocks_def Let_def)

lemma state_block_at:
  assumes "chain_ok E st" and "i < length (state_sender st)" and "length (state_sender st) \<le> 2 ^ 64"
    and "inj_on (StateBlock_get_id E) (set (sent_blocks st))"
  shows "get_state_block_by_height st (of_nat i) = Some (sent_blocks st ! i)"
proof -
  let ?bs = "sent_blocks st"
  have l: "length ?bs = length (state_sender st)" by (simp add: sent_blocks_def)
  have inj: "inj_on (of_nat :: nat \<Rightarrow> u64) {..<length ?bs}"
    using assms(3) l by (intro inj_onI) (metis lessThan_iff less_le_trans unat_of_nat_u64)
  have "map sb_height ?bs = map of_nat [0..<length ?bs]"
    using chain_height [OF assms(1)] l by (intro nth_equalityI) auto
  then have d: "distinct (map sb_height ?bs)"
    using inj by (simp add: distinct_map atLeast0LessThan)
  let ?hs = "map (\<lambda>b. (sb_height b, StateBlock_get_id E b)) ?bs"
  have "map_of (rev ?hs) (fst (?hs ! i)) = Some (snd (?hs ! i))"
    by (rule map_of_rev_nth) (use d assms(2) l in \<open>simp_all add: comp_def\<close>)
  then have h: "blocks_by_height st (of_nat i) = Some (StateBlock_get_id E (?bs ! i))"
    using assms(1,2) chain_height [OF assms(1,2)] l by (simp add: chain_ok_def Let_def)
  have "?bs ! i \<in> set ?bs" using assms(2) l by simp
  then have "blocks_by_id st (StateBlock_get_id E (?bs ! i)) = Some (?bs ! i)"
    using assms(1,4) unfolding chain_ok_def Let_def
    by (auto intro!: map_of_rev_consistent dest: inj_onD)
  with h show ?thesis by (simp add: get_state_block_by_height_def get_state_block_by_id_def)
qed

lemma piece_index_div:
  assumes "2 * h + j < 2 ^ 64" and "j < 2"
  shows "(of_nat (2 * h + j) :: u64) div 2 = of_nat h"
proof -
  have "unat ((of_nat (2 * h + j) :: u64) div 2) = (2 * h + j) div 2"
    using assms(1) by (simp add: unat_div unat_of_nat_u64 del: of_nat_add of_nat_mult)
  also have "\<dots> = unat (of_nat h :: u64)" using assms by (simp add: unat_of_nat_u64)
  finally show ?thesis by (simp add: word_unat_eq_iff)
qed

lemma piece_proof_checks:
  assumes "chain_ok E st" and "h < length (state_sender st)" and "p \<in> set (piece_bundles (state_sender st ! h))"
    and "2 * length (state_sender st) \<le> 2 ^ 64"
    and "inj_on (StateBlock_get_id E) (set (sent_blocks st))"
  shows "\<exists>b. get_state_block_by_height st (pb_piece_index p div of_nat PIECES_PER_STATE_BLOCK) = Some b \<and>
           validate_merkle_proof E (pb_piece_id p) (pb_piece_proof p) (piece_merkle_root b)"
proof -
  have ok: "bundle_ok E h (state_sender st ! h)"
    using assms(1,2) by (simp add: chain_ok_def sent_blocks_def Let_def)
  then obtain j where j: "j < 2" "p = piece_bundles (state_sender st ! h) ! j"
    using assms(3) by (auto simp: in_set_conv_nth bundle_ok_def size_consts)
  have "pb_piece_index p div of_nat PIECES_PER_STATE_BLOCK = of_nat h"
    using ok j piece_index_div [of h j] assms(2,4) by (simp add: bundle_ok_def size_consts Let_def)
  moreover have "get_state_block_by_height st (of_nat h) = Some (sent_blocks st ! h)"
    using assms by (intro state_block_at) auto
  moreover have "j < PIECES_PER_STATE_BLOCK" using j(1) by (simp add: size_consts)
  then have "validate_merkle_proof E (pb_piece_id p) (pb_piece_proof p) (merkle_root (state_sender st ! h))"
    using ok unfolding j(2) bundle_ok_def Let_def by blast
  moreover have "merkle_root (state_sender st ! h) = piece_merkle_root (sent_blocks st ! h)"
    using ok assms(2) by (simp add: bundle_ok_def sent_blocks_def)
  ultimately show ?thesis by simp
qed

section \<open>The genesis state\<close>

text \<open>What the loop of \<^verbatim>\<open>create_genesis_state\<close> keeps after \<open>n\<close> rounds.\<close>

definition genesis_inv :: "'z statelib_scheme \<Rightarrow> nat \<Rightarrow> bytes \<times> State \<times> PieceBundle list \<Rightarrow> bool" where
  "genesis_inv E n = (\<lambda>(_, st, bundles).
     chain_ok E st \<and> length (pending_state st) = (if odd n then PIECE_SIZE else 0) \<and>
     length (state_sender st) = n div 2 \<and> bundles = concat (map piece_bundles (state_sender st)))"

lemma genesis_record: "sha256_ok E \<Longrightarrow> full_len (genesis_data_from_seed E s) = PIECE_SIZE"
  "sha256_ok E \<Longrightarrow> length (frame_record (genesis_data_from_seed E s)) = PIECE_SIZE"
  by (simp_all add: full_len_def frame_record_def size_consts)

lemma genesis_step_inv:
  assumes "sha256_ok E" and "merkle_ok E" and "genesis_inv E n s"
  shows "\<exists>s'. genesis_step E s = Ok s' \<and> genesis_inv E (Suc n) s'"
proof -
  obtain input st bundles where s: "s = (input, st, bundles)" by (cases s)
  define d where "d = genesis_data_from_seed E (digest_sha_256_simple E input)"
  have d: "full_len d = PIECE_SIZE" "length (frame_record d) = PIECE_SIZE"
    using genesis_record [OF assms(1)] by (simp_all add: d_def)
  have step: "genesis_step E s = bindR (add_data E st d) (\<lambda>(st, bundle).
      Ok (digest_sha_256_simple E input, st, bundles @ (case bundle of Some b \<Rightarrow> piece_bundles b | None \<Rightarrow> [])))"
    using assms(1) by (simp add: s genesis_step_def d_def Let_def digest_simple_eq)
  show ?thesis
  proof (cases "odd n")
    case False
    then have "length (pending_state st) + full_len d < STATE_BLOCK_SIZE_IN_BYTES"
      using assms(3) d by (simp add: s genesis_inv_def size_consts)
    then show ?thesis using assms(3) d False step by (auto simp: s genesis_inv_def add_data_below)
  next
    case True
    let ?st = "st\<lparr>pending_state := pending_state st @ frame_record d\<rparr>"
    have eq: "length (pending_state st) + full_len d = STATE_BLOCK_SIZE_IN_BYTES"
      using assms(3) d True by (simp add: s genesis_inv_def size_consts)
    obtain st' b where e: "emit E ?st = Ok (st', Some b)" "pending_state st' = []"
      "state_sender st' = state_sender ?st @ [b]" "chain_ok E ?st \<longrightarrow> chain_ok E st'"
      using emit_Ok [OF assms(1,2), of ?st] by blast
    then show ?thesis using assms(3) True step add_data_exact [OF eq, of E]
      by (auto simp: s genesis_inv_def)
  qed
qed

lemma genesis_loop:
  assumes "sha256_ok E" and "merkle_ok E"
  shows "\<exists>s. foldR (\<lambda>s _. genesis_step E s) (seed, State_new, []) [0..<n] = Ok s \<and> genesis_inv E n s"
proof (induction n)
  case 0
  show ?case by (simp add: genesis_inv_def chain_ok_new) (simp add: State_new_def)
next
  case (Suc n)
  then show ?case using genesis_step_inv [OF assms] by (fastforce simp: foldR_append)
qed

lemma concat_pairs_nth:
  assumes "\<forall>x \<in> set xss. length x = 2" and "i < 2 * length xss"
  shows "concat xss ! i = xss ! (i div 2) ! (i mod 2)"
  using assms
proof (induction xss arbitrary: i)
  case (Cons xs xss)
  then show ?case by (cases "i < 2") (auto simp: nth_append div_if mod_if)
qed simp


text \<open>
  \<^bold>\<open>C13\<close>.  \<^verbatim>\<open>add_data\<close> never panics, and in any state reached by it every piece sent can be
  checked the way \<^verbatim>\<open>Block::is_valid\<close> does it: the state block at the height given by half its
  index exists and its Merkle root accepts the piece's proof (no two sent blocks sharing an id).
\<close>

theorem state_pieces_provable:
  assumes "sha256_ok E" and "merkle_ok E"
  shows "\<exists>st. add_all E State_new ds = Ok st \<and>
    (inj_on (StateBlock_get_id E) (set (sent_blocks st)) \<longrightarrow> 2 * length (state_sender st) \<le> 2 ^ 64 \<longrightarrow>
      (\<forall>b \<in> set (state_sender st). \<forall>p \<in> set (piece_bundles b).
         \<exists>sb. get_state_block_by_height st (pb_piece_index p div of_nat PIECES_PER_STATE_BLOCK) = Some sb \<and>
           validate_merkle_proof E (digest_sha_256 E (pb_piece p)) (pb_piece_proof p) (piece_merkle_root sb)))"
proof -
  obtain st where st: "add_all E State_new ds = Ok st" "chain_ok E st"
    using state_run.run_total [OF chain_ok_new, of ds E] assms unfolding add_all_def by blast
  have "\<exists>sb. get_state_block_by_height st (pb_piece_index p div of_nat PIECES_PER_STATE_BLOCK) = Some sb \<and>
      validate_merkle_proof E (digest_sha_256 E (pb_piece p)) (pb_piece_proof p) (piece_merkle_root sb)"
    if inj: "inj_on (StateBlock_get_id E) (set (sent_blocks st))" and len: "2 * length (state_sender st) \<le> 2 ^ 64"
      and b: "b \<in> set (state_sender st)" and p: "p \<in> set (piece_bundles b)" for b p
  proof -
    obtain h where h: "h < length (state_sender st)" "b = state_sender st ! h"
      using b by (auto simp: in_set_conv_nth)
    have "bundle_ok E h b" using st(2) h by (simp add: chain_ok_def sent_blocks_def Let_def)
    then have "pb_piece_id p = digest_sha_256 E (pb_piece p)"
      using p by (auto simp: bundle_ok_def in_set_conv_nth Let_def)
    then show ?thesis using piece_proof_checks [OF st(2) h(1) _ len inj, of p] p h(2) by simp
  qed
  then show ?thesis using st(1) by blast
qed

text \<open>
  The genesis state of an even number \<open>n\<close> of pieces: \<open>n div 2\<close> state blocks are sent, nothing
  is left in the buffer, and the returned pieces are numbered from 0 to \<open>n - 1\<close>.
\<close>

theorem genesis_state_exact:
  assumes "sha256_ok E" and "merkle_ok E" and "even n"
  shows "\<exists>st bundles. create_genesis_state E State_new seed n = Ok (st, bundles) \<and>
    pending_state st = [] \<and> length (state_sender st) = n div 2 \<and>
    last_state_block_height st = of_nat (n div 2) \<and> map pb_piece_index bundles = map of_nat [0..<n]"
proof -
  obtain input st bundles where s: "foldR (\<lambda>s _. genesis_step E s) (seed, State_new, []) [0..<n] = Ok (input, st, bundles)"
    and inv: "genesis_inv E n (input, st, bundles)"
    using genesis_loop [OF assms(1,2)] by (metis prod_cases3)
  let ?bs = "state_sender st"
  have c: "chain_ok E st" and l: "length ?bs = n div 2" and b: "bundles = concat (map piece_bundles ?bs)"
    and e: "pending_state st = []" using inv assms(3) by (auto simp: genesis_inv_def)
  have ok: "bundle_ok E i (?bs ! i)" if "i < length ?bs" for i
    using c that by (simp add: chain_ok_def sent_blocks_def Let_def)
  have two: "\<forall>x \<in> set (map piece_bundles ?bs). length x = 2"
    using ok by (auto simp: in_set_conv_nth bundle_ok_def size_consts)
  then have len: "length bundles = n"
    using l assms(3) by (simp add: b length_concat comp_def sum_list_triv cong: map_cong)
  have "pb_piece_index (bundles ! i) = of_nat i" if "i < n" for i
  proof -
    have i: "i div 2 < length ?bs" "i < 2 * length (map piece_bundles ?bs)" using that l assms(3) by auto
    have "bundles ! i = piece_bundles (?bs ! (i div 2)) ! (i mod 2)"
      using concat_pairs_nth [OF two i(2)] i(1) by (simp add: b)
    then have "pb_piece_index (bundles ! i) = of_nat (2 * (i div 2) + i mod 2)"
      using ok [OF i(1)] by (simp add: bundle_ok_def size_consts Let_def del: of_nat_add of_nat_mult)
    then show ?thesis by (simp only: mult_div_mod_eq)
  qed
  then have "map pb_piece_index bundles = map of_nat [0..<n]" using len by (intro nth_equalityI) auto
  moreover have "last_state_block_height st = of_nat (n div 2)"
    using c l by (simp add: chain_ok_def sent_blocks_def Let_def)
  ultimately show ?thesis using s e l assms(3)
    by (simp add: create_genesis_state_def size_consts even_iff_mod_2_eq_zero)
qed

section \<open>A concrete instance\<close>

definition toy_statelib :: statelib where
  "toy_statelib = crypto.extend toy_crypto
     (statelib.fields (\<lambda>b. u64_to_le_bytes (sb_height b) @ piece_merkle_root b @ previous_state_block_id b))"

lemma toy_statelib_ok: "sha256_ok toy_statelib" "merkle_ok toy_statelib"
  by (simp_all add: toy_laws toy_statelib_def toy_crypto_def crypto.defs gmp.defs statelib.defs)


lemma one_block:
  assumes "sha256_ok E" and "merkle_ok E"
  shows "\<exists>st b. add_all E State_new [replicate 8190 1] = Ok st \<and> state_sender st = [b]"
proof -
  let ?d = "replicate 8190 (1 :: byte)"
  have eq: "length (pending_state State_new) + full_len ?d = STATE_BLOCK_SIZE_IN_BYTES"
    by (simp add: State_new_def full_len_def size_consts)
  let ?st = "State_new\<lparr>pending_state := pending_state State_new @ frame_record ?d\<rparr>"
  obtain st b where "emit E ?st = Ok (st, Some b)" "state_sender st = state_sender ?st @ [b]"
    using emit_Ok [OF assms, of ?st] by blast
  moreover have "state_sender ?st = []" by (simp add: State_new_def)
  ultimately show ?thesis by (simp add: add_all_def add_one_def add_data_exact [OF eq])
qed

lemma one_block_chain:
  assumes "sha256_ok E" and "merkle_ok E"
  obtains st b where "add_all E State_new [replicate 8190 1] = Ok st" "state_sender st = [b]" "chain_ok E st"
proof -
  obtain st b where st: "add_all E State_new [replicate 8190 1] = Ok st" "state_sender st = [b]" using one_block [OF assms] by blast
  have "chain_ok E st" by (rule state_run.run_keeps [OF chain_ok_new _ st(1) [unfolded add_all_def]]) (use assms in simp)
  then show thesis using that st by blast
qed

theorem state_pieces_provable_witness:
  "\<exists>st b. add_all toy_statelib State_new [replicate 8190 1] = Ok st \<and> state_sender st = [b] \<and>
     (\<forall>p \<in> set (piece_bundles b).
        \<exists>sb. get_state_block_by_height st (pb_piece_index p div of_nat PIECES_PER_STATE_BLOCK) = Some sb \<and>
          validate_merkle_proof toy_statelib (digest_sha_256 toy_statelib (pb_piece p)) (pb_piece_proof p)
            (piece_merkle_root sb))"
proof -
  obtain st b where st: "add_all toy_statelib State_new [replicate 8190 1] = Ok st" "state_sender st = [b]"
    using one_block [OF toy_statelib_ok] by blast
  then have "inj_on (StateBlock_get_id toy_statelib) (set (sent_blocks st))"
    "2 * length (state_sender st) \<le> 2 ^ 64" by (simp_all add: sent_blocks_def)
  then show ?thesis using state_pieces_provable [OF toy_statelib_ok, of "[replicate 8190 1]"] st by simp
qed

theorem genesis_state_exact_witness:
  "\<exists>st bundles. create_genesis_state toy_statelib State_new [83, 85, 66] GENESIS_PIECE_COUNT = Ok (st, bundles) \<and>
     length (state_sender st) = GENESIS_STATE_BLOCKS \<and> length bundles = 256"
proof -
  let ?n = GENESIS_PIECE_COUNT
  have n: "even ?n" "?n div 2 = GENESIS_STATE_BLOCKS" "?n = 256" by (simp_all add: size_consts)
  obtain st bundles where g: "create_genesis_state toy_statelib State_new [83, 85, 66] ?n = Ok (st, bundles)"
    "length (state_sender st) = ?n div 2" "map pb_piece_index bundles = map of_nat [0..<?n]"
    using genesis_state_exact [OF toy_statelib_ok n(1), of "[83, 85, 66]"] by blast
  from g(3) have "length bundles = ?n" by (metis length_map length_upt minus_nat.diff_0)
  then show ?thesis using g(1,2) n(2,3) by auto
qed

end
