(* ===== verification/Transaction.thy ===== *)
theory Transaction
  imports State
begin

text \<open>
  Transactions and account states (\<^verbatim>\<open>src/transaction.rs\<close>), with the \<^verbatim>\<open>Proof\<close> of
  \<^verbatim>\<open>src/block.rs\<close> that a coinbase transaction is checked against.  Fields are prefixed by their
  struct: \<open>p_\<close> for \<^verbatim>\<open>Proof\<close>, \<open>a_\<close> for \<^verbatim>\<open>AccountState\<close>, \<open>cb_\<close> for \<^verbatim>\<open>CoinbaseTx\<close>, \<open>tx_\<close> for
  \<^verbatim>\<open>SimpleCreditTx\<close>.  The \<^verbatim>\<open>bincode\<close> serialisations are parameters.

  \<^verbatim>\<open>is_valid\<close> of a credit transaction unwraps the decoded key and signature, so it may panic.
\<close>

section \<open>Data\<close>

record Proof =
  p_randomness :: ProofId
  p_epoch :: u64
  p_timeslot :: u64
  p_public_key :: bytes
  p_tag :: Tag
  p_nonce :: u64
  p_piece_index :: u64
  p_solution_range :: u64

record AccountState =
  a_balance :: u64
  a_nonce :: u16

record CoinbaseTx =
  cb_reward :: u64
  cb_to_address :: AccountAddress
  cb_proof_id :: ProofId

record SimpleCreditTx =
  tx_amount :: u64
  tx_from_address :: AccountAddress
  tx_to_address :: AccountAddress
  tx_nonce :: u16
  tx_public_key :: bytes
  tx_signature :: bytes

datatype Transaction = Coinbase CoinbaseTx | Credit SimpleCreditTx

record txlib = statelib +
  ser_proof :: "Proof \<Rightarrow> bytes"
  ser_coinbase :: "CoinbaseTx \<Rightarrow> bytes"
  ser_credit :: "SimpleCreditTx \<Rightarrow> bytes"

section \<open>Operations\<close>

definition Proof_get_id :: "'z txlib_scheme \<Rightarrow> Proof \<Rightarrow> ProofId" where
  "Proof_get_id E p = digest_sha_256 E (ser_proof E p)"

definition CoinbaseTx_new :: "'z txlib_scheme \<Rightarrow> u64 \<Rightarrow> bytes \<Rightarrow> ProofId \<Rightarrow> CoinbaseTx" where
  "CoinbaseTx_new E reward public_key proof_id =
     \<lparr>cb_reward = reward, cb_to_address = digest_sha_256 E public_key, cb_proof_id = proof_id\<rparr>"

definition CoinbaseTx_get_id :: "'z txlib_scheme \<Rightarrow> CoinbaseTx \<Rightarrow> TxId" where
  "CoinbaseTx_get_id E tx = digest_sha_256 E (ser_coinbase E tx)"

definition CoinbaseTx_is_valid :: "'z txlib_scheme \<Rightarrow> CoinbaseTx \<Rightarrow> Proof \<Rightarrow> bool" where
  "CoinbaseTx_is_valid E tx proof =
     (if cb_reward tx \<noteq> BLOCK_REWARD then False
      else if cb_proof_id tx \<noteq> Proof_get_id E proof then False
      else if cb_to_address tx \<noteq> digest_sha_256 E (p_public_key proof) then False
      else True)"

definition SimpleCreditTx_get_id :: "'z txlib_scheme \<Rightarrow> SimpleCreditTx \<Rightarrow> TxId" where
  "SimpleCreditTx_get_id E tx = digest_sha_256 E (ser_credit E tx)"

definition SimpleCreditTx_new ::
  "'z txlib_scheme \<Rightarrow> u64 \<Rightarrow> AccountAddress \<Rightarrow> u16 \<Rightarrow> Keypair \<Rightarrow> SimpleCreditTx" where
  "SimpleCreditTx_new E amount to_address nonce keys =
     (let from_address = digest_sha_256 E (public keys);
          tx = \<lparr>tx_amount = amount, tx_from_address = from_address, tx_to_address = to_address,
                tx_nonce = nonce, tx_public_key = public keys, tx_signature = []\<rparr>;
          signature = sign E keys (SimpleCreditTx_get_id E tx)
      in tx\<lparr>tx_signature := signature\<rparr>)"

text \<open>\<^verbatim>\<open>PublicKey::from_bytes(..).unwrap()\<close> and \<^verbatim>\<open>Signature::from_bytes(..).unwrap()\<close>.\<close>

definition unwrap_public_key :: "'z crypto_scheme \<Rightarrow> bytes \<Rightarrow> bytes res" where
  "unwrap_public_key E pk = (if public_key_ok E pk then Ok pk else Panic Unwrap)"

definition unwrap_signature :: "'z crypto_scheme \<Rightarrow> bytes \<Rightarrow> bytes res" where
  "unwrap_signature E sg = (if signature_ok E sg then Ok sg else Panic Unwrap)"

definition SimpleCreditTx_is_valid ::
  "'z txlib_scheme \<Rightarrow> SimpleCreditTx \<Rightarrow> AccountState option \<Rightarrow> bool res" where
  "SimpleCreditTx_is_valid E tx from_account_state =
     (case from_account_state of
        None \<Rightarrow> Ok False
      | Some acc \<Rightarrow>
          if a_balance acc < tx_amount tx then Ok False
          else if tx_nonce tx \<le> a_nonce acc then Ok False
          else if tx_from_address tx \<noteq> digest_sha_256 E (tx_public_key tx) then Ok False
          else
            (let unsigned_tx = tx\<lparr>tx_signature := []\<rparr>
             in bindR (unwrap_public_key E (tx_public_key tx)) (\<lambda>public_key.
                bindR (unwrap_signature E (tx_signature tx)) (\<lambda>signature.
                Ok (verify_strict E public_key (SimpleCreditTx_get_id E unsigned_tx) signature)))))"

section \<open>Properties\<close>

lemma unwrap_key_Ok_iff [simp]:
  "unwrap_public_key E pk = Ok x \<longleftrightarrow> public_key_ok E pk \<and> x = pk"
  "unwrap_signature E sg = Ok y \<longleftrightarrow> signature_ok E sg \<and> y = sg"
  by (auto simp: unwrap_public_key_def unwrap_signature_def)

lemma unwrap_key_simps [simp]:
  "public_key_ok E pk \<Longrightarrow> unwrap_public_key E pk = Ok pk"
  "signature_ok E sg \<Longrightarrow> unwrap_signature E sg = Ok sg"
  "\<not> public_key_ok E pk \<Longrightarrow> unwrap_public_key E pk = Panic Unwrap"
  "\<not> signature_ok E sg \<Longrightarrow> unwrap_signature E sg = Panic Unwrap"
  by (simp_all add: unwrap_public_key_def unwrap_signature_def)

lemma CoinbaseTx_valid_iff:
  "CoinbaseTx_is_valid E tx proof \<longleftrightarrow>
     tx = CoinbaseTx_new E BLOCK_REWARD (p_public_key proof) (Proof_get_id E proof)"
  by (cases tx) (auto simp: CoinbaseTx_is_valid_def CoinbaseTx_new_def)

lemma SimpleCreditTx_valid_iff:
  "SimpleCreditTx_is_valid E tx acc = Ok True \<longleftrightarrow>
     (\<exists>a. acc = Some a \<and> tx_amount tx \<le> a_balance a \<and> a_nonce a < tx_nonce tx \<and>
        tx_from_address tx = digest_sha_256 E (tx_public_key tx) \<and>
        public_key_ok E (tx_public_key tx) \<and> signature_ok E (tx_signature tx) \<and>
        verify_strict E (tx_public_key tx) (SimpleCreditTx_get_id E (tx\<lparr>tx_signature := []\<rparr>)) (tx_signature tx))"
  by (auto simp: SimpleCreditTx_is_valid_def Let_def bindR_Ok_iff not_le not_less split: option.splits if_splits)

lemma SimpleCreditTx_new_valid:
  assumes "ed25519_ok E keys" and "amount \<le> a_balance acc" and "a_nonce acc < nonce"
  shows "SimpleCreditTx_is_valid E (SimpleCreditTx_new E amount to_address nonce keys) (Some acc) = Ok True"
  using assms by (simp add: SimpleCreditTx_valid_iff SimpleCreditTx_new_def ed25519_ok_def Let_def)


section \<open>A concrete instance\<close>

definition toy_ser_proof :: "Proof \<Rightarrow> bytes" where
  "toy_ser_proof p = u64_to_le_bytes (p_timeslot p) @ p_tag p @ u64_to_le_bytes (p_piece_index p) @ p_public_key p"

definition toy_ser_coinbase :: "CoinbaseTx \<Rightarrow> bytes" where
  "toy_ser_coinbase tx = 1 # cb_proof_id tx @ cb_to_address tx @ u64_to_le_bytes (cb_reward tx)"

definition toy_ser_credit :: "SimpleCreditTx \<Rightarrow> bytes" where
  "toy_ser_credit tx = 2 # u16_to_le_bytes (tx_nonce tx) @ u64_to_le_bytes (tx_amount tx) @ tx_from_address tx"

definition toy_txlib :: txlib where
  "toy_txlib = statelib.extend toy_statelib (txlib.fields toy_ser_proof toy_ser_coinbase toy_ser_credit)"

definition toy_keys :: Keypair where
  "toy_keys = \<lparr>public = replicate 32 7, secret = replicate 32 9\<rparr>"

lemmas toy_defs = toy_txlib_def toy_statelib_def toy_crypto_def gmp.defs crypto.defs statelib.defs txlib.defs

lemma toy_txlib_keys: "ed25519_ok toy_txlib toy_keys"
  by (simp add: toy_laws(3) toy_defs toy_keys_def)


end
