(* ===== verification/Block.thy ===== *)
theory Block
  imports Transaction
begin

text \<open>
  Blocks and their validation (\<^verbatim>\<open>src/block.rs\<close>).  Fields are prefixed by their struct: \<open>c_\<close> for
  \<^verbatim>\<open>Content\<close>, \<open>d_\<close> for \<^verbatim>\<open>Data\<close>, \<open>b_\<close> for \<^verbatim>\<open>Block\<close>.  \<^verbatim>\<open>is_valid\<close> returns \<open>Ok b\<close> or the panic that the
  code ends in; every early return and every panic of the source is a branch.
\<close>

section \<open>Data\<close>

record Content =
  c_proof_id :: ProofId
  c_parent_id :: "ContentId option"
  c_proof_signature :: bytes
  c_timestamp :: u64
  c_refs :: "bytes list"
  c_signature :: bytes

record Data =
  d_encoding :: bytes
  d_merkle_proof :: bytes
  d_piece_hash :: bytes

record Block =
  b_proof :: Proof
  b_coinbase_tx :: CoinbaseTx
  b_content :: Content
  b_data :: "Data option"

record blocklib = txlib +
  ser_content :: "Content \<Rightarrow> bytes"
  ser_block :: "Block \<Rightarrow> bytes"

section \<open>Operations\<close>

definition Content_get_id :: "'z blocklib_scheme \<Rightarrow> Content \<Rightarrow> ContentId" where
  "Content_get_id E c = digest_sha_256 E (ser_content E c)"

definition Block_get_id :: "'z blocklib_scheme \<Rightarrow> Block \<Rightarrow> BlockId" where
  "Block_get_id E b = digest_sha_256 E (ser_block E b)"

text \<open>
  The sortition test, which the source writes out once for each kind of block: the tag against
  \<open>target\<close> plus and minus half the range, with the case of a wrapped bound apart.
\<close>

definition within_solution_range :: "u64 \<Rightarrow> u64 \<Rightarrow> u64 \<Rightarrow> bool" where
  "within_solution_range target solution_range tag =
     (let (lower, is_lower_overflowed) = overflowing_sub target (solution_range div 2);
          (upper, is_upper_overflowed) = overflowing_add target (solution_range div 2)
      in if is_lower_overflowed \<or> is_upper_overflowed then upper \<le> tag \<or> tag \<le> lower
         else lower \<le> tag \<and> tag \<le> upper)"

definition is_sortitioned :: "Block \<Rightarrow> bytes \<Rightarrow> bool" where
  "is_sortitioned b slot_challenge =
     (let target = u64_from_be_bytes (take 8 slot_challenge);
          tag = u64_from_be_bytes (p_tag (b_proof b));
          solution_range = p_solution_range (b_proof b)
      in if c_parent_id (b_content b) \<noteq> None
         then within_solution_range target (solution_range div (TX_BLOCKS_PER_PROPOSER_BLOCK + 1)) tag
         else within_solution_range target solution_range tag)"

text \<open>The part of \<^verbatim>\<open>is_valid\<close> after the sortition test (the tag is compared but not enforced).\<close>

definition is_encoding_valid :: "'z blocklib_scheme \<Rightarrow> Sloth \<Rightarrow> State \<Rightarrow> Proof \<Rightarrow> Data \<Rightarrow> bool res" where
  "is_encoding_valid E sloth state proof data =
     (let state_block_index = p_piece_index proof div of_nat PIECES_PER_STATE_BLOCK
      in bindR (unwrap (get_state_block_by_height state state_block_index)) (\<lambda>state_block.
         if \<not> validate_merkle_proof E (d_piece_hash data) (d_merkle_proof data) (piece_merkle_root state_block)
         then Ok False
         else
           (let expanded_iv = expand_iv E (digest_sha_256 E (p_public_key proof))
            in bindR (decode E sloth (d_encoding data) expanded_iv ENCODING_LAYERS_TEST) (\<lambda>decoding.
               Ok (d_piece_hash data = digest_sha_256 E decoding)))))"

definition Block_is_valid ::
  "'z blocklib_scheme \<Rightarrow> Block \<Rightarrow> State \<Rightarrow> bytes \<Rightarrow> bytes \<Rightarrow> Sloth \<Rightarrow> bool res" where
  "Block_is_valid E b state epoch_randomness slot_challenge sloth =
     (let proof = b_proof b; content = b_content b; coinbase_tx = b_coinbase_tx b
      in case b_data b of
        None \<Rightarrow> Ok False
      | Some data \<Rightarrow>
        if c_proof_id content \<noteq> Proof_get_id E proof then Ok False else
        bindR (unwrap_public_key E (p_public_key proof)) (\<lambda>public_key.
        bindR (unwrap_signature E (c_proof_signature content)) (\<lambda>proof_signature.
        if \<not> verify_strict E public_key (Proof_get_id E proof) proof_signature then Ok False else
        bindR (unwrap_signature E (c_signature content)) (\<lambda>content_signature.
        if \<not> verify_strict E public_key (Content_get_id E (content\<lparr>c_signature := []\<rparr>)) content_signature
        then Ok False
        else if \<not> CoinbaseTx_is_valid E coinbase_tx proof then Ok False else
        bindR (index (c_refs content) 0) (\<lambda>first_ref.
        if CoinbaseTx_get_id E coinbase_tx \<noteq> first_ref then Ok False
        else if epoch_randomness \<noteq> p_randomness proof then Ok False
        else if \<not> is_sortitioned b slot_challenge then Ok False
        else is_encoding_valid E sloth state proof data)))))"

section \<open>Sortition\<close>

text \<open>Distance around the circle of 64-bit values.\<close>

definition circular_near :: "u64 \<Rightarrow> u64 \<Rightarrow> u64 \<Rightarrow> bool" where
  "circular_near target half tag \<longleftrightarrow> tag - target \<le> half \<or> target - tag \<le> half"

lemma unat_half: "2 * unat (r div 2 :: u64) < 2 ^ 64"
  using unat_bound [of r] by (simp add: unat_div)

lemma within_solution_range_plain:
  assumes "unat (r div 2) \<le> unat t" and "unat t + unat (r div 2) < 2 ^ 64"
  shows "within_solution_range t r g \<longleftrightarrow>
           unat t \<le> unat g + unat (r div 2) \<and> unat g \<le> unat t + unat (r div 2)"
proof -
  have "\<not> snd (overflowing_sub t (r div 2))" "\<not> snd (overflowing_add t (r div 2))"
    using assms by (simp_all only: overflowing_sub_iff overflowing_add_iff not_less not_le)
  moreover have "unat (t - r div 2) = unat t - unat (r div 2)" "unat (t + r div 2) = unat t + unat (r div 2)"
    using assms by (simp_all add: unat_sub word_le_nat_alt unat_word_ariths)
  ultimately show ?thesis
    by (auto simp: within_solution_range_def overflowing_sub_def overflowing_add_def word_le_nat_alt)
qed

lemma wrapped_bounds:
  fixes t h :: u64
  assumes h: "2 * unat h < 2 ^ 64" and w: "unat t < unat h \<or> 2 ^ 64 \<le> unat t + unat h"
  shows "unat (t + h) \<le> unat (t - h)"
proof (cases "unat t < unat h")
  case True
  then have "unat (t - h) = unat t + 2 ^ 64 - unat h" by (simp add: unat_sub_if')
  moreover have "unat (t + h) \<le> unat t + unat h" by (simp add: unat_word_ariths)
  ultimately show ?thesis using h by linarith
next
  case False
  then have "unat (t - h) = unat t - unat h" by (simp add: unat_sub_if')
  moreover have "unat (t + h) = unat t + unat h - 2 ^ 64"
    using False w unat_bound [of t] unat_bound [of h] by (simp add: unat_word_ariths mod_if)
  ultimately show ?thesis using h False by linarith
qed

lemma within_solution_range_wrapped:
  assumes "unat t < unat (r div 2) \<or> 2 ^ 64 \<le> unat t + unat (r div 2)"
  shows "within_solution_range t r g"
proof -
  have flag: "snd (overflowing_sub t (r div 2)) \<or> snd (overflowing_add t (r div 2))"
    using assms by (simp only: overflowing_sub_iff overflowing_add_iff)
  have "t + r div 2 \<le> g \<or> g \<le> t - r div 2"
    using wrapped_bounds [OF unat_half assms] unfolding word_le_nat_alt by linarith
  then show ?thesis using flag
    by (auto simp: within_solution_range_def overflowing_sub_def overflowing_add_def)
qed

lemma circular_near_plain:
  assumes "unat h \<le> unat t" and "unat t + unat h < 2 ^ 64"
  shows "circular_near t h g \<longleftrightarrow> unat t \<le> unat g + unat h \<and> unat g \<le> unat t + unat h"
  using assms unat_bound [of g] unat_bound [of t]
  by (auto simp: circular_near_def word_le_nat_alt unat_sub_if')

text \<open>
  \<^bold>\<open>C29\<close>.  What the sortition test accepts: the tags within half the range of the target on the circle,
  and, whenever the interval around the target crosses zero, every tag at all.
\<close>

theorem sortition_accepts:
  "within_solution_range target r tag \<longleftrightarrow>
     unat target < unat (r div 2) \<or> 2 ^ 64 \<le> unat target + unat (r div 2) \<or>
     circular_near target (r div 2) tag"
proof (cases "unat target < unat (r div 2) \<or> 2 ^ 64 \<le> unat target + unat (r div 2)")
  case True
  then show ?thesis using within_solution_range_wrapped by blast
next
  case False
  then show ?thesis
    using within_solution_range_plain [of r target tag] circular_near_plain [of "r div 2" target tag] by auto
qed

section \<open>Validity\<close>

lemma encoding_valid_iff:
  "is_encoding_valid E sloth state proof data = Ok True \<longleftrightarrow>
     (\<exists>sb decoding. get_state_block_by_height state (p_piece_index proof div of_nat PIECES_PER_STATE_BLOCK) = Some sb \<and>
        validate_merkle_proof E (d_piece_hash data) (d_merkle_proof data) (piece_merkle_root sb) \<and>
        decode E sloth (d_encoding data) (expand_iv E (digest_sha_256 E (p_public_key proof))) ENCODING_LAYERS_TEST
          = Ok decoding \<and>
        d_piece_hash data = digest_sha_256 E decoding)"
  by (auto simp: is_encoding_valid_def Let_def bindR_Ok_iff split: if_splits)

lemma Block_is_valid_iff:
  "Block_is_valid E b state epoch_randomness slot_challenge sloth = Ok True \<longleftrightarrow>
     (\<exists>data rest sb decoding. let p = b_proof b; c = b_content b; pid = Proof_get_id E p in
        b_data b = Some data \<and> c_proof_id c = pid \<and> public_key_ok E (p_public_key p) \<and>
        signature_ok E (c_proof_signature c) \<and> verify_strict E (p_public_key p) pid (c_proof_signature c) \<and>
        signature_ok E (c_signature c) \<and>
        verify_strict E (p_public_key p) (Content_get_id E (c\<lparr>c_signature := []\<rparr>)) (c_signature c) \<and>
        b_coinbase_tx b = CoinbaseTx_new E BLOCK_REWARD (p_public_key p) pid \<and>
        c_refs c = CoinbaseTx_get_id E (b_coinbase_tx b) # rest \<and>
        epoch_randomness = p_randomness p \<and> is_sortitioned b slot_challenge \<and>
        get_state_block_by_height state (p_piece_index p div of_nat PIECES_PER_STATE_BLOCK) = Some sb \<and>
        validate_merkle_proof E (d_piece_hash data) (d_merkle_proof data) (piece_merkle_root sb) \<and>
        decode E sloth (d_encoding data) (expand_iv E (digest_sha_256 E (p_public_key p))) ENCODING_LAYERS_TEST
          = Ok decoding \<and>
        d_piece_hash data = digest_sha_256 E decoding)"
proof -
  have ref: "index xs 0 = Ok x \<longleftrightarrow> (\<exists>rest. xs = x # rest)" for xs :: "bytes list" and x
    by (cases xs) (auto simp: index_def)
  show ?thesis
    by (auto simp: Block_is_valid_def Let_def bindR_Ok_iff CoinbaseTx_valid_iff encoding_valid_iff ref
        split: option.splits if_splits)
qed


text \<open>
  Validation panics only on malformed input: with a well-formed key and signatures, at least one
  reference, a known state block and an encoding of the size of a piece, it returns.
\<close>

theorem block_validation_total:
  assumes "public_key_ok E (p_public_key (b_proof b))" and "signature_ok E (c_proof_signature (b_content b))"
    and "signature_ok E (c_signature (b_content b))" and "c_refs (b_content b) \<noteq> []"
    and "get_state_block_by_height state (p_piece_index (b_proof b) div of_nat PIECES_PER_STATE_BLOCK) \<noteq> None"
    and "\<forall>data. b_data b = Some data \<longrightarrow> PIECE_SIZE \<le> length (d_encoding data)"
    and "0 < block_size_bytes sloth" and "2 * block_size_bytes sloth \<le> PIECE_SIZE"
  shows "\<exists>v. Block_is_valid E b state epoch_randomness slot_challenge sloth = Ok v"
proof -
  have dec: "\<exists>y. decode E sloth (d_encoding data) iv ENCODING_LAYERS_TEST = Ok y"
    if "b_data b = Some data" for data iv
    using that assms(6-8) by (intro decode_total) (auto simp: ENCODING_LAYERS_TEST_def)
  obtain sb where "get_state_block_by_height state (p_piece_index (b_proof b) div of_nat PIECES_PER_STATE_BLOCK) = Some sb"
    using assms(5) by blast
  then have enc: "\<exists>v. is_encoding_valid E sloth state (b_proof b) data = Ok v" if "b_data b = Some data" for data
    using dec [OF that, of "expand_iv E (digest_sha_256 E (p_public_key (b_proof b)))"]
    by (auto simp: is_encoding_valid_def Let_def)
  show ?thesis using assms(1-4) enc
    by (cases "c_refs (b_content b)") (auto simp: Block_is_valid_def Let_def split: option.splits)
qed

section \<open>A concrete instance\<close>

definition toy_ser_content :: "Content \<Rightarrow> bytes" where
  "toy_ser_content c = take 16 (c_proof_id c) @ u64_to_le_bytes (c_timestamp c) @ c_signature c @ concat (c_refs c)"

definition toy_ser_block :: "Block \<Rightarrow> bytes" where
  "toy_ser_block b = toy_ser_content (b_content b) @ toy_ser_proof (b_proof b)"

definition toy_blocklib :: blocklib where
  "toy_blocklib = txlib.extend toy_txlib (blocklib.fields toy_ser_content toy_ser_block)"

definition toy_block :: "ContentId option \<Rightarrow> bytes list \<Rightarrow> Block" where
  "toy_block parent rs =
     \<lparr>b_proof = \<lparr>p_randomness = replicate 32 0, p_epoch = 0, p_timeslot = 1, p_public_key = public toy_keys,
        p_tag = replicate 8 0, p_nonce = 0, p_piece_index = 0, p_solution_range = 0\<rparr>,
      b_coinbase_tx = \<lparr>cb_reward = 1, cb_to_address = [], cb_proof_id = []\<rparr>,
      b_content = \<lparr>c_proof_id = [], c_parent_id = parent, c_proof_signature = replicate 64 0, c_timestamp = 0,
        c_refs = rs, c_signature = replicate 64 0\<rparr>,
      b_data = Some \<lparr>d_encoding = replicate 4096 0, d_merkle_proof = [], d_piece_hash = []\<rparr>\<rparr>"

definition toy_state :: State where
  "toy_state = save_state_block toy_statelib State_new
     \<lparr>previous_state_block_id = replicate 32 0, piece_merkle_root = replicate 32 0, sb_height = 0\<rparr>"

theorem block_validation_total_witness:
  "\<exists>v. Block_is_valid toy_blocklib (toy_block None [[]]) toy_state (replicate 32 0) (replicate 32 0) small_sloth = Ok v"
proof (rule block_validation_total)
  show "get_state_block_by_height toy_state
      (p_piece_index (b_proof (toy_block None [[]])) div of_nat PIECES_PER_STATE_BLOCK) \<noteq> None"
    by (simp add: toy_state_def save_state_block_def get_state_block_by_height_def get_state_block_by_id_def
        toy_block_def Let_def)
  show "2 * block_size_bytes small_sloth \<le> PIECE_SIZE" by (simp add: small_sloth_def PIECE_SIZE_def)
qed (simp_all add: toy_block_def toy_blocklib_def blocklib.defs toy_defs toy_keys_def small_sloth_def PIECE_SIZE_def)

end
