(* ===== verification/Plot.thy ===== *)
theory Plot
  imports Block
begin

text \<open>
  The plot (\<^verbatim>\<open>src/plot.rs\<close>): a file of encodings, a database from piece index to position and Merkle
  proof, a database from tag to piece index, and a task that serves requests from two queues.
  RocksDB and the file system are parameters (\<open>storage\<close>), with their documented behaviour as
  \<open>storage_ok\<close>.

  Main results: a written piece is read back and no other piece changes; the search returns exactly
  the stored tags on the arc around the target, also when the arc crosses zero; no request waits
  for a wake-up that never comes, and a round of the task answers every read.
\<close>

section \<open>Storage\<close>


text \<open>
  \<open>db_get\<close>, \<open>db_put\<close> and \<open>db_delete\<close> give \<open>None\<close> on an error of the database; \<open>db_entries\<close> is
  what an iterator visits from the start and \<open>db_seek\<close> what it visits after a seek.
  \<open>file_write\<close> appends: it gives the file afterwards and the error, if any.
\<close>

record 'd storage =
  db_get :: "'d \<Rightarrow> bytes \<Rightarrow> bytes option option"
  db_put :: "'d \<Rightarrow> bytes \<Rightarrow> bytes \<Rightarrow> 'd option"
  db_delete :: "'d \<Rightarrow> bytes \<Rightarrow> 'd option"
  db_entries :: "'d \<Rightarrow> (bytes \<times> bytes) list"
  db_seek :: "'d \<Rightarrow> bytes \<Rightarrow> (bytes \<times> bytes) list"
  file_write :: "bytes \<Rightarrow> bytes \<Rightarrow> bytes \<times> io_error option"

text \<open>Keys are ordered byte by byte.\<close>

fun bytes_less :: "bytes \<Rightarrow> bytes \<Rightarrow> bool" where
  "bytes_less _ [] \<longleftrightarrow> False"
| "bytes_less [] (y # ys) \<longleftrightarrow> True"
| "bytes_less (x # xs) (y # ys) \<longleftrightarrow> x < y \<or> x = y \<and> bytes_less xs ys"

definition db_ok :: "('d, 'z) storage_scheme \<Rightarrow> bool" where
  "db_ok D \<longleftrightarrow>
     (\<forall>d. sorted_wrt (\<lambda>a b. bytes_less (fst a) (fst b)) (db_entries D d)) \<and>
     (\<forall>d k. db_get D d k = Some (map_of (db_entries D d) k)) \<and>
     (\<forall>d k v. \<exists>d'. db_put D d k v = Some d' \<and> map_of (db_entries D d') = (map_of (db_entries D d))(k \<mapsto> v)) \<and>
     (\<forall>d k. \<exists>d'. db_delete D d k = Some d' \<and> map_of (db_entries D d') = (map_of (db_entries D d))(k := None)) \<and>
     (\<forall>d k. db_seek D d k = dropWhile (\<lambda>e. bytes_less (fst e) k) (db_entries D d))"

text \<open>A disk that is healthy: nothing fails.\<close>

definition storage_ok :: "('d, 'z) storage_scheme \<Rightarrow> bool" where
  "storage_ok D \<longleftrightarrow> db_ok D \<and> (\<forall>file bs. file_write D file bs = (file @ bs, None))"

definition hmac_ok :: "'z crypto_scheme \<Rightarrow> bool" where
  "hmac_ok E \<longleftrightarrow> (\<forall>k m. length (hmac_sha256 E k m) = 32)"

section \<open>State and requests\<close>

record 'd PlotState =
  plot_file :: bytes
  map_db :: 'd
  tags_db :: 'd

datatype PlotCreationError = PlotOpen io_error | PlotMapOpen string | PlotTagsOpen string | MapRead io_error

text \<open>The three openings in order; the first that fails is reported.\<close>

definition open_or_create ::
  "io_error + bytes \<Rightarrow> string + 'd \<Rightarrow> string + 'd \<Rightarrow> PlotCreationError + 'd PlotState" where
  "open_or_create plot_bin plot_map plot_tags =
     (case plot_bin of Inl e \<Rightarrow> Inl (PlotOpen e) | Inr file \<Rightarrow>
      case plot_map of Inl e \<Rightarrow> Inl (PlotMapOpen e) | Inr pieces \<Rightarrow>
      case plot_tags of Inl e \<Rightarrow> Inl (PlotTagsOpen e) | Inr tags \<Rightarrow>
      Inr \<lparr>plot_file = file, map_db = pieces, tags_db = tags\<rparr>)"

datatype ReadRequests = IsEmpty | ReadEncoding u64 | FindByRange Tag u64

datatype WriteRequests = WriteEncoding Piece u64 u64 bytes | RemoveEncoding u64

datatype read_result = EmptyResult bool | ReadResult "io_error + Piece \<times> bytes" | FindResult "io_error + (Tag \<times> u64) list"

type_synonym write_result = "io_error + unit"

section \<open>Serving a read request\<close>

definition is_empty_request :: "('d, 'z) storage_scheme \<Rightarrow> 'd PlotState \<Rightarrow> bool" where
  "is_empty_request D p \<longleftrightarrow> db_entries D (map_db p) = []"

text \<open>\<^verbatim>\<open>seek\<close> to a position, which may be behind the end, and \<^verbatim>\<open>read_exact\<close>.\<close>

definition read_exact :: "bytes \<Rightarrow> nat \<Rightarrow> nat \<Rightarrow> io_error + bytes" where
  "read_exact file pos n =
     (let buffer = take n (drop pos file) in if length buffer < n then Inl UnexpectedEof else Inr buffer)"

text \<open>The first eight bytes of a value are the position; a shorter value is out of range.\<close>

definition piece_data :: "bytes \<Rightarrow> (u64 \<times> bytes) res" where
  "piece_data raw = (if length raw < 8 then Panic OutOfBounds else Ok (u64_from_le_bytes (take 8 raw), drop 8 raw))"

definition read_encoding :: "('d, 'z) storage_scheme \<Rightarrow> 'd PlotState \<Rightarrow> u64 \<Rightarrow> (io_error + Piece \<times> bytes) res" where
  "read_encoding D p i =
     bindR (unwrap (db_get D (map_db p) (u64_to_le_bytes i))) (\<lambda>found.
     case found of
       None \<Rightarrow> Ok (Inl NotFound)
     | Some raw \<Rightarrow>
         bindR (piece_data raw) (\<lambda>(pos, merkle_proof).
         Ok (bindR (read_exact (plot_file p) (unat pos) PIECE_SIZE) (\<lambda>buffer. Inr (buffer, merkle_proof)))))"

text \<open>
  The loops over an iterator: an entry whose tag, or whose index when it is taken, is not eight
  bytes long panics.
\<close>

definition to_array8 :: "bytes \<Rightarrow> bytes res" where
  "to_array8 bs = (if length bs = 8 then Ok bs else Panic Unwrap)"

fun scan_upto :: "u64 \<Rightarrow> (bytes \<times> bytes) list \<Rightarrow> (Tag \<times> u64) list res" where
  "scan_upto upper [] = Ok []"
| "scan_upto upper ((key, val) # rest) =
     bindR (to_array8 key) (\<lambda>tag.
     if u64_from_be_bytes tag \<le> upper then
       bindR (to_array8 val) (\<lambda>i.
       bindR (scan_upto upper rest) (\<lambda>found. Ok ((tag, u64_from_le_bytes i) # found)))
     else Ok [])"

fun scan_all :: "(bytes \<times> bytes) list \<Rightarrow> (Tag \<times> u64) list res" where
  "scan_all [] = Ok []"
| "scan_all ((key, val) # rest) =
     bindR (to_array8 key) (\<lambda>tag.
     bindR (to_array8 val) (\<lambda>i.
     bindR (scan_all rest) (\<lambda>found. Ok ((tag, u64_from_le_bytes i) # found))))"

definition find_by_range :: "('d, 'z) storage_scheme \<Rightarrow> 'd PlotState \<Rightarrow> Tag \<Rightarrow> u64 \<Rightarrow> (Tag \<times> u64) list res" where
  "find_by_range D p target solution_range =
     (let (lower, is_lower_overflowed) = overflowing_sub (u64_from_be_bytes target) (solution_range div 2);
          (upper, is_upper_overflowed) = overflowing_add (u64_from_be_bytes target) (solution_range div 2)
      in if is_lower_overflowed \<or> is_upper_overflowed then
           bindR (scan_upto upper (db_entries D (tags_db p))) (\<lambda>first.
           bindR (scan_all (db_seek D (tags_db p) (u64_to_be_bytes lower))) (\<lambda>second. Ok (first @ second)))
         else scan_upto upper (db_seek D (tags_db p) (u64_to_be_bytes lower)))"

fun serve_read :: "('d, 'z) storage_scheme \<Rightarrow> 'd PlotState \<Rightarrow> ReadRequests \<Rightarrow> read_result res" where
  "serve_read D p IsEmpty = Ok (EmptyResult (is_empty_request D p))"
| "serve_read D p (ReadEncoding i) = bindR (read_encoding D p i) (\<lambda>r. Ok (ReadResult r))"
| "serve_read D p (FindByRange target solution_range) =
     bindR (find_by_range D p target solution_range) (\<lambda>solutions. Ok (FindResult (Inr solutions)))"

section \<open>Serving a write request\<close>

text \<open>
  The old entry of the index is deleted first; if the file then fails, the entry is not put back.
\<close>

definition write_encoding ::
  "'e crypto_scheme \<Rightarrow> ('d, 'z) storage_scheme \<Rightarrow> 'd PlotState \<Rightarrow> Piece \<Rightarrow> u64 \<Rightarrow> u64 \<Rightarrow> bytes \<Rightarrow>
     ('d PlotState \<times> write_result) res" where
  "write_encoding E D p encoding nonce i merkle_proof =
     bindR (unwrap (db_delete D (map_db p) (u64_to_le_bytes i))) (\<lambda>cleared.
     let pos = of_nat (length (plot_file p)) :: u64;
         (file, err) = file_write D (plot_file p) encoding
     in case err of
          Some e \<Rightarrow> Ok (p\<lparr>plot_file := file, map_db := cleared\<rparr>, Inl e)
        | None \<Rightarrow>
            (let tag = take 8 (create_hmac E encoding (u64_to_le_bytes nonce))
             in bindR (unwrap (db_put D (tags_db p) tag (u64_to_le_bytes i))) (\<lambda>tags.
                bindR (unwrap (db_put D cleared (u64_to_le_bytes i) (u64_to_le_bytes pos @ merkle_proof))) (\<lambda>pieces.
                Ok (p\<lparr>plot_file := file, map_db := pieces, tags_db := tags\<rparr>, Inr ())))))"

definition remove_encoding :: "('d, 'z) storage_scheme \<Rightarrow> 'd PlotState \<Rightarrow> u64 \<Rightarrow> ('d PlotState \<times> write_result) res" where
  "remove_encoding D p i =
     bindR (unwrap (db_delete D (map_db p) (u64_to_le_bytes i))) (\<lambda>cleared. Ok (p\<lparr>map_db := cleared\<rparr>, Inr ()))"

fun serve_write ::
  "'e crypto_scheme \<Rightarrow> ('d, 'z) storage_scheme \<Rightarrow> 'd PlotState \<Rightarrow> WriteRequests \<Rightarrow> ('d PlotState \<times> write_result) res" where
  "serve_write E D p (WriteEncoding encoding nonce i merkle_proof) = write_encoding E D p encoding nonce i merkle_proof"
| "serve_write E D p (RemoveEncoding i) = remove_encoding D p i"

section \<open>The task\<close>

text \<open>
  A queued request carries the number of its reply channel.  The task waits for a signal
  (\<open>Waiting\<close>), serves all reads (\<open>Reading\<close>), then at most one write (\<open>Writing\<close>); the flag of
  the last two is \<^verbatim>\<open>did_nothing\<close>.  A caller queues its request and then signals:
  \<open>signalling\<close> counts the callers in between.  \<open>signals\<close> counts what is in the channel of
  signals; a signal that finds the channel full is dropped.
\<close>

datatype phase = Waiting | Reading bool | Writing bool

record 'd Task =
  tplot :: "'d PlotState"
  reads :: "(nat \<times> ReadRequests) list"
  writes :: "(nat \<times> WriteRequests) list"
  read_replies :: "(nat \<times> read_result) list"
  write_replies :: "(nat \<times> write_result) list"
  signals :: nat
  signalling :: nat
  phase :: phase

definition task_start :: "'d PlotState \<Rightarrow> 'd Task" where
  "task_start p = \<lparr>tplot = p, reads = [], writes = [], read_replies = [], write_replies = [], signals = 0, signalling = 0,
     phase = Waiting\<rparr>"

text \<open>One step of the task; \<open>None\<close> when it waits.\<close>

definition task_step ::
  "'e crypto_scheme \<Rightarrow> ('d, 'z) storage_scheme \<Rightarrow> 'd Task \<Rightarrow> 'd Task option res" where
  "task_step E D t =
     (case phase t of
        Waiting \<Rightarrow> Ok (if signals t = 0 then None else Some (t\<lparr>signals := signals t - 1, phase := Reading True\<rparr>))
      | Reading did_nothing \<Rightarrow>
          (case reads t of
             (n, r) # rest \<Rightarrow>
               bindR (serve_read D (tplot t) r) (\<lambda>reply.
               Ok (Some (t\<lparr>reads := rest, read_replies := read_replies t @ [(n, reply)], phase := Reading False\<rparr>)))
           | [] \<Rightarrow> Ok (Some (t\<lparr>phase := Writing did_nothing\<rparr>)))
      | Writing did_nothing \<Rightarrow>
          (case writes t of
             (n, w) # rest \<Rightarrow>
               bindR (serve_write E D (tplot t) w) (\<lambda>(p, reply).
               Ok (Some (t\<lparr>tplot := p, writes := rest, write_replies := write_replies t @ [(n, reply)], phase := Reading True\<rparr>)))
           | [] \<Rightarrow> Ok (Some (t\<lparr>phase := (if did_nothing then Waiting else Reading True)\<rparr>))))"

text \<open>
  The public methods: each queues its request under the number of a fresh reply channel, signals,
  and waits for the reply.
\<close>

definition queue_read_request :: "nat \<Rightarrow> ReadRequests \<Rightarrow> 'd Task \<Rightarrow> 'd Task" where
  "queue_read_request n r t = t\<lparr>reads := reads t @ [(n, r)], signalling := Suc (signalling t)\<rparr>"

definition queue_write_request :: "nat \<Rightarrow> WriteRequests \<Rightarrow> 'd Task \<Rightarrow> 'd Task" where
  "queue_write_request n w t = t\<lparr>writes := writes t @ [(n, w)], signalling := Suc (signalling t)\<rparr>"

definition call_is_empty :: "nat \<Rightarrow> 'd Task \<Rightarrow> 'd Task" where
  "call_is_empty n = queue_read_request n IsEmpty"

definition call_read :: "nat \<Rightarrow> u64 \<Rightarrow> 'd Task \<Rightarrow> 'd Task" where
  "call_read n i = queue_read_request n (ReadEncoding i)"

definition call_find_by_range :: "nat \<Rightarrow> Tag \<Rightarrow> u64 \<Rightarrow> 'd Task \<Rightarrow> 'd Task" where
  "call_find_by_range n target width = queue_read_request n (FindByRange target width)"

definition call_write :: "nat \<Rightarrow> Piece \<Rightarrow> u64 \<Rightarrow> u64 \<Rightarrow> bytes \<Rightarrow> 'd Task \<Rightarrow> 'd Task" where
  "call_write n encoding nonce i merkle_proof = queue_write_request n (WriteEncoding encoding nonce i merkle_proof)"

definition call_remove :: "nat \<Rightarrow> u64 \<Rightarrow> 'd Task \<Rightarrow> 'd Task" where
  "call_remove n i = queue_write_request n (RemoveEncoding i)"

lemmas call_defs = call_is_empty_def call_read_def call_find_by_range_def call_write_def call_remove_def
  queue_read_request_def queue_write_request_def

inductive caller_step :: "'d Task \<Rightarrow> 'd Task \<Rightarrow> bool" where
  is_empty_call: "caller_step t (call_is_empty n t)"
| read_call: "caller_step t (call_read n i t)"
| find_call: "caller_step t (call_find_by_range n target width t)"
| write_call: "caller_step t (call_write n encoding nonce i merkle_proof t)"
| remove_call: "caller_step t (call_remove n i t)"
| signal: "signalling t = Suc k \<Longrightarrow> caller_step t (t\<lparr>signalling := k, signals := Suc (signals t)\<rparr>)"
| signal_full: "signalling t = Suc k \<Longrightarrow> 0 < signals t \<Longrightarrow> caller_step t (t\<lparr>signalling := k\<rparr>)"

inductive reachable :: "'e crypto_scheme \<Rightarrow> ('d, 'z) storage_scheme \<Rightarrow> 'd PlotState \<Rightarrow> 'd Task \<Rightarrow> bool"
  for E D p where
  start: "reachable E D p (task_start p)"
| caller: "reachable E D p t \<Longrightarrow> caller_step t t' \<Longrightarrow> reachable E D p t'"
| task: "reachable E D p t \<Longrightarrow> task_step E D t = Ok (Some t') \<Longrightarrow> reachable E D p t'"

inductive_cases caller_stepE: "caller_step t t'"

section \<open>Clients of the plot\<close>

record NetworkPieceBundleByIndex =
  nb_encoding :: bytes
  nb_piece_proof :: bytes
  nb_node_id :: NodeID

definition get_piece_bundle_by_index ::
  "('d, 'z) storage_scheme \<Rightarrow> 'd PlotState \<Rightarrow> u64 \<Rightarrow> NodeID \<Rightarrow> NetworkPieceBundleByIndex option res" where
  "get_piece_bundle_by_index D p i node_id =
     bindR (read_encoding D p i) (\<lambda>r.
     Ok (case r of
           Inr (encoding, merkle_proof) \<Rightarrow>
             Some \<lparr>nb_encoding = encoding, nb_piece_proof = merkle_proof, nb_node_id = node_id\<rparr>
         | Inl _ \<Rightarrow> None))"

text \<open>The nonce of an encoding, and what happens to one bundle: a failed write is only logged.\<close>

definition encoding_nonce :: "'e crypto_scheme \<Rightarrow> Piece \<Rightarrow> u64" where
  "encoding_nonce E piece = u64_from_le_bytes (take 8 (create_hmac E piece (map (of_nat \<circ> of_char) ''subspace'')))"

definition unwrap_sloth :: "sloth_error + 'a \<Rightarrow> 'a res" where
  "unwrap_sloth r = (case r of Inl (SlothPanic e) \<Rightarrow> Panic e | Inl DataBiggerThanPrime \<Rightarrow> Panic Unwrap | Inr x \<Rightarrow> Ok x)"

definition plot_piece ::
  "'e crypto_scheme \<Rightarrow> ('d, 'z) storage_scheme \<Rightarrow> Sloth \<Rightarrow> int \<Rightarrow> 'd PlotState \<Rightarrow> PieceBundle \<Rightarrow> 'd PlotState res" where
  "plot_piece E D sloth integer_expanded_iv p b =
     bindR (unwrap_sloth (encode E sloth (pb_piece b) integer_expanded_iv ENCODING_LAYERS_TEST)) (\<lambda>piece.
     bindR (write_encoding E D p piece (encoding_nonce E piece) (pb_piece_index b) (pb_piece_proof b)) (\<lambda>(p, _).
     Ok p))"

text \<open>\<open>None\<close> stands for the search of a prime that does not end, as in \<open>init\<close>.\<close>

definition plot_pieces ::
  "'e crypto_scheme \<Rightarrow> ('d, 'z) storage_scheme \<Rightarrow> 'd PlotState \<Rightarrow> NodeID \<Rightarrow> PieceBundle list \<Rightarrow> 'd PlotState res option" where
  "plot_pieces E D p node_id bundles =
     Option.bind (init E PRIME_SIZE_BITS) (\<lambda>sloth.
     Some (foldR (plot_piece E D sloth (from_digits (expand_iv E node_id))) p bundles))"

section \<open>Order of keys\<close>

lemma be_Cons: "le_bytes_to_nat (rev (b # bs)) = unat b * 256 ^ length bs + le_bytes_to_nat (rev bs)"
  by (simp add: le_bytes_to_nat_append)

lemma be_bound: "le_bytes_to_nat (rev bs) < 256 ^ length bs"
  using le_bytes_to_nat_bound [of "rev bs"] by simp

lemma digits_less:
  fixes x y :: nat
  assumes "u < B" and "v < B"
  shows "x * B + u < y * B + v \<longleftrightarrow> x < y \<or> x = y \<and> u < v"
proof (cases x y rule: linorder_cases)
  case less
  then have "x * B + B \<le> y * B" using mult_le_mono1 [of "Suc x" y B] by simp
  then show ?thesis using assms less by simp
next
  case greater
  then have "y * B + B \<le> x * B" using mult_le_mono1 [of "Suc y" x B] by simp
  then show ?thesis using assms greater by simp
qed simp

lemma bytes_less_iff:
  "length xs = length ys \<Longrightarrow> bytes_less xs ys \<longleftrightarrow> le_bytes_to_nat (rev xs) < le_bytes_to_nat (rev ys)"
proof (induction xs ys rule: bytes_less.induct)
  case (3 x xs y ys)
  then have "length xs = length ys" by simp
  then show ?case
    using digits_less [OF be_bound [of xs] be_bound [of ys, folded \<open>length xs = length ys\<close>], of "unat x" "unat y"] 3
    unfolding be_Cons by (simp add: word_less_nat_alt word_unat_eq_iff)
qed auto

lemma unat_be: "length bs = 8 \<Longrightarrow> unat (u64_from_be_bytes bs) = le_bytes_to_nat (rev bs)"
  using be_bound [of bs] by (simp add: u64_from_be_bytes_def u64_from_le_bytes_def unat_of_nat_u64)

lemma bytes_less_u64:
  "length a = 8 \<Longrightarrow> length b = 8 \<Longrightarrow> bytes_less a b \<longleftrightarrow> u64_from_be_bytes a < u64_from_be_bytes b"
  by (simp add: bytes_less_iff word_less_nat_alt unat_be)

lemma le_bytes_u64: "length v = 8 \<Longrightarrow> u64_to_le_bytes (u64_from_le_bytes v) = v"
  using nat_to_le_bytes_inverse [of v] le_bytes_to_nat_bound [of v]
  by (simp add: u64_to_le_bytes_def u64_from_le_bytes_def unat_of_nat_u64)

lemma le_bytes_u64_inj: "u64_to_le_bytes i = u64_to_le_bytes j \<longleftrightarrow> i = j"
  by (metis u64_le_roundtrip)

section \<open>Searching\<close>

definition decode_entry :: "bytes \<times> bytes \<Rightarrow> Tag \<times> u64" where
  "decode_entry e = (fst e, u64_from_le_bytes (snd e))"

definition entries8 :: "(bytes \<times> bytes) list \<Rightarrow> bool" where
  "entries8 es \<longleftrightarrow> (\<forall>e \<in> set es. length (fst e) = 8 \<and> length (snd e) = 8)"

lemma scan_upto_eq:
  "entries8 es \<Longrightarrow> scan_upto upper es = Ok (map decode_entry (takeWhile (\<lambda>e. u64_from_be_bytes (fst e) \<le> upper) es))"
  by (induction upper es rule: scan_upto.induct) (simp_all add: entries8_def to_array8_def decode_entry_def)

lemma scan_all_eq: "entries8 es \<Longrightarrow> scan_all es = Ok (map decode_entry es)"
  by (induction es rule: scan_all.induct) (simp_all add: entries8_def to_array8_def decode_entry_def)

lemma takeWhile_sorted:
  assumes "sorted_wrt (\<lambda>a b. f a < f b) es"
  shows "takeWhile (\<lambda>e. f e \<le> (u :: 'a::linorder)) es = filter (\<lambda>e. f e \<le> u) es"
  using assms
proof (induction es)
  case (Cons e es)
  have "filter (\<lambda>e. f e \<le> u) es = []" if "\<not> f e \<le> u"
    using that Cons.prems by (force simp: filter_empty_conv)
  then show ?case using Cons by simp
qed simp

lemma dropWhile_sorted:
  assumes "sorted_wrt (\<lambda>a b. f a < f b) es"
  shows "dropWhile (\<lambda>e. f e < (l :: 'a::linorder)) es = filter (\<lambda>e. l \<le> f e) es"
  using assms
proof (induction es)
  case (Cons e es)
  then show ?case by (cases "f e < l") (auto simp: not_less intro!: filter_True [symmetric] dest!: bspec)
qed simp

text \<open>The arc that the search covers is the set of tags near the target on the circle of 64-bit values.\<close>

lemma unat_sub_cases:
  fixes g t :: u64
  shows "unat t \<le> unat g \<Longrightarrow> unat (g - t) = unat g - unat t"
    "unat g < unat t \<Longrightarrow> unat (g - t) = unat g + 2 ^ 64 - unat t"
  by (simp_all add: unat_sub_if')

lemma circular_near_nat:
  "circular_near t h g \<longleftrightarrow>
     (if unat t \<le> unat g then unat g \<le> unat t + unat h \<or> unat t + 2 ^ 64 \<le> unat g + unat h
      else unat t \<le> unat g + unat h \<or> unat g + 2 ^ 64 \<le> unat t + unat h)"
proof (cases "unat t \<le> unat g")
  case True
  show ?thesis
  proof (cases "unat t = unat g")
    case False
    then have "unat (g - t) = unat g - unat t" "unat (t - g) = unat t + 2 ^ 64 - unat g"
      using True unat_sub_cases [of t g] unat_sub_cases [of g t] by simp_all
    then show ?thesis using True unat_bound [of g] unfolding circular_near_def word_le_nat_alt by auto
  qed (simp add: circular_near_def word_unat_eq_iff [symmetric])
next
  case False
  then have "unat (t - g) = unat t - unat g" "unat (g - t) = unat g + 2 ^ 64 - unat t"
    using unat_sub_cases [of t g] unat_sub_cases [of g t] by simp_all
  then show ?thesis using False unat_bound [of t] unfolding circular_near_def word_le_nat_alt by auto
qed

lemma arc_wrapped:
  fixes t h g :: u64
  assumes h: "2 * unat h < 2 ^ 64" and w: "unat t < unat h \<or> 2 ^ 64 \<le> unat t + unat h"
  shows "g \<le> t + h \<or> t - h \<le> g \<longleftrightarrow> circular_near t h g"
proof (cases "unat t < unat h")
  case True
  then have "unat (t + h) = unat t + unat h" using h by (simp add: unat_word_ariths)
  moreover have "unat (t - h) = unat t + 2 ^ 64 - unat h" using True by (rule unat_sub_cases)
  ultimately show ?thesis
    using True unat_bound [of g] unat_bound [of h] unfolding circular_near_nat word_le_nat_alt by auto
next
  case False
  then have "unat (t + h) = unat t + unat h - 2 ^ 64"
    using w unat_bound [of t] unat_bound [of h] by (simp add: unat_word_ariths mod_if)
  moreover have "unat (t - h) = unat t - unat h" using False by (simp add: unat_sub_cases)
  ultimately show ?thesis using False w unat_bound [of g] unat_bound [of t]
    unfolding circular_near_nat word_le_nat_alt by auto
qed

lemma wrapped_strict:
  fixes t h :: u64
  assumes h: "2 * unat h < 2 ^ 64" and w: "unat t < unat h \<or> 2 ^ 64 \<le> unat t + unat h"
  shows "t + h < t - h"
proof (cases "unat t < unat h")
  case True
  then have "unat (t + h) = unat t + unat h" using h by (simp add: unat_word_ariths)
  moreover have "unat (t - h) = unat t + 2 ^ 64 - unat h" using True by (rule unat_sub_cases)
  ultimately show ?thesis using h by (simp add: word_less_nat_alt)
next
  case False
  then have "unat (t + h) = unat t + unat h - 2 ^ 64"
    using w unat_bound [of t] unat_bound [of h] by (simp add: unat_word_ariths mod_if)
  moreover have "unat (t - h) = unat t - unat h" using False by (simp add: unat_sub_cases)
  ultimately show ?thesis using False w h by (simp add: word_less_nat_alt)
qed

lemma arc_plain:
  fixes t h g :: u64
  assumes "unat h \<le> unat t" and "unat t + unat h < 2 ^ 64"
  shows "t - h \<le> g \<and> g \<le> t + h \<longleftrightarrow> circular_near t h g"
proof -
  have "unat (t + h) = unat t + unat h" "unat (t - h) = unat t - unat h"
    using assms by (simp_all add: unat_word_ariths unat_sub_cases)
  then show ?thesis using assms unat_bound [of g] unfolding circular_near_nat word_le_nat_alt by auto
qed

section \<open>Well-formed plots\<close>

text \<open>
  Every entry of the map points at a whole piece of the file, every tag entry has eight bytes on
  both sides, and the file is short enough for its length to be a position.
\<close>

definition plot_ok :: "('d, 'z) storage_scheme \<Rightarrow> 'd PlotState \<Rightarrow> bool" where
  "plot_ok D p \<longleftrightarrow>
     (\<forall>k v. map_of (db_entries D (map_db p)) k = Some v \<longrightarrow>
        8 \<le> length v \<and> unat (u64_from_le_bytes (take 8 v)) + PIECE_SIZE \<le> length (plot_file p)) \<and>
     entries8 (db_entries D (tags_db p)) \<and> length (plot_file p) < 2 ^ 64"

lemma db_okD:
  assumes "db_ok D"
  shows "sorted_wrt (\<lambda>a b. bytes_less (fst a) (fst b)) (db_entries D d)" "db_get D d k = Some (map_of (db_entries D d) k)"
    "db_seek D d k = dropWhile (\<lambda>e. bytes_less (fst e) k) (db_entries D d)"
    "\<exists>d'. db_put D d k v = Some d' \<and> map_of (db_entries D d') = (map_of (db_entries D d))(k \<mapsto> v)"
    "\<exists>d'. db_delete D d k = Some d' \<and> map_of (db_entries D d') = (map_of (db_entries D d))(k := None)"
  using assms unfolding db_ok_def by blast+

lemma storage_okD:
  assumes "storage_ok D"
  shows "db_ok D" "file_write D file bs = (file @ bs, None)"
  using assms unfolding storage_ok_def by blast+

lemma bytes_less_irrefl [simp]: "\<not> bytes_less k k"
  by (induction k) auto

lemma sorted_keys_distinct: "sorted_wrt (\<lambda>a b. bytes_less (fst a) (fst b)) es \<Longrightarrow> distinct (map fst es)"
  by (induction es) force+

lemma entries8_map_of:
  assumes "db_ok D"
  shows "entries8 (db_entries D d) \<longleftrightarrow>
    (\<forall>k v. map_of (db_entries D d) k = Some v \<longrightarrow> length k = 8 \<and> length v = 8)"
  using map_of_eq_Some_iff [OF sorted_keys_distinct [OF db_okD(1) [OF assms]]] by (auto simp: entries8_def)

lemma entries8_sorted:
  assumes "db_ok D" and "entries8 (db_entries D d)"
  shows "sorted_wrt (\<lambda>a b. u64_from_be_bytes (fst a) < u64_from_be_bytes (fst b)) (db_entries D d)"
  by (rule sorted_wrt_mono_rel [OF _ db_okD(1) [OF assms(1), of d]]) (use assms(2) in \<open>simp add: entries8_def bytes_less_u64\<close>)

lemma seek_eq:
  assumes "db_ok D" and "entries8 (db_entries D d)"
  shows "db_seek D d (u64_to_be_bytes l) = filter (\<lambda>e. l \<le> u64_from_be_bytes (fst e)) (db_entries D d)"
proof -
  have "db_seek D d (u64_to_be_bytes l) = dropWhile (\<lambda>e. u64_from_be_bytes (fst e) < l) (db_entries D d)"
    unfolding db_okD(3) [OF assms(1)] using assms(2)
    by (intro dropWhile_cong) (simp_all add: entries8_def bytes_less_u64)
  then show ?thesis using dropWhile_sorted [OF entries8_sorted [OF assms]] by simp
qed

lemma entries8_filter: "entries8 es \<Longrightarrow> entries8 (filter P es)"
  by (simp add: entries8_def)

lemma sorted_filter_wrt: "sorted_wrt R es \<Longrightarrow> sorted_wrt R (filter P es)"
  by (induction es) auto

text \<open>The search as filters over the tags; in the wrapped case the low end of the arc comes first.\<close>

lemma find_by_range_eq:
  fixes D :: "('d, 'z) storage_scheme" and p :: "'d PlotState" and target :: Tag and r :: u64
  assumes "db_ok D" and "entries8 (db_entries D (tags_db p))"
  defines "t \<equiv> u64_from_be_bytes target" and "h \<equiv> r div 2" and "es \<equiv> db_entries D (tags_db p)"
  shows "find_by_range D p target r =
    (if unat t < unat h \<or> 2 ^ 64 \<le> unat t + unat h
     then Ok (map decode_entry (filter (\<lambda>e. u64_from_be_bytes (fst e) \<le> t + h) es @ filter (\<lambda>e. t - h \<le> u64_from_be_bytes (fst e)) es))
     else Ok (map decode_entry (filter (\<lambda>e. t - h \<le> u64_from_be_bytes (fst e) \<and> u64_from_be_bytes (fst e) \<le> t + h) es)))"
proof -
  note so = entries8_sorted [OF assms(1,2), folded es_def]
  note e8 = assms(2) [folded es_def]
  note sk = seek_eq [OF assms(1,2), folded es_def]
  let ?f = "\<lambda>e. u64_from_be_bytes (fst e)"
  have u: "scan_upto u xs = Ok (map decode_entry (filter (\<lambda>e. ?f e \<le> u) xs))"
    if "sorted_wrt (\<lambda>a b. ?f a < ?f b) xs" "entries8 xs" for u xs
    using scan_upto_eq [OF that(2)] takeWhile_sorted [OF that(1)] by simp
  have w: "snd (overflowing_sub t h) \<longleftrightarrow> unat t < unat h" "snd (overflowing_add t h) \<longleftrightarrow> 2 ^ 64 \<le> unat t + unat h"
    by (rule overflowing_sub_iff, rule overflowing_add_iff)
  have "find_by_range D p target r =
     (if snd (overflowing_sub t h) \<or> snd (overflowing_add t h)
      then bindR (scan_upto (t + h) es) (\<lambda>first. bindR (scan_all (db_seek D (tags_db p) (u64_to_be_bytes (t - h)))) (\<lambda>second. Ok (first @ second)))
      else scan_upto (t + h) (db_seek D (tags_db p) (u64_to_be_bytes (t - h))))"
    by (simp add: find_by_range_def Let_def split_def overflowing_sub_def overflowing_add_def t_def h_def es_def)
  then show ?thesis
    unfolding w sk u [OF so e8] u [OF sorted_filter_wrt [OF so] entries8_filter [OF e8]] scan_all_eq [OF entries8_filter [OF e8]]
    by (simp add: conj_commute)
qed

lemma find_by_range_facts:
  assumes "db_ok D" and "entries8 (db_entries D (tags_db p))"
  shows "\<exists>sols. find_by_range D p target r = Ok sols \<and> distinct (map fst sols) \<and>
    (\<forall>tag i. (tag, i) \<in> set sols \<longleftrightarrow> map_of (db_entries D (tags_db p)) tag = Some (u64_to_le_bytes i) \<and>
       circular_near (u64_from_be_bytes target) (r div 2) (u64_from_be_bytes tag))"
proof -
  let ?t = "u64_from_be_bytes target" and ?h = "r div 2" and ?es = "db_entries D (tags_db p)"
  let ?near = "\<lambda>e. circular_near ?t ?h (u64_from_be_bytes (fst e))"
  have d: "distinct (map fst ?es)" by (rule sorted_keys_distinct [OF db_okD(1) [OF assms(1)]])
  have mem: "(tag, i) \<in> decode_entry ` {e \<in> set ?es. ?near e} \<longleftrightarrow>
      map_of ?es tag = Some (u64_to_le_bytes i) \<and> circular_near ?t ?h (u64_from_be_bytes tag)" for tag i
    using assms(2) le_bytes_u64 map_of_eq_Some_iff [OF d, of tag "u64_to_le_bytes i"]
    by (force simp: decode_entry_def entries8_def image_iff)
  have f: "map fst (map decode_entry xs) = map fst xs" for xs by (simp add: decode_entry_def)
  show ?thesis
  proof (cases "unat ?t < unat ?h \<or> 2 ^ 64 \<le> unat ?t + unat ?h")
    case True
    let ?a = "filter (\<lambda>e. u64_from_be_bytes (fst e) \<le> ?t + ?h) ?es" and ?b = "filter (\<lambda>e. ?t - ?h \<le> u64_from_be_bytes (fst e)) ?es"
    have st: "set (?a @ ?b) = {e \<in> set ?es. ?near e}" using arc_wrapped [OF unat_half True] by auto
    have "set (map fst ?a) \<inter> set (map fst ?b) = {}"
      using wrapped_strict [OF unat_half True] by (force dest: leD order.strict_trans2)
    then have ds: "distinct (map fst (?a @ ?b))" using d by (simp add: distinct_map_filter)
    have "find_by_range D p target r = Ok (map decode_entry (?a @ ?b))" using find_by_range_eq [OF assms, of target r] True by simp
    then show ?thesis using ds mem unfolding f [of "?a @ ?b", symmetric] st [symmetric] set_map [symmetric] by blast
  next
    case False
    let ?a = "filter (\<lambda>e. ?t - ?h \<le> u64_from_be_bytes (fst e) \<and> u64_from_be_bytes (fst e) \<le> ?t + ?h) ?es"
    have st: "set ?a = {e \<in> set ?es. ?near e}" using False arc_plain [of ?h ?t] by auto
    have ds: "distinct (map fst ?a)" using d by (simp add: distinct_map_filter)
    have "find_by_range D p target r = Ok (map decode_entry ?a)" using find_by_range_eq [OF assms, of target r] False by simp
    then show ?thesis using ds mem unfolding f [of ?a, symmetric] st [symmetric] set_map [symmetric] by blast
  qed
qed

section \<open>Reading and writing\<close>

definition piece_tag :: "'e crypto_scheme \<Rightarrow> Piece \<Rightarrow> u64 \<Rightarrow> Tag" where
  "piece_tag E encoding nonce = take 8 (create_hmac E encoding (u64_to_le_bytes nonce))"

lemma piece_tag_length: "hmac_ok E \<Longrightarrow> length (piece_tag E encoding nonce) = 8"
  by (simp add: piece_tag_def create_hmac_def hmac_ok_def)

lemma write_encoding_facts:
  assumes "storage_ok D"
  shows "\<exists>p'. write_encoding E D p encoding nonce i merkle_proof = Ok (p', Inr ()) \<and> plot_file p' = plot_file p @ encoding \<and>
    map_of (db_entries D (map_db p')) =
      (map_of (db_entries D (map_db p)))(u64_to_le_bytes i \<mapsto> u64_to_le_bytes (of_nat (length (plot_file p))) @ merkle_proof) \<and>
    map_of (db_entries D (tags_db p')) = (map_of (db_entries D (tags_db p)))(piece_tag E encoding nonce \<mapsto> u64_to_le_bytes i)"
proof -
  note db = storage_okD(1) [OF assms]
  obtain c where c: "db_delete D (map_db p) (u64_to_le_bytes i) = Some c"
      "map_of (db_entries D c) = (map_of (db_entries D (map_db p)))(u64_to_le_bytes i := None)"
    using db_okD(5) [OF db] by blast
  let ?v = "u64_to_le_bytes (of_nat (length (plot_file p))) @ merkle_proof"
  obtain m where m: "db_put D c (u64_to_le_bytes i) ?v = Some m"
      "map_of (db_entries D m) = (map_of (db_entries D c))(u64_to_le_bytes i \<mapsto> ?v)"
    using db_okD(4) [OF db] by blast
  obtain t where t: "db_put D (tags_db p) (piece_tag E encoding nonce) (u64_to_le_bytes i) = Some t"
      "map_of (db_entries D t) = (map_of (db_entries D (tags_db p)))(piece_tag E encoding nonce \<mapsto> u64_to_le_bytes i)"
    using db_okD(4) [OF db] by blast
  have "write_encoding E D p encoding nonce i merkle_proof =
      Ok (p\<lparr>plot_file := plot_file p @ encoding, map_db := m, tags_db := t\<rparr>, Inr ())"
    using c(1) m(1) t(1) by (simp add: write_encoding_def storage_okD(2) [OF assms] Let_def piece_tag_def)
  then show ?thesis using m(2) c(2) t(2) by simp
qed

lemma remove_encoding_facts:
  assumes "storage_ok D"
  shows "\<exists>p'. remove_encoding D p i = Ok (p', Inr ()) \<and> plot_file p' = plot_file p \<and> tags_db p' = tags_db p \<and>
    map_of (db_entries D (map_db p')) = (map_of (db_entries D (map_db p)))(u64_to_le_bytes i := None)"
  using db_okD(5) [OF storage_okD(1) [OF assms], of "map_db p" "u64_to_le_bytes i"] by (auto simp: remove_encoding_def)

lemma read_encoding_eq:
  assumes "storage_ok D" and "plot_ok D p"
  shows "read_encoding D p i =
    (case map_of (db_entries D (map_db p)) (u64_to_le_bytes i) of
       None \<Rightarrow> Ok (Inl NotFound)
     | Some raw \<Rightarrow> Ok (Inr (take PIECE_SIZE (drop (unat (u64_from_le_bytes (take 8 raw))) (plot_file p)), drop 8 raw)))"
proof (cases "map_of (db_entries D (map_db p)) (u64_to_le_bytes i)")
  case (Some raw)
  then have "8 \<le> length raw" "unat (u64_from_le_bytes (take 8 raw)) + PIECE_SIZE \<le> length (plot_file p)"
    using assms(2) unfolding plot_ok_def by blast+
  then show ?thesis using Some
    by (simp add: read_encoding_def db_okD(2) [OF storage_okD(1) [OF assms(1)]] piece_data_def read_exact_def Let_def)
qed (simp add: read_encoding_def db_okD(2) [OF storage_okD(1) [OF assms(1)]])

fun write_ok :: "WriteRequests \<Rightarrow> bool" where
  "write_ok (WriteEncoding encoding _ _ _) \<longleftrightarrow> length encoding = PIECE_SIZE"
| "write_ok (RemoveEncoding _) \<longleftrightarrow> True"

lemma serve_write_keeps:
  assumes "storage_ok D" and "hmac_ok E" and "plot_ok D p" and "write_ok w" and "length (plot_file p) + PIECE_SIZE < 2 ^ 64"
  shows "\<exists>p'. serve_write E D p w = Ok (p', Inr ()) \<and> plot_ok D p' \<and> length (plot_file p') \<le> length (plot_file p) + PIECE_SIZE"
proof (cases w)
  case (WriteEncoding encoding nonce i merkle_proof)
  obtain p' where w: "write_encoding E D p encoding nonce i merkle_proof = Ok (p', Inr ())" "plot_file p' = plot_file p @ encoding"
      "map_of (db_entries D (map_db p')) =
        (map_of (db_entries D (map_db p)))(u64_to_le_bytes i \<mapsto> u64_to_le_bytes (of_nat (length (plot_file p))) @ merkle_proof)"
      "map_of (db_entries D (tags_db p')) = (map_of (db_entries D (tags_db p)))(piece_tag E encoding nonce \<mapsto> u64_to_le_bytes i)"
    using write_encoding_facts [OF assms(1)] by blast
  have l: "length (plot_file p') = length (plot_file p) + PIECE_SIZE" using w(2) assms(4) WriteEncoding by simp
  have e: "entries8 (db_entries D (tags_db p'))"
    using assms(3) piece_tag_length [OF assms(2)] unfolding plot_ok_def entries8_map_of [OF storage_okD(1) [OF assms(1)]] w(4)
    by auto
  have u: "unat (of_nat (length (plot_file p)) :: u64) = length (plot_file p)" using assms(5) by (intro unat_of_nat_u64) simp
  have "8 \<le> length v \<and> unat (u64_from_le_bytes (take 8 v)) + PIECE_SIZE \<le> length (plot_file p')"
    if "map_of (db_entries D (map_db p')) k = Some v" for k v
  proof (cases "k = u64_to_le_bytes i")
    case True
    then show ?thesis using that u unfolding w(3) l by auto
  next
    case False
    then have "map_of (db_entries D (map_db p)) k = Some v" using that unfolding w(3) by simp
    then have "8 \<le> length v \<and> unat (u64_from_le_bytes (take 8 v)) + PIECE_SIZE \<le> length (plot_file p)"
      using assms(3) unfolding plot_ok_def by blast
    then show ?thesis unfolding l by simp
  qed
  then have "plot_ok D p'" unfolding plot_ok_def using e l assms(5) by simp
  then show ?thesis using w(1) l WriteEncoding by simp
next
  case (RemoveEncoding i)
  obtain p' where r: "remove_encoding D p i = Ok (p', Inr ())" "plot_file p' = plot_file p" "tags_db p' = tags_db p"
      "map_of (db_entries D (map_db p')) = (map_of (db_entries D (map_db p)))(u64_to_le_bytes i := None)"
    using remove_encoding_facts [OF assms(1)] by blast
  then have "plot_ok D p'" using assms(3) unfolding plot_ok_def r by simp
  then show ?thesis using r(1,2) RemoveEncoding by simp
qed

text \<open>What a write of a whole piece does to later reads.\<close>

lemma write_encoding_reads:
  assumes "storage_ok D" and "hmac_ok E" and "plot_ok D p" and "length encoding = PIECE_SIZE"
    and "length (plot_file p) + PIECE_SIZE < 2 ^ 64"
  shows "\<exists>p'. write_encoding E D p encoding nonce i merkle_proof = Ok (p', Inr ()) \<and> plot_ok D p' \<and>
    length (plot_file p') = length (plot_file p) + PIECE_SIZE \<and>
    map_of (db_entries D (tags_db p')) = (map_of (db_entries D (tags_db p)))(piece_tag E encoding nonce \<mapsto> u64_to_le_bytes i) \<and>
    read_encoding D p' i = Ok (Inr (encoding, merkle_proof)) \<and> (\<forall>j. j \<noteq> i \<longrightarrow> read_encoding D p' j = read_encoding D p j)"
proof -
  obtain p' where w: "write_encoding E D p encoding nonce i merkle_proof = Ok (p', Inr ())" "plot_file p' = plot_file p @ encoding"
      "map_of (db_entries D (map_db p')) =
        (map_of (db_entries D (map_db p)))(u64_to_le_bytes i \<mapsto> u64_to_le_bytes (of_nat (length (plot_file p))) @ merkle_proof)"
      "map_of (db_entries D (tags_db p')) = (map_of (db_entries D (tags_db p)))(piece_tag E encoding nonce \<mapsto> u64_to_le_bytes i)"
    using write_encoding_facts [OF assms(1)] by blast
  have ok: "plot_ok D p'"
    using serve_write_keeps [OF assms(1-3) _ assms(5), of "WriteEncoding encoding nonce i merkle_proof"] w(1) assms(4) by auto
  have "unat (of_nat (length (plot_file p)) :: u64) = length (plot_file p)" using assms(5) by (intro unat_of_nat_u64) simp
  then have "read_encoding D p' i = Ok (Inr (encoding, merkle_proof))"
    using assms(4) by (simp add: read_encoding_eq [OF assms(1) ok] w(2,3))
  moreover have "read_encoding D p' j = read_encoding D p j" if "j \<noteq> i" for j
  proof (cases "map_of (db_entries D (map_db p)) (u64_to_le_bytes j)")
    case (Some raw)
    then have "unat (u64_from_le_bytes (take 8 raw)) + PIECE_SIZE \<le> length (plot_file p)"
      using assms(3) unfolding plot_ok_def by blast
    then show ?thesis using Some that
      by (simp add: read_encoding_eq [OF assms(1) ok] read_encoding_eq [OF assms(1,3)] w(2,3) le_bytes_u64_inj)
  qed (use that in \<open>simp add: read_encoding_eq [OF assms(1) ok] read_encoding_eq [OF assms(1,3)] w(3) le_bytes_u64_inj\<close>)
  ultimately show ?thesis using w ok assms(4) by (intro exI [of _ p']) simp
qed

lemma serve_read_returns:
  assumes "storage_ok D" and "plot_ok D p"
  shows "\<exists>reply. serve_read D p r = Ok reply"
proof (cases r)
  case (FindByRange target width)
  have "entries8 (db_entries D (tags_db p))" using assms(2) by (simp add: plot_ok_def)
  from find_by_range_facts [OF storage_okD(1) [OF assms(1)] this, of target width]
  obtain sols where "find_by_range D p target width = Ok sols" by blast
  then show ?thesis using FindByRange by simp
qed (use read_encoding_eq [OF assms] in \<open>auto split: option.split\<close>)

section \<open>No lost wake-up\<close>

definition wakeup_ok :: "'d Task \<Rightarrow> bool" where
  "wakeup_ok t \<longleftrightarrow>
     (case phase t of
        Waiting \<Rightarrow> reads t \<noteq> [] \<or> writes t \<noteq> [] \<longrightarrow> 0 < signals t + signalling t
      | Reading _ \<Rightarrow> True
      | Writing _ \<Rightarrow> reads t \<noteq> [] \<longrightarrow> 0 < signals t + signalling t)"

lemma caller_wakeup: "caller_step t t' \<Longrightarrow> wakeup_ok t \<Longrightarrow> wakeup_ok t'"
  by (erule caller_stepE) (auto simp: wakeup_ok_def call_defs split: phase.splits)

lemma task_wakeup: "task_step E D t = Ok (Some t') \<Longrightarrow> wakeup_ok t \<Longrightarrow> wakeup_ok t'"
  by (auto simp: wakeup_ok_def task_step_def bindR_Ok_iff split: phase.splits list.splits if_splits)

lemma reachable_wakeup: "reachable E D p t \<Longrightarrow> wakeup_ok t"
proof (induction rule: reachable.induct)
  case start
  then show ?case by (simp add: task_start_def wakeup_ok_def)
qed (blast intro: caller_wakeup task_wakeup)+

section \<open>Every request is served\<close>

text \<open>The task left alone for a number of steps, or until it waits.\<close>

fun run_task :: "'e crypto_scheme \<Rightarrow> ('d, 'z) storage_scheme \<Rightarrow> nat \<Rightarrow> 'd Task \<Rightarrow> 'd Task res" where
  "run_task E D 0 t = Ok t"
| "run_task E D (Suc n) t = bindR (task_step E D t) (\<lambda>next. case next of None \<Rightarrow> Ok t | Some t' \<Rightarrow> run_task E D n t')"

fun phase_cost :: "phase \<Rightarrow> nat" where
  "phase_cost Waiting = 0"
| "phase_cost (Reading did_nothing) = (if did_nothing then 2 else 4)"
| "phase_cost (Writing did_nothing) = (if did_nothing then 1 else 3)"

definition task_cost :: "'d Task \<Rightarrow> nat" where
  "task_cost t = 3 * signals t + 3 * length (reads t) + 3 * length (writes t) + phase_cost (phase t)"

definition task_ok :: "('d, 'z) storage_scheme \<Rightarrow> 'd Task \<Rightarrow> bool" where
  "task_ok D t \<longleftrightarrow> plot_ok D (tplot t) \<and> (\<forall>(n, w) \<in> set (writes t). write_ok w) \<and>
     length (plot_file (tplot t)) + length (writes t) * PIECE_SIZE < 2 ^ 64"

definition numbers :: "'d Task \<Rightarrow> nat list \<times> nat list" where
  "numbers t = (map fst (read_replies t) @ map fst (reads t), map fst (write_replies t) @ map fst (writes t))"

lemma task_step_facts:
  assumes "storage_ok D" and "hmac_ok E" and "task_ok D t"
  shows "(task_step E D t = Ok None \<and> phase t = Waiting \<and> signals t = 0) \<or>
    (\<exists>t'. task_step E D t = Ok (Some t') \<and> task_ok D t' \<and> task_cost t' < task_cost t \<and> numbers t' = numbers t \<and>
       signalling t' = signalling t)"
proof (cases "phase t")
  case Waiting
  then show ?thesis using assms(3) by (cases "signals t") (simp_all add: task_step_def task_ok_def task_cost_def numbers_def)
next
  case (Reading d)
  show ?thesis
  proof (cases "reads t")
    case Nil
    then show ?thesis using Reading assms(3) by (simp add: task_step_def task_ok_def task_cost_def numbers_def)
  next
    case (Cons q rest)
    obtain n r where q: "q = (n, r)" by force
    have "plot_ok D (tplot t)" using assms(3) by (simp add: task_ok_def)
    then obtain reply where "serve_read D (tplot t) r = Ok reply" using serve_read_returns [OF assms(1)] by blast
    then show ?thesis using Reading Cons q assms(3) by (simp add: task_step_def task_ok_def task_cost_def numbers_def)
  qed
next
  case (Writing d)
  show ?thesis
  proof (cases "writes t")
    case Nil
    then show ?thesis using Writing assms(3) by (simp add: task_step_def task_ok_def task_cost_def numbers_def)
  next
    case (Cons q rest)
    obtain n w where q: "q = (n, w)" by force
    have ok: "plot_ok D (tplot t)" "write_ok w" and l: "length (plot_file (tplot t)) + PIECE_SIZE + length rest * PIECE_SIZE < 2 ^ 64"
      using assms(3) Cons q by (simp_all add: task_ok_def)
    obtain p' where "serve_write E D (tplot t) w = Ok (p', Inr ())" "plot_ok D p'"
        "length (plot_file p') \<le> length (plot_file (tplot t)) + PIECE_SIZE"
      using serve_write_keeps [OF assms(1,2) ok] l by auto
    then show ?thesis using Writing Cons q assms(3) l by (simp add: task_step_def task_ok_def task_cost_def numbers_def)
  qed
qed

lemma run_task_stops:
  assumes "storage_ok D" and "hmac_ok E" and "task_ok D t" and "wakeup_ok t" and "task_cost t \<le> n"
  shows "\<exists>t'. run_task E D n t = Ok t' \<and> phase t' = Waiting \<and> signals t' = 0 \<and> task_ok D t' \<and> wakeup_ok t' \<and>
    numbers t' = numbers t \<and> signalling t' = signalling t"
  using assms(3-)
proof (induction n arbitrary: t)
  case 0
  then have c: "signals t = 0" "phase_cost (phase t) = 0" by (simp_all add: task_cost_def)
  then have "phase t = Waiting" by (cases "phase t") (simp_all split: if_splits)
  then show ?case using 0 c by simp
next
  case (Suc n)
  from task_step_facts [OF assms(1,2) Suc.prems(1)] show ?case
  proof (elim disjE exE conjE)
    fix t' assume t': "task_step E D t = Ok (Some t')" "task_ok D t'" "task_cost t' < task_cost t" "numbers t' = numbers t"
      "signalling t' = signalling t"
    then show ?thesis using Suc.IH [OF t'(2) task_wakeup [OF t'(1) Suc.prems(2)]] Suc.prems(3) by simp
  qed (use Suc.prems in simp)
qed

section \<open>A concrete storage\<close>

text \<open>A database as the log of its updates, the last one first, and a disk that never fails.\<close>

fun kv_insert :: "bytes \<Rightarrow> bytes \<Rightarrow> (bytes \<times> bytes) list \<Rightarrow> (bytes \<times> bytes) list" where
  "kv_insert k v [] = [(k, v)]"
| "kv_insert k v ((k', v') # es) =
     (if bytes_less k k' then (k, v) # (k', v') # es else if k = k' then (k, v) # es else (k', v') # kv_insert k v es)"

fun log_entries :: "(bytes \<times> bytes option) list \<Rightarrow> (bytes \<times> bytes) list" where
  "log_entries [] = []"
| "log_entries ((k, Some v) # us) = kv_insert k v (log_entries us)"
| "log_entries ((k, None) # us) = filter (\<lambda>e. fst e \<noteq> k) (log_entries us)"

definition log_storage :: "(bytes \<times> bytes option) list storage" where
  "log_storage = \<lparr>db_get = (\<lambda>d k. Some (map_of (log_entries d) k)), db_put = (\<lambda>d k v. Some ((k, Some v) # d)),
     db_delete = (\<lambda>d k. Some ((k, None) # d)), db_entries = log_entries,
     db_seek = (\<lambda>d k. dropWhile (\<lambda>e. bytes_less (fst e) k) (log_entries d)), file_write = (\<lambda>file bs. (file @ bs, None))\<rparr>"

lemma bytes_less_trans: "bytes_less a b \<Longrightarrow> bytes_less b c \<Longrightarrow> bytes_less a c"
proof (induction a b arbitrary: c rule: bytes_less.induct)
  case (2 y ys)
  then show ?case by (cases c) auto
next
  case (3 x xs y ys)
  then show ?case by (cases c) auto
qed simp

lemma bytes_less_linear: "bytes_less a b \<or> a = b \<or> bytes_less b a"
  by (induction a b rule: bytes_less.induct) (auto simp: neq_Nil_conv elim: bytes_less.elims)

lemma set_kv_insert: "set (kv_insert k v es) \<subseteq> insert (k, v) (set es)"
  by (induction k v es rule: kv_insert.induct) auto

lemma sorted_kv_insert:
  "sorted_wrt (\<lambda>a b. bytes_less (fst a) (fst b)) es \<Longrightarrow> sorted_wrt (\<lambda>a b. bytes_less (fst a) (fst b)) (kv_insert k v es)"
proof (induction k v es rule: kv_insert.induct)
  case (2 k v k' v' es)
  then show ?case
    using bytes_less_linear [of k k'] set_kv_insert [of k v es] by (auto intro: bytes_less_trans)
qed simp

lemma map_of_kv_insert: "sorted_wrt (\<lambda>a b. bytes_less (fst a) (fst b)) es \<Longrightarrow> map_of (kv_insert k v es) = (map_of es)(k \<mapsto> v)"
  by (induction k v es rule: kv_insert.induct) (auto simp: fun_eq_iff)

lemma map_of_filter_key: "map_of (filter (\<lambda>e. fst e \<noteq> k) es) = (map_of es)(k := None)"
  by (induction es) (auto simp: fun_eq_iff)

lemma sorted_log_entries: "sorted_wrt (\<lambda>a b. bytes_less (fst a) (fst b)) (log_entries us)"
  by (induction us rule: log_entries.induct) (simp_all add: sorted_kv_insert sorted_filter_wrt)

lemma log_storage_ok [simp]: "storage_ok log_storage"
  by (simp add: storage_ok_def db_ok_def log_storage_def sorted_log_entries map_of_kv_insert map_of_filter_key)

lemma toy_hmac_ok [simp]: "hmac_ok toy_crypto"
  by (simp add: hmac_ok_def toy_crypto_def crypto.defs gmp.defs)

definition empty_plot :: "(bytes \<times> bytes option) list PlotState" where
  "empty_plot = \<lparr>plot_file = [], map_db = [], tags_db = []\<rparr>"

lemma empty_plot_ok [simp]: "plot_ok log_storage empty_plot"
  by (simp add: plot_ok_def empty_plot_def log_storage_def entries8_def)

section \<open>Properties\<close>

text \<open>
  \<^bold>\<open>C9\<close>: on a healthy disk, requests to a well-formed plot never panic: every read returns
  its result and every write of a whole piece succeeds and leaves a well-formed plot.
\<close>

theorem plot_requests_typed:
  assumes "storage_ok D" and "hmac_ok E" and "plot_ok D p" and "length (plot_file p) + PIECE_SIZE < 2 ^ 64"
  shows "(\<exists>reply. serve_read D p r = Ok reply) \<and>
    (write_ok w \<longrightarrow> (\<exists>p'. serve_write E D p w = Ok (p', Inr ()) \<and> plot_ok D p'))"
  using serve_read_returns [OF assms(1,3)] serve_write_keeps [OF assms(1-3) _ assms(4)] by blast

theorem plot_requests_typed_witness:
  "\<exists>p'. serve_write toy_crypto log_storage empty_plot (WriteEncoding (replicate PIECE_SIZE 1) 3 5 [9]) = Ok (p', Inr ()) \<and>
     plot_ok log_storage p'"
  using plot_requests_typed [OF log_storage_ok toy_hmac_ok empty_plot_ok, of _ "WriteEncoding (replicate PIECE_SIZE 1) 3 5 [9]"]
  by (simp add: empty_plot_def PIECE_SIZE_def)

text \<open>
  \<^bold>\<open>C8\<close>: a piece that was written is read back with its Merkle proof, and what any other
  index reads does not change.
\<close>

theorem plot_write_read:
  assumes "storage_ok D" and "hmac_ok E" and "plot_ok D p" and "length encoding = PIECE_SIZE"
    and "length (plot_file p) + PIECE_SIZE < 2 ^ 64"
  shows "\<exists>p'. write_encoding E D p encoding nonce i merkle_proof = Ok (p', Inr ()) \<and>
    read_encoding D p' i = Ok (Inr (encoding, merkle_proof)) \<and> (\<forall>j. j \<noteq> i \<longrightarrow> read_encoding D p' j = read_encoding D p j)"
  using write_encoding_reads [OF assms, of nonce i merkle_proof] by blast

theorem plot_write_read_witness:
  "\<exists>p'. write_encoding toy_crypto log_storage empty_plot (replicate PIECE_SIZE 1) 3 5 [9] = Ok (p', Inr ()) \<and>
     read_encoding log_storage p' 5 = Ok (Inr (replicate PIECE_SIZE 1, [9]))"
  using plot_write_read [OF log_storage_ok toy_hmac_ok empty_plot_ok, of "replicate PIECE_SIZE 1" 3 5 "[9]"]
  by (simp add: empty_plot_def PIECE_SIZE_def) blast

text \<open>
  \<^bold>\<open>C7\<close>: the search returns exactly the stored tags whose distance to the target, around
  the circle of 64-bit values, is at most half the range; each of them once, with its index.
\<close>

theorem plot_find_exact:
  assumes "storage_ok D" and "plot_ok D p"
  shows "\<exists>sols. find_by_range D p target r = Ok sols \<and> distinct (map fst sols) \<and>
    (\<forall>tag i. (tag, i) \<in> set sols \<longleftrightarrow> map_of (db_entries D (tags_db p)) tag = Some (u64_to_le_bytes i) \<and>
       circular_near (u64_from_be_bytes target) (r div 2) (u64_from_be_bytes tag))"
  by (rule find_by_range_facts [OF storage_okD(1) [OF assms(1)]]) (use assms(2) in \<open>simp add: plot_ok_def\<close>)

definition tagged_plot :: "(bytes \<times> bytes option) list PlotState" where
  "tagged_plot = \<lparr>plot_file = [], map_db = [],
     tags_db = [(u64_to_be_bytes (- 1), Some (u64_to_le_bytes 7)), (u64_to_be_bytes 100, Some (u64_to_le_bytes 9))]\<rparr>"

lemma tagged_plot_entries:
  "db_entries log_storage (tags_db tagged_plot) = [(u64_to_be_bytes 100, u64_to_le_bytes 9), (u64_to_be_bytes (- 1), u64_to_le_bytes 7)]"
proof -
  have "\<not> bytes_less (u64_to_be_bytes (- 1)) (u64_to_be_bytes 100)" by (simp add: bytes_less_u64)
  moreover have "u64_to_be_bytes (- 1) \<noteq> u64_to_be_bytes 100" using u64_be_roundtrip [of "- 1"] u64_be_roundtrip [of 100] by force
  ultimately show ?thesis by (simp add: tagged_plot_def log_storage_def)
qed

lemma tagged_plot_ok: "plot_ok log_storage tagged_plot"
proof -
  have "entries8 (db_entries log_storage (tags_db tagged_plot))" unfolding tagged_plot_entries by (simp add: entries8_def)
  then show ?thesis unfolding plot_ok_def by (simp add: tagged_plot_def log_storage_def)
qed

theorem plot_find_exact_witness:
  "\<exists>sols. find_by_range log_storage tagged_plot (u64_to_be_bytes 0) 4 = Ok sols \<and> (u64_to_be_bytes (- 1), 7) \<in> set sols \<and>
     (\<forall>i. (u64_to_be_bytes 100, i) \<notin> set sols)"
proof -
  obtain sols where s: "find_by_range log_storage tagged_plot (u64_to_be_bytes 0) 4 = Ok sols"
    "\<And>tag i. (tag, i) \<in> set sols \<longleftrightarrow> map_of (db_entries log_storage (tags_db tagged_plot)) tag = Some (u64_to_le_bytes i) \<and>
       circular_near (u64_from_be_bytes (u64_to_be_bytes 0)) (4 div 2) (u64_from_be_bytes tag)"
    using plot_find_exact [OF log_storage_ok tagged_plot_ok, of "u64_to_be_bytes 0" 4] by blast
  have "u64_to_be_bytes (- 1) \<noteq> u64_to_be_bytes 100" using u64_be_roundtrip [of "- 1"] u64_be_roundtrip [of 100] by force
  then have "(u64_to_be_bytes (- 1), 7) \<in> set sols" "(u64_to_be_bytes 100, i) \<notin> set sols" for i
    unfolding s(2) tagged_plot_entries by (simp_all add: circular_near_def)
  then show ?thesis using s(1) by blast
qed

text \<open>
  \<^bold>\<open>C6\<close>: no request is forgotten.  In every state the task can reach, once no caller is
  between queueing and signalling, the task left alone for \<open>task_cost\<close> steps has emptied both
  queues, and has replied to every queued request, in the order of each queue.
\<close>

theorem plot_requests_served:
  assumes "storage_ok D" and "hmac_ok E" and "reachable E D p t" and "task_ok D t" and "signalling t = 0"
  shows "\<exists>t'. run_task E D (task_cost t) t = Ok t' \<and> reads t' = [] \<and> writes t' = [] \<and>
    map fst (read_replies t') = map fst (read_replies t) @ map fst (reads t) \<and>
    map fst (write_replies t') = map fst (write_replies t) @ map fst (writes t)"
proof -
  obtain t' where t': "run_task E D (task_cost t) t = Ok t'" "phase t' = Waiting" "signals t' = 0" "wakeup_ok t'"
      "numbers t' = numbers t" "signalling t' = signalling t"
    using run_task_stops [OF assms(1,2,4) reachable_wakeup [OF assms(3)]] by blast
  then have "reads t' = [] \<and> writes t' = []" using assms(5) by (auto simp: wakeup_ok_def)
  then show ?thesis using t'(1,5) by (simp add: numbers_def)
qed

definition one_request :: "(bytes \<times> bytes option) list Task" where
  "one_request = (task_start empty_plot)\<lparr>reads := [(1, ReadEncoding 5)], signalling := 0, signals := 1\<rparr>"

lemma one_request_reachable: "reachable E D empty_plot one_request"
proof -
  let ?q = "(task_start empty_plot)\<lparr>reads := [(1, ReadEncoding 5)], signalling := 1\<rparr>"
  have "caller_step (task_start empty_plot) ?q"
    using caller_step.read_call [of "task_start empty_plot" 1 5] by (simp add: task_start_def call_defs)
  moreover have "caller_step ?q one_request" using caller_step.signal [of ?q 0] by (simp add: one_request_def task_start_def)
  ultimately show ?thesis by (blast intro: reachable.intros)
qed

theorem plot_requests_served_witness:
  "\<exists>t'. run_task toy_crypto log_storage (task_cost one_request) one_request = Ok t' \<and> map fst (read_replies t') = [1]"
proof -
  have "task_ok log_storage one_request"
    using empty_plot_ok by (simp add: task_ok_def one_request_def task_start_def) (simp add: empty_plot_def)
  moreover have "signalling one_request = 0" by (simp add: one_request_def)
  ultimately show ?thesis
    using plot_requests_served [OF log_storage_ok toy_hmac_ok one_request_reachable] by (auto simp: one_request_def task_start_def)
qed

text \<open>
  A write that fails on the file, because the disk is full for instance, is reported, but
  the piece that was stored under the index before is no longer found.
\<close>

theorem plot_failed_write_forgets:
  assumes "db_ok D" and "file_write D (plot_file p) encoding = (file, Some e)"
  shows "\<exists>p'. write_encoding E D p encoding nonce i merkle_proof = Ok (p', Inl e) \<and> read_encoding D p' i = Ok (Inl NotFound)"
proof -
  obtain c where "db_delete D (map_db p) (u64_to_le_bytes i) = Some c"
      "map_of (db_entries D c) = (map_of (db_entries D (map_db p)))(u64_to_le_bytes i := None)"
    using db_okD(5) [OF assms(1)] by blast
  then show ?thesis using assms(2) by (simp add: write_encoding_def read_encoding_def db_okD(2) [OF assms(1)] Let_def)
qed

definition full_disk :: "(bytes \<times> bytes option) list storage" where
  "full_disk = log_storage\<lparr>file_write := (\<lambda>file _. (file, Some (OtherError ''full'')))\<rparr>"

lemma full_disk_ok: "db_ok full_disk"
  using storage_okD(1) [OF log_storage_ok] by (simp add: db_ok_def full_disk_def)

theorem plot_failed_write_forgets_witness:
  "\<exists>p'. write_encoding toy_crypto full_disk empty_plot [1] 3 5 [9] = Ok (p', Inl (OtherError ''full'')) \<and>
     read_encoding full_disk p' 5 = Ok (Inl NotFound)"
  using plot_failed_write_forgets [OF full_disk_ok, of empty_plot "[1]" "[]" "OtherError ''full''" toy_crypto 3 5 "[9]"]
  by (simp add: full_disk_def empty_plot_def)

end
