(* ===== verification/MetaBlocks.thy ===== *)
theory MetaBlocks
  imports Block "HOL-Library.Finite_Map"
begin

text \<open>
  The store of blocks with their metadata (\<^verbatim>\<open>src/metablocks.rs\<close>).  \<^verbatim>\<open>blocks\<close> is a finite map, so
  that the recursion of the ledger's pruning can be seen to end.

  Main results: saving a block whose parent is known and whose ids are new keeps the store
  consistent (ids match, the two maps point at each other, heights grow by one along a chain), and
  the lookups that unwrap cannot panic on a block that is present.
\<close>

section \<open>Data and operations\<close>

record MetaBlock =
  mb_block :: Block
  mb_block_id :: BlockId
  mb_proof_id :: ProofId
  mb_content_id :: ContentId
  mb_children :: "ProofId list"
  mb_height :: u64

record MetaBlocks =
  blocks :: "(ProofId, MetaBlock) fmap"
  content_to_proof_map :: "ContentId \<rightharpoonup> ProofId"
  mbs_genesis_challenge :: bytes

definition MetaBlocks_new :: "bytes \<Rightarrow> MetaBlocks" where
  "MetaBlocks_new genesis_challenge =
     \<lparr>blocks = fmempty, content_to_proof_map = Map.empty, mbs_genesis_challenge = genesis_challenge\<rparr>"

definition contains_content_id :: "MetaBlocks \<Rightarrow> ContentId \<Rightarrow> bool" where
  "contains_content_id ms content_id \<longleftrightarrow> content_to_proof_map ms content_id \<noteq> None"

definition get_proof_id_from_content_id :: "MetaBlocks \<Rightarrow> ContentId \<Rightarrow> ProofId res" where
  "get_proof_id_from_content_id ms content_id =
     expect ''Should have content for a valid block'' (content_to_proof_map ms content_id)"

definition get_metablock_from_content_id :: "MetaBlocks \<Rightarrow> ContentId \<Rightarrow> MetaBlock res" where
  "get_metablock_from_content_id ms content_id =
     bindR (get_proof_id_from_content_id ms content_id) (\<lambda>proof_id.
     expect ''In content to proof map'' (fmlookup (blocks ms) proof_id))"

definition get_metablock_from_content_id_as_option :: "MetaBlocks \<Rightarrow> ContentId \<Rightarrow> MetaBlock option" where
  "get_metablock_from_content_id_as_option ms content_id =
     (case content_to_proof_map ms content_id of
        Some proof_id \<Rightarrow> fmlookup (blocks ms) proof_id
      | None \<Rightarrow> None)"

definition get_metablock_from_proof_id :: "MetaBlocks \<Rightarrow> ProofId \<Rightarrow> MetaBlock res" where
  "get_metablock_from_proof_id ms proof_id =
     expect ''In content to proof map'' (fmlookup (blocks ms) proof_id)"

definition get_metablock_from_proof_id_as_option :: "MetaBlocks \<Rightarrow> ProofId \<Rightarrow> MetaBlock option" where
  "get_metablock_from_proof_id_as_option ms proof_id = fmlookup (blocks ms) proof_id"

text \<open>The first half of \<^verbatim>\<open>save\<close>: the new block is pushed on its parent's children.\<close>

definition link_parent :: "MetaBlocks \<Rightarrow> ContentId option \<Rightarrow> ProofId \<Rightarrow> (MetaBlocks \<times> u64) res" where
  "link_parent ms parent_id proof_id =
     (case parent_id of
        None \<Rightarrow> Ok (ms, 0)
      | Some parent_content_id \<Rightarrow>
          if parent_content_id = mbs_genesis_challenge ms then Ok (ms, 0)
          else
            bindR (get_proof_id_from_content_id ms parent_content_id) (\<lambda>parent_proof_id.
            bindR (unwrap (fmlookup (blocks ms) parent_proof_id)) (\<lambda>parent_metablock.
            Ok (ms\<lparr>blocks := fmupd parent_proof_id
                     (parent_metablock\<lparr>mb_children := mb_children parent_metablock @ [proof_id]\<rparr>) (blocks ms)\<rparr>,
                mb_height parent_metablock + 1))))"

definition save :: "'z blocklib_scheme \<Rightarrow> MetaBlocks \<Rightarrow> Block \<Rightarrow> (MetaBlocks \<times> MetaBlock) res" where
  "save E ms block =
     (let block_id = Block_get_id E block;
          proof_id = Proof_get_id E (b_proof block);
          content_id = Content_get_id E (b_content block)
      in bindR (link_parent ms (c_parent_id (b_content block)) proof_id) (\<lambda>(ms, height).
         let metablock = \<lparr>mb_block = block, mb_block_id = block_id, mb_proof_id = proof_id,
                          mb_content_id = content_id, mb_children = [], mb_height = height\<rparr>
         in if (\<exists>m. fmlookup (blocks ms) proof_id = Some m \<and> mb_block_id m \<noteq> block_id)
            then Panic (PanicMsg ''Two contents are being used for the same proof!'')
            else Ok (ms\<lparr>blocks := fmupd proof_id metablock (blocks ms),
                        content_to_proof_map := (content_to_proof_map ms)(content_id \<mapsto> proof_id)\<rparr>,
                     metablock)))"

definition remove :: "MetaBlocks \<Rightarrow> ProofId \<Rightarrow> (MetaBlocks \<times> MetaBlock) res" where
  "remove ms proof_id =
     bindR (expect ''Will exist'' (fmlookup (blocks ms) proof_id)) (\<lambda>removed_metablock.
     if content_to_proof_map ms (mb_content_id removed_metablock) = None
     then Panic (PanicMsg ''Pointer for removed block should exist!'')
     else Ok (ms\<lparr>blocks := fmdrop proof_id (blocks ms),
                 content_to_proof_map := (content_to_proof_map ms)(mb_content_id removed_metablock := None)\<rparr>,
              removed_metablock))"

section \<open>Consistency of the store\<close>

definition metablock_ok :: "'z blocklib_scheme \<Rightarrow> ProofId \<Rightarrow> MetaBlock \<Rightarrow> bool" where
  "metablock_ok E p m \<longleftrightarrow> mb_proof_id m = p \<and> p = Proof_get_id E (b_proof (mb_block m)) \<and>
     mb_content_id m = Content_get_id E (b_content (mb_block m)) \<and> mb_block_id m = Block_get_id E (mb_block m)"

text \<open>The parent of a block, when it is neither a transaction block nor a child of the genesis.\<close>

definition parent_of :: "MetaBlocks \<Rightarrow> Block \<Rightarrow> ContentId option" where
  "parent_of ms b =
     (case c_parent_id (b_content b) of
        None \<Rightarrow> None
      | Some c \<Rightarrow> if c = mbs_genesis_challenge ms then None else Some c)"

definition metablocks_ok :: "'z blocklib_scheme \<Rightarrow> MetaBlocks \<Rightarrow> bool" where
  "metablocks_ok E ms \<longleftrightarrow>
     (\<forall>p m. fmlookup (blocks ms) p = Some m \<longrightarrow>
        metablock_ok E p m \<and> content_to_proof_map ms (mb_content_id m) = Some p) \<and>
     (\<forall>c p. content_to_proof_map ms c = Some p \<longrightarrow> (\<exists>m. fmlookup (blocks ms) p = Some m \<and> mb_content_id m = c))"

text \<open>Along a chain the heights grow by one.\<close>

definition heights_ok :: "MetaBlocks \<Rightarrow> bool" where
  "heights_ok ms \<longleftrightarrow>
     (\<forall>p m. fmlookup (blocks ms) p = Some m \<longrightarrow>
        (case parent_of ms (mb_block m) of
           None \<Rightarrow> mb_height m = 0
         | Some c \<Rightarrow> \<exists>pm. get_metablock_from_content_id_as_option ms c = Some pm \<and>
                       p \<in> set (mb_children pm) \<and> mb_height m = mb_height pm + 1))"

lemma metablocks_new_ok: "metablocks_ok E (MetaBlocks_new g)" "heights_ok (MetaBlocks_new g)"
  by (auto simp: metablocks_ok_def heights_ok_def MetaBlocks_new_def)

lemma metablocks_okD:
  assumes "metablocks_ok E ms" and "fmlookup (blocks ms) p = Some m"
  shows "metablock_ok E p m" "content_to_proof_map ms (mb_content_id m) = Some p"
  using assms unfolding metablocks_ok_def by blast+

lemma metablocks_ok_pointer:
  assumes "metablocks_ok E ms" and "content_to_proof_map ms c = Some p"
  obtains m where "fmlookup (blocks ms) p = Some m" "mb_content_id m = c"
  using assms unfolding metablocks_ok_def by blast

lemma content_lookup:
  assumes "metablocks_ok E ms"
  shows "contains_content_id ms c \<longleftrightarrow> (\<exists>m. get_metablock_from_content_id ms c = Ok m)"
    and "get_metablock_from_content_id ms c = Ok m \<longleftrightarrow> get_metablock_from_content_id_as_option ms c = Some m"
    and "get_metablock_from_content_id_as_option ms c = Some m \<Longrightarrow>
           mb_content_id m = c \<and> fmlookup (blocks ms) (mb_proof_id m) = Some m \<and>
           content_to_proof_map ms c = Some (mb_proof_id m)"
proof -
  have l: "\<exists>m. fmlookup (blocks ms) p = Some m \<and> mb_content_id m = c" if "content_to_proof_map ms c = Some p" for p
    using metablocks_ok_pointer [OF assms that] by blast
  show "contains_content_id ms c \<longleftrightarrow> (\<exists>m. get_metablock_from_content_id ms c = Ok m)"
    using l by (cases "content_to_proof_map ms c")
      (auto simp: contains_content_id_def get_metablock_from_content_id_def get_proof_id_from_content_id_def)
  show "get_metablock_from_content_id ms c = Ok m \<longleftrightarrow> get_metablock_from_content_id_as_option ms c = Some m"
    by (cases "content_to_proof_map ms c")
      (auto simp: get_metablock_from_content_id_def get_proof_id_from_content_id_def
        get_metablock_from_content_id_as_option_def)
  assume "get_metablock_from_content_id_as_option ms c = Some m"
  then obtain p where p: "content_to_proof_map ms c = Some p" "fmlookup (blocks ms) p = Some m"
    by (auto simp: get_metablock_from_content_id_as_option_def split: option.splits)
  then show "mb_content_id m = c \<and> fmlookup (blocks ms) (mb_proof_id m) = Some m \<and>
      content_to_proof_map ms c = Some (mb_proof_id m)"
    using l [OF p(1)] metablocks_okD [OF assms p(2)] by (auto simp: metablock_ok_def)
qed

section \<open>Saving a block\<close>

text \<open>A block that the store has not seen: neither its proof nor its content.\<close>

definition fresh_block :: "'z blocklib_scheme \<Rightarrow> MetaBlocks \<Rightarrow> Block \<Rightarrow> bool" where
  "fresh_block E ms b \<longleftrightarrow> fmlookup (blocks ms) (Proof_get_id E (b_proof b)) = None \<and>
     content_to_proof_map ms (Content_get_id E (b_content b)) = None"

definition parent_known :: "MetaBlocks \<Rightarrow> Block \<Rightarrow> bool" where
  "parent_known ms b \<longleftrightarrow> (\<forall>c. parent_of ms b = Some c \<longrightarrow> contains_content_id ms c)"

definition new_metablock :: "'z blocklib_scheme \<Rightarrow> Block \<Rightarrow> u64 \<Rightarrow> MetaBlock" where
  "new_metablock E b h = \<lparr>mb_block = b, mb_block_id = Block_get_id E b, mb_proof_id = Proof_get_id E (b_proof b),
     mb_content_id = Content_get_id E (b_content b), mb_children = [], mb_height = h\<rparr>"

lemma save_no_parent:
  assumes "parent_of ms b = None" and "fresh_block E ms b"
  shows "save E ms b = Ok (ms\<lparr>blocks := fmupd (Proof_get_id E (b_proof b)) (new_metablock E b 0) (blocks ms),
      content_to_proof_map := (content_to_proof_map ms)(Content_get_id E (b_content b) \<mapsto> Proof_get_id E (b_proof b))\<rparr>,
    new_metablock E b 0)"
  using assms
  by (auto simp: save_def link_parent_def parent_of_def fresh_block_def new_metablock_def Let_def
      split: option.splits if_splits)

lemma save_with_parent:
  assumes "parent_of ms b = Some c" and "fresh_block E ms b" and "metablocks_ok E ms"
    and "get_metablock_from_content_id_as_option ms c = Some pm"
  shows "save E ms b = Ok (ms\<lparr>blocks := fmupd (Proof_get_id E (b_proof b)) (new_metablock E b (mb_height pm + 1))
        (fmupd (mb_proof_id pm) (pm\<lparr>mb_children := mb_children pm @ [Proof_get_id E (b_proof b)]\<rparr>) (blocks ms)),
      content_to_proof_map := (content_to_proof_map ms)(Content_get_id E (b_content b) \<mapsto> Proof_get_id E (b_proof b))\<rparr>,
    new_metablock E b (mb_height pm + 1))"
proof -
  have "content_to_proof_map ms c = Some (mb_proof_id pm)" "fmlookup (blocks ms) (mb_proof_id pm) = Some pm"
    using content_lookup(3) [OF assms(3,4)] by auto
  then show ?thesis using assms(1,2)
    by (auto simp: save_def link_parent_def parent_of_def fresh_block_def new_metablock_def Let_def
        get_proof_id_from_content_id_def split: option.splits if_splits)
qed

text \<open>Pushing a child and inserting a new block, as two steps on the store.\<close>

definition push_child :: "MetaBlocks \<Rightarrow> MetaBlock \<Rightarrow> ProofId \<Rightarrow> MetaBlocks" where
  "push_child ms pm q = ms\<lparr>blocks := fmupd (mb_proof_id pm) (pm\<lparr>mb_children := mb_children pm @ [q]\<rparr>) (blocks ms)\<rparr>"

definition insert_block :: "MetaBlocks \<Rightarrow> MetaBlock \<Rightarrow> MetaBlocks" where
  "insert_block ms m = ms\<lparr>blocks := fmupd (mb_proof_id m) m (blocks ms),
     content_to_proof_map := (content_to_proof_map ms)(mb_content_id m \<mapsto> mb_proof_id m)\<rparr>"

lemma push_child_ok:
  assumes "metablocks_ok E ms" and "fmlookup (blocks ms) (mb_proof_id pm) = Some pm"
  shows "metablocks_ok E (push_child ms pm q)"
  unfolding metablocks_ok_def
proof (intro conjI allI impI)
  fix p m assume l: "fmlookup (blocks (push_child ms pm q)) p = Some m"
  obtain m0 where m0: "fmlookup (blocks ms) p = Some m0" "mb_block m = mb_block m0" "mb_block_id m = mb_block_id m0"
      "mb_proof_id m = mb_proof_id m0" "mb_content_id m = mb_content_id m0"
    using l assms(2) by (cases "p = mb_proof_id pm") (auto simp: push_child_def)
  then show "metablock_ok E p m" "content_to_proof_map (push_child ms pm q) (mb_content_id m) = Some p"
    using metablocks_okD [OF assms(1) m0(1)] by (simp_all add: metablock_ok_def push_child_def)
next
  fix c p assume "content_to_proof_map (push_child ms pm q) c = Some p"
  then obtain m where "fmlookup (blocks ms) p = Some m" "mb_content_id m = c"
    using metablocks_ok_pointer [OF assms(1), of c p] by (auto simp: push_child_def)
  then show "\<exists>m. fmlookup (blocks (push_child ms pm q)) p = Some m \<and> mb_content_id m = c"
    using assms(2) by (cases "p = mb_proof_id pm") (auto simp: push_child_def)
qed

lemma insert_block_ok:
  assumes "metablocks_ok E ms" and "metablock_ok E (mb_proof_id m) m"
    and "fmlookup (blocks ms) (mb_proof_id m) = None" and "content_to_proof_map ms (mb_content_id m) = None"
  shows "metablocks_ok E (insert_block ms m)"
  unfolding metablocks_ok_def
proof (intro conjI allI impI)
  fix p m' assume l: "fmlookup (blocks (insert_block ms m)) p = Some m'"
  show "metablock_ok E p m'"
    using l assms(2) metablocks_okD(1) [OF assms(1), of p m'] by (auto simp: insert_block_def split: if_splits)
  show "content_to_proof_map (insert_block ms m) (mb_content_id m') = Some p"
    using l assms(4) metablocks_okD(2) [OF assms(1), of p m'] by (auto simp: insert_block_def split: if_splits)
next
  fix c p assume l: "content_to_proof_map (insert_block ms m) c = Some p"
  show "\<exists>m'. fmlookup (blocks (insert_block ms m)) p = Some m' \<and> mb_content_id m' = c"
  proof (cases "c = mb_content_id m")
    case False
    then obtain m' where "fmlookup (blocks ms) p = Some m'" "mb_content_id m' = c"
      using l metablocks_ok_pointer [OF assms(1), of c p] by (auto simp: insert_block_def)
    then show ?thesis using assms(3) by (auto simp: insert_block_def)
  qed (use l in \<open>auto simp: insert_block_def\<close>)
qed

lemma push_child_lookup:
  assumes "metablocks_ok E ms" and "fmlookup (blocks ms) (mb_proof_id pm) = Some pm"
  shows "get_metablock_from_content_id_as_option (push_child ms pm q) c =
    map_option (\<lambda>m. if m = pm then pm\<lparr>mb_children := mb_children pm @ [q]\<rparr> else m)
      (get_metablock_from_content_id_as_option ms c)"
proof (cases "content_to_proof_map ms c")
  case (Some p)
  show ?thesis
  proof (cases "fmlookup (blocks ms) p")
    case None
    then show ?thesis using Some assms(2)
      by (auto simp: get_metablock_from_content_id_as_option_def push_child_def)
  next
    case m: (Some m)
    then have "mb_proof_id m = p" using metablocks_okD(1) [OF assms(1)] by (simp add: metablock_ok_def)
    then show ?thesis using Some m assms(2)
      by (auto simp: get_metablock_from_content_id_as_option_def push_child_def)
  qed
qed (simp add: get_metablock_from_content_id_as_option_def push_child_def)

lemma insert_block_lookup:
  assumes "metablocks_ok E ms" and "fmlookup (blocks ms) (mb_proof_id m) = None"
  shows "get_metablock_from_content_id_as_option (insert_block ms m) c =
    (if c = mb_content_id m then Some m else get_metablock_from_content_id_as_option ms c)"
proof (cases "content_to_proof_map ms c")
  case None
  then show ?thesis by (simp add: get_metablock_from_content_id_as_option_def insert_block_def)
next
  case (Some p)
  obtain m' where "fmlookup (blocks ms) p = Some m'" using metablocks_ok_pointer [OF assms(1) Some] by blast
  then have "p \<noteq> mb_proof_id m" using assms(2) by auto
  then show ?thesis using Some by (simp add: get_metablock_from_content_id_as_option_def insert_block_def)
qed

lemma parent_of_frame [simp]:
  "parent_of (push_child ms pm q) b = parent_of ms b" "parent_of (insert_block ms m) b = parent_of ms b"
  by (simp_all add: parent_of_def push_child_def insert_block_def split: option.splits)

lemma push_child_heights:
  assumes "metablocks_ok E ms" and "heights_ok ms" and "fmlookup (blocks ms) (mb_proof_id pm) = Some pm"
  shows "heights_ok (push_child ms pm q)"
proof -
  let ?pm = "pm\<lparr>mb_children := mb_children pm @ [q]\<rparr>"
  have "case parent_of ms (mb_block m) of None \<Rightarrow> mb_height m = 0
      | Some c \<Rightarrow> \<exists>pm'. get_metablock_from_content_id_as_option (push_child ms pm q) c = Some pm' \<and>
          p \<in> set (mb_children pm') \<and> mb_height m = mb_height pm' + 1"
    if l: "fmlookup (blocks (push_child ms pm q)) p = Some m" for p m
  proof -
    obtain m0 where m0: "fmlookup (blocks ms) p = Some m0" "mb_block m = mb_block m0" "mb_height m = mb_height m0"
      using l assms(3) by (cases "p = mb_proof_id pm") (auto simp: push_child_def)
    have h: "case parent_of ms (mb_block m0) of None \<Rightarrow> mb_height m0 = 0
      | Some c \<Rightarrow> \<exists>pm. get_metablock_from_content_id_as_option ms c = Some pm \<and>
          p \<in> set (mb_children pm) \<and> mb_height m0 = mb_height pm + 1"
      using assms(2) m0(1) unfolding heights_ok_def by blast
    show ?thesis
    proof (cases "parent_of ms (mb_block m0)")
      case (Some c)
      then obtain pm0 where "get_metablock_from_content_id_as_option ms c = Some pm0"
          "p \<in> set (mb_children pm0)" "mb_height m0 = mb_height pm0 + 1" using h by auto
      then show ?thesis using Some m0 push_child_lookup [OF assms(1,3), of q c]
        by (cases "pm0 = pm") auto
    qed (use h m0 in simp)
  qed
  then show ?thesis unfolding heights_ok_def by simp
qed

lemma insert_block_heights:
  assumes "metablocks_ok E ms" and "heights_ok ms" and "fmlookup (blocks ms) (mb_proof_id m) = None"
    and "content_to_proof_map ms (mb_content_id m) = None"
    and "case parent_of ms (mb_block m) of None \<Rightarrow> mb_height m = 0
      | Some c \<Rightarrow> \<exists>pm. get_metablock_from_content_id_as_option ms c = Some pm \<and>
          mb_proof_id m \<in> set (mb_children pm) \<and> mb_height m = mb_height pm + 1"
  shows "heights_ok (insert_block ms m)"
proof -
  have keep: "get_metablock_from_content_id_as_option (insert_block ms m) c = Some pm"
    if "get_metablock_from_content_id_as_option ms c = Some pm" for c pm
    using that insert_block_lookup [OF assms(1,3)] assms(4)
    by (auto simp: get_metablock_from_content_id_as_option_def)
  have "case parent_of ms (mb_block m') of None \<Rightarrow> mb_height m' = 0
      | Some c \<Rightarrow> \<exists>pm. get_metablock_from_content_id_as_option (insert_block ms m) c = Some pm \<and>
          p \<in> set (mb_children pm) \<and> mb_height m' = mb_height pm + 1"
    if "fmlookup (blocks (insert_block ms m)) p = Some m'" for p m'
  proof (cases "p = mb_proof_id m")
    case True
    then have "m' = m" using that by (simp add: insert_block_def)
    then show ?thesis using assms(5) True keep by (auto split: option.splits)
  next
    case False
    then have "fmlookup (blocks ms) p = Some m'" using that by (simp add: insert_block_def)
    then have "case parent_of ms (mb_block m') of None \<Rightarrow> mb_height m' = 0
      | Some c \<Rightarrow> \<exists>pm. get_metablock_from_content_id_as_option ms c = Some pm \<and>
          p \<in> set (mb_children pm) \<and> mb_height m' = mb_height pm + 1"
      using assms(2) unfolding heights_ok_def by blast
    then show ?thesis using keep by (auto split: option.splits)
  qed
  then show ?thesis unfolding heights_ok_def by simp
qed

text \<open>What \<^verbatim>\<open>save\<close> does with a new block whose parent is known.\<close>

lemma save_Ok:
  assumes ok: "metablocks_ok E ms" and "heights_ok ms" and fresh: "fresh_block E ms b" and "parent_known ms b"
  shows "\<exists>ms' m. save E ms b = Ok (ms', m) \<and> metablocks_ok E ms' \<and> heights_ok ms' \<and>
    mb_block m = b \<and> mb_children m = [] \<and> metablock_ok E (mb_proof_id m) m \<and>
    get_metablock_from_content_id_as_option ms' (mb_content_id m) = Some m \<and>
    mbs_genesis_challenge ms' = mbs_genesis_challenge ms \<and>
    (\<forall>c. c \<noteq> mb_content_id m \<longrightarrow> contains_content_id ms' c = contains_content_id ms c)"
proof (cases "parent_of ms b")
  case None
  let ?m = "new_metablock E b 0"
  have m: "metablock_ok E (mb_proof_id ?m) ?m" "mb_block ?m = b" "mb_children ?m = []"
    and f: "fmlookup (blocks ms) (mb_proof_id ?m) = None" "content_to_proof_map ms (mb_content_id ?m) = None"
    using fresh by (simp_all add: metablock_ok_def new_metablock_def fresh_block_def)
  have "save E ms b = Ok (insert_block ms ?m, ?m)"
    using save_no_parent [OF None fresh] by (simp add: insert_block_def new_metablock_def)
  moreover have "heights_ok (insert_block ms ?m)"
    by (rule insert_block_heights [OF ok assms(2) f]) (simp add: m None, simp add: new_metablock_def)
  ultimately show ?thesis using m insert_block_ok [OF ok m(1) f] insert_block_lookup [OF ok f(1)]
    by (auto simp: contains_content_id_def insert_block_def)
next
  case (Some c)
  then have "contains_content_id ms c" using assms(4) by (simp add: parent_known_def)
  then obtain pm where pm: "get_metablock_from_content_id_as_option ms c = Some pm"
    using content_lookup(1,2) [OF ok] by blast
  then have pl: "fmlookup (blocks ms) (mb_proof_id pm) = Some pm" using content_lookup(3) [OF ok pm] by simp
  let ?m = "new_metablock E b (mb_height pm + 1)"
  let ?ms = "push_child ms pm (Proof_get_id E (b_proof b))"
  have ok1: "metablocks_ok E ?ms" and h1: "heights_ok ?ms"
    using push_child_ok [OF ok pl] push_child_heights [OF ok assms(2) pl] by auto
  have m: "metablock_ok E (mb_proof_id ?m) ?m" "mb_block ?m = b" "mb_children ?m = []"
    and f: "fmlookup (blocks ?ms) (mb_proof_id ?m) = None" "content_to_proof_map ?ms (mb_content_id ?m) = None"
    using fresh pl by (auto simp: metablock_ok_def new_metablock_def fresh_block_def push_child_def)
  have "save E ms b = Ok (insert_block ?ms ?m, ?m)"
    using save_with_parent [OF Some fresh ok pm] by (simp add: insert_block_def push_child_def new_metablock_def)
  moreover have "heights_ok (insert_block ?ms ?m)"
    by (rule insert_block_heights [OF ok1 h1 f])
      (simp add: m Some push_child_lookup [OF ok pl] pm, simp add: new_metablock_def)
  ultimately show ?thesis using m insert_block_ok [OF ok1 m(1) f] insert_block_lookup [OF ok1 f(1)]
    by (auto simp: contains_content_id_def insert_block_def push_child_def)
qed

section \<open>Removing a block\<close>

lemma remove_Ok:
  assumes "metablocks_ok E ms" and "fmlookup (blocks ms) p = Some m"
  shows "remove ms p = Ok (ms\<lparr>blocks := fmdrop p (blocks ms),
      content_to_proof_map := (content_to_proof_map ms)(mb_content_id m := None)\<rparr>, m)"
  using metablocks_okD(2) [OF assms] assms(2) by (simp add: remove_def)

lemma remove_Ok_E:
  assumes "remove ms p = Ok (ms', m)"
  shows "fmlookup (blocks ms) p = Some m" "content_to_proof_map ms (mb_content_id m) \<noteq> None"
    "ms' = ms\<lparr>blocks := fmdrop p (blocks ms), content_to_proof_map := (content_to_proof_map ms)(mb_content_id m := None)\<rparr>"
  using assms by (auto simp: remove_def bindR_Ok_iff split: if_splits)

lemma remove_ok:
  assumes "metablocks_ok E ms" and "remove ms p = Ok (ms', m)"
  shows "metablocks_ok E ms'"
  unfolding metablocks_ok_def
proof (intro conjI allI impI)
  note r = remove_Ok_E [OF assms(2)]
  have mp: "content_to_proof_map ms (mb_content_id m) = Some p" using metablocks_okD(2) [OF assms(1) r(1)] .
  {
    fix q m' assume "fmlookup (blocks ms') q = Some m'"
    then have l: "fmlookup (blocks ms) q = Some m'" "q \<noteq> p" using r(3) by (auto split: if_splits)
    then show "metablock_ok E q m'" using metablocks_okD(1) [OF assms(1)] by blast
    show "content_to_proof_map ms' (mb_content_id m') = Some q"
      using metablocks_okD(2) [OF assms(1) l(1)] l(2) mp r(3) by auto
  next
    fix c q assume "content_to_proof_map ms' c = Some q"
    then have c: "content_to_proof_map ms c = Some q" "c \<noteq> mb_content_id m" using r(3) by (auto split: if_splits)
    obtain m' where m': "fmlookup (blocks ms) q = Some m'" "mb_content_id m' = c"
      using metablocks_ok_pointer [OF assms(1) c(1)] by blast
    then have "q \<noteq> p" using r(1) c(2) by auto
    then show "\<exists>m. fmlookup (blocks ms') q = Some m \<and> mb_content_id m = c" using m' r(3) by auto
  }
qed

section \<open>Properties\<close>

text \<open>
  Saving a new block whose parent is known never panics and keeps the store consistent: every
  block is stored under its proof id and reachable from its content id, its height is one more than
  its parent's, it is among its parent's children, and the new block is found by its content id.
\<close>

theorem metablocks_save_consistent:
  assumes "metablocks_ok E ms" and "heights_ok ms" and "fresh_block E ms b" and "parent_known ms b"
  shows "\<exists>ms' m. save E ms b = Ok (ms', m) \<and> metablocks_ok E ms' \<and> heights_ok ms' \<and>
    get_metablock_from_content_id ms' (Content_get_id E (b_content b)) = Ok m \<and> mb_block m = b"
proof -
  obtain ms' m where s: "save E ms b = Ok (ms', m)" "metablocks_ok E ms'" "heights_ok ms'" "mb_block m = b"
    "metablock_ok E (mb_proof_id m) m" "get_metablock_from_content_id_as_option ms' (mb_content_id m) = Some m"
    using save_Ok [OF assms] by blast
  then have "get_metablock_from_content_id ms' (Content_get_id E (b_content b)) = Ok m"
    using content_lookup(2) [OF s(2)] by (simp add: metablock_ok_def)
  then show ?thesis using s by blast
qed

text \<open>
  Saving a new block panics exactly when its parent is not in the store.
\<close>

theorem save_panics_iff_orphan:
  assumes "metablocks_ok E ms" and "heights_ok ms" and "fresh_block E ms b"
  shows "(\<exists>e. save E ms b = Panic e) \<longleftrightarrow> \<not> parent_known ms b"
proof
  assume "\<exists>e. save E ms b = Panic e"
  then show "\<not> parent_known ms b" using save_Ok [OF assms] by force
next
  assume "\<not> parent_known ms b"
  then obtain c where "parent_of ms b = Some c" "content_to_proof_map ms c = None"
    by (auto simp: parent_known_def contains_content_id_def)
  then show "\<exists>e. save E ms b = Panic e"
    by (auto simp: save_def link_parent_def parent_of_def get_proof_id_from_content_id_def Let_def
        split: option.splits if_splits)
qed

text \<open>
  Saving a transaction block that is already stored is not idempotent: it replaces the entry by one
  without children.
\<close>

theorem save_again_drops_children:
  assumes "fmlookup (blocks ms) (Proof_get_id E (b_proof b)) = Some m" and "mb_block_id m = Block_get_id E b"
    and "parent_of ms b = None"
  shows "\<exists>ms' m'. save E ms b = Ok (ms', m') \<and>
    fmlookup (blocks ms') (Proof_get_id E (b_proof b)) = Some m' \<and> mb_children m' = [] \<and> mb_height m' = 0"
  using assms
  by (auto simp: save_def link_parent_def parent_of_def Let_def split: option.splits if_splits)

section \<open>A concrete store\<close>

lemma toy_fresh: "fresh_block E (MetaBlocks_new g) b" "parent_known (MetaBlocks_new g) (toy_block None rs)"
  by (simp_all add: fresh_block_def MetaBlocks_new_def parent_known_def parent_of_def toy_block_def)

theorem metablocks_save_consistent_witness:
  "\<exists>ms' m. save toy_blocklib (MetaBlocks_new (replicate 32 0)) (toy_block None [[]]) = Ok (ms', m) \<and>
     metablocks_ok toy_blocklib ms' \<and> heights_ok ms' \<and> mb_block m = toy_block None [[]]"
  using metablocks_save_consistent [OF metablocks_new_ok toy_fresh] by blast

theorem save_panics_iff_orphan_witness:
  "\<exists>e. save toy_blocklib (MetaBlocks_new (replicate 32 0)) (toy_block (Some [1]) [[]]) = Panic e"
proof -
  have "\<not> parent_known (MetaBlocks_new (replicate 32 0)) (toy_block (Some [1]) [[]])"
    by (simp add: parent_known_def parent_of_def toy_block_def MetaBlocks_new_def contains_content_id_def
        numeral_eq_Suc)
  then show ?thesis using save_panics_iff_orphan [OF metablocks_new_ok toy_fresh(1)] by blast
qed

theorem save_again_drops_children_witness:
  "\<exists>ms' m'. save toy_blocklib ((MetaBlocks_new (replicate 32 0))\<lparr>blocks :=
       fmupd (Proof_get_id toy_blocklib (b_proof (toy_block None [])))
         ((new_metablock toy_blocklib (toy_block None []) 0)\<lparr>mb_children := [[1]]\<rparr>) fmempty\<rparr>) (toy_block None [])
     = Ok (ms', m') \<and> mb_children m' = []"
  (is "\<exists>ms' m'. save _ ?ms ?b = _ \<and> _")
proof -
  have "fmlookup (blocks ?ms) (Proof_get_id toy_blocklib (b_proof ?b)) =
      Some ((new_metablock toy_blocklib ?b 0)\<lparr>mb_children := [[1]]\<rparr>)" by simp
  moreover have "mb_block_id ((new_metablock toy_blocklib ?b 0)\<lparr>mb_children := [[1]]\<rparr>) = Block_get_id toy_blocklib ?b"
    by (simp add: new_metablock_def)
  moreover have "parent_of ?ms ?b = None" by (simp add: parent_of_def toy_block_def)
  ultimately show ?thesis using save_again_drops_children [of ?ms toy_blocklib ?b] by blast
qed

end
