(* ===== verification/Epoch.thy ===== *)
theory Epoch
  imports Crypto
begin

text \<open>
  Epochs and the epoch tracker (\<^verbatim>\<open>src/timer/epoch.rs\<close>, \<^verbatim>\<open>src/timer/epoch_tracker.rs\<close>).  The
  tracker's mutex makes each of its operations atomic, so a concurrent run is a sequence of
  operations on \<open>Inner\<close>.

  Main results: the slot challenge is available exactly for the epochs up to the current one; once
  an epoch is closed its randomness never changes; closing an epoch takes the first proof of a
  shortest branch.
\<close>

section \<open>Data and operations\<close>

record Epoch =
  is_closed :: bool
  ep_randomness :: bytes
  branches :: "ProofId list list"

definition Epoch_new :: "'z crypto_scheme \<Rightarrow> u64 \<Rightarrow> Epoch" where
  "Epoch_new E i =
     \<lparr>is_closed = False, ep_randomness = digest_sha_256 E (u64_to_le_bytes i), branches = []\<rparr>"

text \<open>The nested loops of \<^verbatim>\<open>add_proof\<close>: the first branch with the parent, searched from its end.\<close>

fun find_parent :: "ProofId \<Rightarrow> nat \<Rightarrow> ProofId list list \<Rightarrow> (nat \<times> ProofId list \<times> nat) option" where
  "find_parent parent i [] = None"
| "find_parent parent i (branch # bs) =
     (case position (\<lambda>proof_id. proof_id = parent) (rev branch) of
        Some proof_index \<Rightarrow> Some (i, branch, proof_index)
      | None \<Rightarrow> find_parent parent (Suc i) bs)"

definition add_proof :: "Epoch \<Rightarrow> ProofId \<Rightarrow> ProofId \<Rightarrow> Epoch" where
  "add_proof ep parent_proof_id new_proof_id =
     (if branches ep = [] then ep\<lparr>branches := [[new_proof_id]]\<rparr>
      else case find_parent parent_proof_id 0 (branches ep) of
        Some (branch_index, branch, proof_index) \<Rightarrow>
          if proof_index = 0 then
            ep\<lparr>branches := (branches ep)[branch_index := branches ep ! branch_index @ [new_proof_id]]\<rparr>
          else
            ep\<lparr>branches := branches ep @ [take (length branch - proof_index) branch @ [new_proof_id]]\<rparr>
      | None \<Rightarrow> ep\<lparr>branches := branches ep @ [[new_proof_id]]\<rparr>)"

definition branch_indices_by_length :: "ProofId list list \<Rightarrow> (nat \<times> nat list) list" where
  "branch_indices_by_length bs =
     foldl (\<lambda>m (i, branch). btree_push (length branch) i m) [] (enumerate 0 bs)"

definition first_proof :: "ProofId list list \<Rightarrow> nat \<Rightarrow> ProofId res" where
  "first_proof bs i =
     bindR (index bs i) (\<lambda>branch. expect ''Has a proof'' (case branch of [] \<Rightarrow> None | p # _ \<Rightarrow> Some p))"

text \<open>
  \<^verbatim>\<open>close\<close>.  The other branches of the same length are only inspected to log an error, but their
  first proof is unwrapped.
\<close>

definition Epoch_close :: "'z crypto_scheme \<Rightarrow> Epoch \<Rightarrow> u64 \<Rightarrow> Epoch res" where
  "Epoch_close E ep current_epoch =
     bindR (case branch_indices_by_length (branches ep) of
              [] \<Rightarrow> Ok (digest_sha_256 E (u64_to_le_bytes current_epoch))
            | (_, indices) # _ \<Rightarrow>
                bindR (index indices 0) (\<lambda>i.
                bindR (first_proof (branches ep) i) (\<lambda>first_proof_id.
                foldR (\<lambda>r j. bindR (first_proof (branches ep) j) (\<lambda>_. Ok r)) first_proof_id (drop 1 indices))))
       (\<lambda>r. Ok (ep\<lparr>ep_randomness := r, branches := [], is_closed := True\<rparr>))"

record Inner =
  current_epoch :: u64
  epochs :: "u64 \<rightharpoonup> Epoch"

definition Inner_default :: Inner where
  "Inner_default = \<lparr>current_epoch = 0, epochs = Map.empty\<rparr>"

definition advance_epoch :: "'z crypto_scheme \<Rightarrow> Inner \<Rightarrow> (Inner \<times> u64) res" where
  "advance_epoch E t =
     (let current = (if epochs t = Map.empty then 0 else current_epoch t + 1);
          t = t\<lparr>current_epoch := current, epochs := (epochs t)(current \<mapsto> Epoch_new E current)\<rparr>
      in if EPOCH_CLOSE_WAIT_TIME \<le> current then
           (let close_epoch_index = current - EPOCH_CLOSE_WAIT_TIME
            in bindR (unwrap (epochs t close_epoch_index)) (\<lambda>epoch.
               bindR (Epoch_close E epoch current) (\<lambda>epoch.
               Ok (t\<lparr>epochs := (epochs t)(close_epoch_index \<mapsto> epoch)\<rparr>, current))))
         else Ok (t, current))"

definition EpochTracker_new :: "'z crypto_scheme \<Rightarrow> Inner res" where
  "EpochTracker_new E = bindR (advance_epoch E Inner_default) (\<lambda>(t, _). Ok t)"

definition get_current_epoch :: "Inner \<Rightarrow> u64" where
  "get_current_epoch t = current_epoch t"

definition get_epoch :: "Inner \<Rightarrow> u64 \<Rightarrow> Epoch res" where
  "get_epoch t epoch_index = unwrap (epochs t epoch_index)"

definition get_slot_challenge :: "'z crypto_scheme \<Rightarrow> Inner \<Rightarrow> u64 \<Rightarrow> u64 \<Rightarrow> (bytes \<times> bytes) res" where
  "get_slot_challenge E t epoch_index timeslot =
     bindR (if epoch_index = 0 then Ok (replicate 32 0)
            else
              bindR (get_epoch t (epoch_index - CHALLENGE_LOOKBACK_EPOCHS)) (\<lambda>lookback_epoch.
              if \<not> is_closed lookback_epoch
              then Panic (PanicMsg ''Epoch being used for randomness is still open!'')
              else Ok (ep_randomness lookback_epoch)))
       (\<lambda>randomness. Ok (randomness, digest_sha_256 E (randomness @ u64_to_le_bytes timeslot)))"

definition add_proof_to_epoch :: "Inner \<Rightarrow> u64 \<Rightarrow> ProofId \<Rightarrow> ProofId \<Rightarrow> Inner res" where
  "add_proof_to_epoch t epoch_index parent_proof_id proof_id =
     bindR (unwrap (epochs t epoch_index)) (\<lambda>ep.
     Ok (t\<lparr>epochs := (epochs t)(epoch_index \<mapsto> add_proof ep parent_proof_id proof_id)\<rparr>))"

text \<open>The two operations that change the tracker.\<close>

datatype tracker_op = AdvanceEpoch | AddProof u64 ProofId ProofId

fun tracker_step :: "'z crypto_scheme \<Rightarrow> Inner \<Rightarrow> tracker_op \<Rightarrow> Inner res" where
  "tracker_step E t AdvanceEpoch = bindR (advance_epoch E t) (\<lambda>(t, _). Ok t)"
| "tracker_step E t (AddProof e parent p) = add_proof_to_epoch t e parent p"

section \<open>Branches\<close>

lemma add_proof_frame [simp]:
  "is_closed (add_proof ep a b) = is_closed ep" "ep_randomness (add_proof ep a b) = ep_randomness ep"
  by (auto simp: add_proof_def split: option.splits)

lemma find_parent_nth:
  "find_parent a k bs = Some (i, b, j) \<Longrightarrow>
     k \<le> i \<and> i < k + length bs \<and> bs ! (i - k) = b \<and> j < length b \<and> b ! (length b - 1 - j) = a"
proof (induction a k bs rule: find_parent.induct)
  case (2 a k b' bs)
  show ?case
  proof (cases "position (\<lambda>p. p = a) (rev b')")
    case None
    then have "Suc k \<le> i" "i < Suc k + length bs" "bs ! (i - Suc k) = b" "j < length b" "b ! (length b - 1 - j) = a"
      using 2 by simp_all
    then show ?thesis by (auto simp: nth_Cons' diff_Suc_1 Suc_le_eq)
  next
    case (Some m)
    then have "i = k" "b = b'" "j = m" using 2(2) by auto
    then show ?thesis using Some by (auto simp: position_Some_iff rev_nth)
  qed
qed simp

text \<open>Every branch holds a proof.\<close>

definition branches_ok :: "Epoch \<Rightarrow> bool" where
  "branches_ok ep \<longleftrightarrow> [] \<notin> set (branches ep)"

lemma add_proof_branches_ok: "branches_ok ep \<Longrightarrow> branches_ok (add_proof ep a b)"
  by (auto simp: branches_ok_def add_proof_def split: option.splits dest!: set_update_subset_insert [THEN subsetD])

text \<open>The new proof ends a branch; it follows its parent when the epoch knows the parent.\<close>

lemma find_parent_None: "find_parent a k bs = None \<longleftrightarrow> (\<forall>b \<in> set bs. a \<notin> set b)"
proof (induction a k bs rule: find_parent.induct)
  case (2 a k b bs)
  show ?case
  proof (cases "position (\<lambda>p. p = a) (rev b)")
    case None
    moreover from this have "a \<notin> set b" unfolding position_None_iff by auto
    ultimately show ?thesis using 2 by simp
  next
    case (Some m)
    then have "a \<in> set (rev b)" unfolding position_Some_iff by (metis nth_mem)
    then show ?thesis using Some by simp
  qed
qed simp

lemma add_proof_ends_branch:
  "\<exists>branch \<in> set (branches (add_proof ep a b)). last branch = b \<and>
     ((\<exists>br \<in> set (branches ep). a \<in> set br) \<longrightarrow> 2 \<le> length branch \<and> branch ! (length branch - 2) = a)"
proof (cases "find_parent a 0 (branches ep)")
  case None
  then have "[b] \<in> set (branches (add_proof ep a b))" by (simp add: add_proof_def)
  moreover have "\<not> (\<exists>br \<in> set (branches ep). a \<in> set br)" using None by (simp add: find_parent_None)
  ultimately show ?thesis by (metis last.simps)
next
  case (Some r)
  obtain i br j where r: "r = (i, br, j)" by (cases r)
  have f: "i < length (branches ep)" "branches ep ! i = br" "j < length br" "br ! (length br - 1 - j) = a"
    using find_parent_nth [of a 0 "branches ep" i br j] Some r by simp_all
  then have ne: "branches ep \<noteq> []" by auto
  let ?new = "take (length br - j) br @ [b]"
  have "?new \<in> set (branches (add_proof ep a b))"
    using ne Some r f by (auto simp: add_proof_def set_update_memI)
  moreover have "length ?new = Suc (length br - j)" "?new ! (length br - 1 - j) = a" "1 \<le> length br - j"
    using f(3,4) by (auto simp: nth_append)
  ultimately have "?new \<in> set (branches (add_proof ep a b))" "last ?new = b" "2 \<le> length ?new"
    "?new ! (length ?new - 2) = a" by (simp_all add: numeral_2_eq_2)
  then show ?thesis by blast
qed

section \<open>Closing an epoch\<close>

lemma indices_snoc:
  "branch_indices_by_length (bs @ [b]) = btree_push (length b) (length bs) (branch_indices_by_length bs)"
  by (simp add: branch_indices_by_length_def enumerate_append_eq)

lemma indices_by_length:
  "sorted_wrt (<) (map fst (branch_indices_by_length bs)) \<and>
   map_of (branch_indices_by_length bs) =
     (\<lambda>l. let idxs = filter (\<lambda>i. length (bs ! i) = l) [0..<length bs] in if idxs = [] then None else Some idxs)"
proof (induction bs rule: rev_induct)
  case Nil
  show ?case by (simp add: branch_indices_by_length_def)
next
  case (snoc b bs)
  let ?m = "branch_indices_by_length bs"
  have s: "sorted_wrt (<) (map fst ?m)" using snoc by blast
  have f: "filter (\<lambda>i. length ((bs @ [b]) ! i) = l) [0..<length bs] = filter (\<lambda>i. length (bs ! i) = l) [0..<length bs]"
    for l by (rule filter_cong) (auto simp: nth_append)
  show ?case unfolding indices_snoc
    using snoc btree_push_sorted [OF s] btree_push_lookup [OF s, of "length b" "length bs"]
    by (auto simp: entry_push_def Let_def f fun_eq_iff)
qed

lemma first_proof_Ok: "i < length bs \<Longrightarrow> bs ! i \<noteq> [] \<Longrightarrow> first_proof bs i = Ok (hd (bs ! i))"
  by (simp add: first_proof_def index_def split: list.splits)

lemma inspect_loop:
  "\<forall>j \<in> set js. j < length bs \<and> bs ! j \<noteq> [] \<Longrightarrow>
     foldR (\<lambda>r j. bindR (first_proof bs j) (\<lambda>_. Ok r)) x js = Ok x"
  by (induction js) (auto simp: first_proof_Ok)

text \<open>The branch that \<^verbatim>\<open>close\<close> takes: the first of the shortest ones.\<close>

lemma Epoch_close_branch:
  assumes "branches_ok ep" and "branches ep \<noteq> []"
  shows "\<exists>i < length (branches ep).
    Epoch_close E ep c = Ok (ep\<lparr>ep_randomness := hd (branches ep ! i), branches := [], is_closed := True\<rparr>) \<and>
    (\<forall>j < length (branches ep). length (branches ep ! i) \<le> length (branches ep ! j)) \<and>
    (\<forall>j < i. length (branches ep ! i) < length (branches ep ! j))"
proof -
  let ?bs = "branches ep" and ?m = "branch_indices_by_length (branches ep)"
  have s: "sorted_wrt (<) (map fst ?m)" and lk: "map_of ?m =
      (\<lambda>l. let idxs = filter (\<lambda>i. length (?bs ! i) = l) [0..<length ?bs] in if idxs = [] then None else Some idxs)"
    using indices_by_length by blast+
  have key: "map_of ?m (length (?bs ! j)) \<noteq> None" if "j < length ?bs" for j
    using that by (auto simp: lk Let_def filter_empty_conv)
  have "0 < length ?bs" using assms(2) by simp
  then have "?m \<noteq> []" using key by fastforce
  then obtain l idxs m' where m: "?m = (l, idxs) # m'" by (metis list.exhaust prod.exhaust)
  then have "map_of ?m l = Some idxs" by simp
  then have idxs': "idxs = filter (\<lambda>i. length (?bs ! i) = l) [0..<length ?bs]" "idxs \<noteq> []"
    by (auto simp: lk Let_def split: if_splits)
  then obtain i js where i: "idxs = i # js" by (meson neq_Nil_conv)
  have mem: "i < length ?bs" "length (?bs ! i) = l" "\<forall>j \<in> set js. j < length ?bs"
    using arg_cong [OF idxs'(1), of set] by (auto simp: i)
  have ne: "?bs ! j \<noteq> []" if "j < length ?bs" for j using assms(1) that by (metis branches_ok_def nth_mem)
  have minl: "l \<le> length (?bs ! j)" if "j < length ?bs" for j
  proof -
    have "length (?bs ! j) \<in> fst ` set ?m" using key [OF that] by (metis map_of_eq_None_iff)
    then show ?thesis using s m by fastforce
  qed
  have first: "l < length (?bs ! j)" if "j < i" for j
  proof (rule ccontr)
    assume "\<not> l < length (?bs ! j)"
    then have "length (?bs ! j) = l" using minl [of j] that mem(1) by simp
    then have "j \<in> set idxs" using that mem(1) idxs'(1) by simp
    moreover have "sorted idxs" "distinct idxs" using idxs'(1) by (simp_all add: sorted_wrt_filter)
    ultimately show False using that i by auto
  qed
  have "Epoch_close E ep c = Ok (ep\<lparr>ep_randomness := hd (?bs ! i), branches := [], is_closed := True\<rparr>)"
    using m i mem ne by (simp add: Epoch_close_def first_proof_Ok inspect_loop)
  then show ?thesis using mem minl first by auto
qed

text \<open>
  \<^bold>\<open>C30\<close>.  Closing an epoch never panics when every branch holds a proof, and takes the first proof of the
  first among the \<^emph>\<open>shortest\<close> branches (or hashes the current epoch's index when there is none).
\<close>

theorem epoch_close_shortest:
  assumes "branches_ok ep"
  shows "\<exists>r. Epoch_close E ep c = Ok (ep\<lparr>ep_randomness := r, branches := [], is_closed := True\<rparr>) \<and>
    (if branches ep = [] then r = digest_sha_256 E (u64_to_le_bytes c)
     else \<exists>b \<in> set (branches ep). r = hd b \<and> (\<forall>b' \<in> set (branches ep). length b \<le> length b'))"
proof (cases "branches ep = []")
  case True
  then show ?thesis by (simp add: Epoch_close_def branch_indices_by_length_def)
next
  case False
  then obtain i where i: "i < length (branches ep)"
    "Epoch_close E ep c = Ok (ep\<lparr>ep_randomness := hd (branches ep ! i), branches := [], is_closed := True\<rparr>)"
    "\<forall>j < length (branches ep). length (branches ep ! i) \<le> length (branches ep ! j)"
    using Epoch_close_branch [OF assms] by blast
  then have "\<forall>b' \<in> set (branches ep). length (branches ep ! i) \<le> length b'"
    by (metis in_set_conv_nth)
  then show ?thesis using i(1,2) False by (auto intro!: bexI [of _ "branches ep ! i"])
qed

section \<open>The tracker\<close>

text \<open>
  The epochs present are those up to the current one; all but the current one are closed.
\<close>

definition tracker_ok :: "Inner \<Rightarrow> bool" where
  "tracker_ok t \<longleftrightarrow> (\<forall>i. epochs t i \<noteq> None \<longleftrightarrow> i \<le> current_epoch t) \<and>
     (\<forall>i ep. epochs t i = Some ep \<longrightarrow> branches_ok ep \<and> (is_closed ep \<longleftrightarrow> i < current_epoch t))"

lemma Epoch_close_Ok:
  assumes "branches_ok ep"
  obtains r where "Epoch_close E ep c = Ok (ep\<lparr>ep_randomness := r, branches := [], is_closed := True\<rparr>)"
proof (cases "branches ep = []")
  case True
  then show thesis using that by (simp add: Epoch_close_def branch_indices_by_length_def)
next
  case False
  then show thesis using Epoch_close_branch [OF assms] that by blast
qed

lemma tracker_new:
  "EpochTracker_new E = Ok \<lparr>current_epoch = 0, epochs = [0 \<mapsto> Epoch_new E 0]\<rparr>"
  "tracker_ok \<lparr>current_epoch = 0, epochs = [0 \<mapsto> Epoch_new E 0]\<rparr>"
  by (auto simp: EpochTracker_new_def advance_epoch_def Inner_default_def EPOCH_CLOSE_WAIT_TIME_def
      tracker_ok_def Epoch_new_def branches_ok_def)

lemma tracker_start: "EpochTracker_new E = Ok t0 \<Longrightarrow> tracker_ok t0 \<and> current_epoch t0 = 0"
  using tracker_new [of E] by auto

lemma advance_epoch_Ok:
  assumes "tracker_ok t" and "current_epoch t \<noteq> - 1"
  shows "\<exists>ep r. epochs t (current_epoch t) = Some ep \<and> advance_epoch E t = Ok (t\<lparr>current_epoch := current_epoch t + 1,
      epochs := (epochs t)(current_epoch t + 1 \<mapsto> Epoch_new E (current_epoch t + 1),
        current_epoch t \<mapsto> ep\<lparr>ep_randomness := r, branches := [], is_closed := True\<rparr>)\<rparr>, current_epoch t + 1)"
proof -
  let ?c = "current_epoch t"
  have "epochs t ?c \<noteq> None" using assms(1) unfolding tracker_ok_def by blast
  then obtain ep where ep: "epochs t ?c = Some ep" by blast
  then have "branches_ok ep" using assms(1) by (simp add: tracker_ok_def)
  then obtain r where r: "Epoch_close E ep (?c + 1) = Ok (ep\<lparr>ep_randomness := r, branches := [], is_closed := True\<rparr>)"
    by (rule Epoch_close_Ok)
  have "epochs t \<noteq> Map.empty" using ep by auto
  moreover have "?c \<noteq> ?c + 1" using unat_succ_u64 [OF assms(2)] by (metis n_not_Suc_n Suc_eq_plus1)
  ultimately have "advance_epoch E t = Ok (t\<lparr>current_epoch := ?c + 1, epochs := (epochs t)(?c + 1 \<mapsto> Epoch_new E (?c + 1),
      ?c \<mapsto> ep\<lparr>ep_randomness := r, branches := [], is_closed := True\<rparr>)\<rparr>, ?c + 1)"
    using ep r succ_le_u64(3) [OF assms(2)] by (simp add: advance_epoch_def Let_def EPOCH_CLOSE_WAIT_TIME_def)
  then show ?thesis using ep by blast
qed

lemma tracker_ok_advance:
  assumes "tracker_ok t" and "current_epoch t \<noteq> - 1" and "advance_epoch E t = Ok (t', e)"
  shows "tracker_ok t'"
proof -
  let ?c = "current_epoch t"
  have ne: "?c \<noteq> ?c + 1" using unat_succ_u64 [OF assms(2)] by (metis n_not_Suc_n Suc_eq_plus1)
  obtain ep r where t': "t' = t\<lparr>current_epoch := ?c + 1, epochs := (epochs t)(?c + 1 \<mapsto> Epoch_new E (?c + 1),
      ?c \<mapsto> ep\<lparr>ep_randomness := r, branches := [], is_closed := True\<rparr>)\<rparr>"
    using advance_epoch_Ok [OF assms(1,2), of E] assms(3) by auto
  have old: "branches_ok ep \<and> (is_closed ep \<longleftrightarrow> i < ?c)" "i \<le> ?c" if "epochs t i = Some ep" for i ep
    using assms(1) that unfolding tracker_ok_def by blast+
  have "branches_ok ep' \<and> (is_closed ep' \<longleftrightarrow> i < ?c + 1)" if "epochs t' i = Some ep'" for i ep'
    using that old [of i ep'] ne
    by (auto simp: t' succ_le_u64 [OF assms(2)] Epoch_new_def branches_ok_def less_le split: if_splits)
  moreover have "epochs t' i \<noteq> None \<longleftrightarrow> i \<le> ?c + 1" for i
    using assms(1) unfolding tracker_ok_def t' by (auto simp: succ_le_u64 [OF assms(2)])
  ultimately show ?thesis by (simp add: tracker_ok_def t')
qed

lemma tracker_ok_add_proof:
  assumes "tracker_ok t" and "add_proof_to_epoch t e a p = Ok t'"
  shows "tracker_ok t'"
proof -
  obtain ep where ep: "epochs t e = Some ep" "t' = t\<lparr>epochs := (epochs t)(e \<mapsto> add_proof ep a p)\<rparr>"
    using assms(2) by (auto simp: add_proof_to_epoch_def bindR_Ok_iff)
  then have "branches_ok (add_proof ep a p)" using assms(1) by (simp add: tracker_ok_def add_proof_branches_ok)
  then show ?thesis using assms(1) ep by (auto simp: tracker_ok_def split: if_splits)
qed

text \<open>The randomness of a closed epoch, the part of the tracker that slot challenges read.\<close>

definition closed_randomness :: "Inner \<Rightarrow> u64 \<Rightarrow> bytes option" where
  "closed_randomness t i = (case epochs t i of Some ep \<Rightarrow> if is_closed ep then Some (ep_randomness ep) else None | None \<Rightarrow> None)"

lemma slot_challenge_closed:
  "get_slot_challenge E t e ts =
     (if e = 0 then Ok (replicate 32 0, digest_sha_256 E (replicate 32 0 @ u64_to_le_bytes ts))
      else case closed_randomness t (e - 1) of
        Some r \<Rightarrow> Ok (r, digest_sha_256 E (r @ u64_to_le_bytes ts))
      | None \<Rightarrow> Panic (if epochs t (e - 1) = None then Unwrap
                       else PanicMsg ''Epoch being used for randomness is still open!''))"
  by (auto simp: get_slot_challenge_def get_epoch_def closed_randomness_def CHALLENGE_LOOKBACK_EPOCHS_def
      split: option.splits)

lemma closed_randomness_step:
  assumes "tracker_ok t" and "current_epoch t \<noteq> - 1" and "tracker_step E t op = Ok t'"
    and "closed_randomness t i = Some r"
  shows "closed_randomness t' i = Some r"
proof -
  obtain ep where ep: "epochs t i = Some ep" "is_closed ep" "ep_randomness ep = r"
    using assms(4) by (auto simp: closed_randomness_def split: option.splits if_splits)
  then have lt: "i < current_epoch t" using assms(1) by (auto simp: tracker_ok_def)
  show ?thesis
  proof (cases op)
    case AdvanceEpoch
    have "i \<noteq> current_epoch t" "i \<noteq> current_epoch t + 1"
      using lt unat_succ_u64 [OF assms(2)] by (auto simp: word_less_nat_alt word_unat_eq_iff)
    then show ?thesis using advance_epoch_Ok [OF assms(1,2), of E] assms(3) AdvanceEpoch ep
      by (auto simp: closed_randomness_def)
  next
    case (AddProof e a p)
    then show ?thesis using assms(3) ep
      by (auto simp: add_proof_to_epoch_def bindR_Ok_iff closed_randomness_def)
  qed
qed

lemma tracker_ok_step:
  "tracker_ok t \<Longrightarrow> current_epoch t \<noteq> - 1 \<Longrightarrow> tracker_step E t op = Ok t' \<Longrightarrow> tracker_ok t'"
  by (cases op) (auto simp: bindR_Ok_iff elim: tracker_ok_advance tracker_ok_add_proof)

lemma current_epoch_step:
  assumes "tracker_ok t" and "current_epoch t \<noteq> - 1" and "tracker_step E t op = Ok t'"
  shows "unat (current_epoch t') \<le> unat (current_epoch t) + 1"
proof (cases op)
  case AdvanceEpoch
  then show ?thesis using advance_epoch_Ok [OF assms(1,2), of E] assms(3) unat_succ_u64 [OF assms(2)] by auto
next
  case (AddProof e a p)
  then show ?thesis using assms(3) by (auto simp: add_proof_to_epoch_def bindR_Ok_iff)
qed

lemma tracker_step_progress:
  assumes "tracker_ok t" and "current_epoch t \<noteq> - 1"
  shows "(\<exists>t'. tracker_step E t op = Ok t') \<longleftrightarrow>
           (case op of AdvanceEpoch \<Rightarrow> True | AddProof e _ _ \<Rightarrow> e \<le> current_epoch t)"
proof (cases op)
  case AdvanceEpoch
  then show ?thesis using advance_epoch_Ok [OF assms, of E] by auto
next
  case (AddProof e a p)
  have "epochs t e \<noteq> None \<longleftrightarrow> e \<le> current_epoch t" using assms(1) unfolding tracker_ok_def by blast
  then show ?thesis using AddProof by (cases "epochs t e") (auto simp: add_proof_to_epoch_def)
qed

text \<open>
  Runs.  The epoch index is a 64-bit counter; a run of fewer than \<open>2 ^ 64 - 1\<close> operations (at one
  epoch every 32 seconds, more than \<open>10 ^ 13\<close> years) does not wrap it.
\<close>

lemma tracker_run:
  assumes "tracker_ok t" and "unat (current_epoch t) + length ops < 2 ^ 64 - 1"
    and "foldR (tracker_step E) t ops = Ok t'"
  shows "tracker_ok t' \<and> unat (current_epoch t') \<le> unat (current_epoch t) + length ops \<and>
    (\<forall>i r. closed_randomness t i = Some r \<longrightarrow> closed_randomness t' i = Some r)"
  using assms
proof (induction ops arbitrary: t)
  case (Cons op ops)
  obtain t1 where t1: "tracker_step E t op = Ok t1" "foldR (tracker_step E) t1 ops = Ok t'"
    using Cons.prems(3) by auto
  have b: "current_epoch t \<noteq> - 1"
    using Cons.prems(2) by (auto simp: unsigned_minus_1_eq_mask mask_eq_exp_minus_1)
  have ok: "tracker_ok t1" and c: "unat (current_epoch t1) \<le> unat (current_epoch t) + 1"
    using tracker_ok_step [OF Cons.prems(1) b t1(1)] current_epoch_step [OF Cons.prems(1) b t1(1)] by auto
  have "unat (current_epoch t1) + length ops < 2 ^ 64 - 1" using c Cons.prems(2) by simp
  from Cons.IH [OF ok this t1(2)] show ?case
    using c closed_randomness_step [OF Cons.prems(1) b t1(1)] by fastforce
qed simp

lemma slot_challenge_Ok_iff:
  assumes "tracker_ok t"
  shows "(\<exists>c. get_slot_challenge E t e ts = Ok c) \<longleftrightarrow> e \<le> current_epoch t"
proof (cases "e = 0")
  case False
  then have "unat (e - 1) = unat e - 1" by (simp add: unat_sub word_le_nat_alt unat_gt_0 Suc_leI)
  moreover have "0 < unat e" using False by (simp add: unat_gt_0)
  ultimately have lt: "e - 1 < current_epoch t \<longleftrightarrow> e \<le> current_epoch t"
    by (auto simp: word_less_nat_alt word_le_nat_alt)
  have "closed_randomness t (e - 1) \<noteq> None \<longleftrightarrow> e - 1 < current_epoch t"
  proof (cases "epochs t (e - 1)")
    case None
    then have "\<not> e - 1 \<le> current_epoch t" using assms unfolding tracker_ok_def by blast
    then show ?thesis using None by (auto simp: closed_randomness_def)
  next
    case (Some ep)
    then show ?thesis using assms by (auto simp: closed_randomness_def tracker_ok_def)
  qed
  then show ?thesis using False lt by (auto simp: slot_challenge_closed split: option.splits)
qed (simp add: slot_challenge_closed)

lemma slot_challenge_stable:
  assumes "\<And>i r. closed_randomness t i = Some r \<Longrightarrow> closed_randomness t' i = Some r"
    and "get_slot_challenge E t e ts = Ok c"
  shows "get_slot_challenge E t' e ts = Ok c"
  using assms by (auto simp: slot_challenge_closed split: option.splits if_splits)

text \<open>
  In every state that a tracker reaches, a slot challenge can be computed exactly for the epochs
  up to the current one; for a later epoch the call panics.
\<close>

theorem slot_challenge_available:
  assumes "EpochTracker_new E = Ok t0" and "foldR (tracker_step E) t0 ops = Ok t" and "length ops < 2 ^ 64 - 1"
  shows "(\<exists>c. get_slot_challenge E t e timeslot = Ok c) \<longleftrightarrow> e \<le> current_epoch t"
proof -
  have "tracker_ok t0" "current_epoch t0 = 0" using tracker_start [OF assms(1)] by auto
  then have "tracker_ok t" using tracker_run [of t0 ops E t] assms(2,3) by simp
  then show ?thesis by (rule slot_challenge_Ok_iff)
qed

text \<open>
  \<^bold>\<open>C12\<close>.  A slot challenge is final: whatever is added to the epochs and however far the tracker advances,
  the same epoch and timeslot give the same randomness and challenge.
\<close>

theorem slot_challenge_final:
  assumes "EpochTracker_new E = Ok t0" and "foldR (tracker_step E) t0 ops = Ok t"
    and "foldR (tracker_step E) t ops' = Ok t'" and "length ops + length ops' < 2 ^ 64 - 1"
    and "get_slot_challenge E t e timeslot = Ok c"
  shows "get_slot_challenge E t' e timeslot = Ok c"
proof -
  have "tracker_ok t0" "current_epoch t0 = 0" using tracker_start [OF assms(1)] by auto
  then have t: "tracker_ok t" "unat (current_epoch t) \<le> length ops"
    using tracker_run [of t0 ops E t] assms(2,4) by auto
  then have "\<forall>i r. closed_randomness t i = Some r \<longrightarrow> closed_randomness t' i = Some r"
    using tracker_run [of t ops' E t'] assms(3,4) by simp
  then show ?thesis using slot_challenge_stable [OF _ assms(5)] by blast
qed

section \<open>A concrete run\<close>

definition sample_ops :: "tracker_op list" where
  "sample_ops = [AddProof 0 [0] [1], AddProof 0 [1] [2], AddProof 0 [2] [3], AddProof 0 [7] [9], AdvanceEpoch]"

lemma sample_run:
  "\<exists>t. foldR (tracker_step toy_crypto) \<lparr>current_epoch = 0, epochs = [0 \<mapsto> Epoch_new toy_crypto 0]\<rparr> sample_ops = Ok t \<and>
     current_epoch t = 1 \<and> closed_randomness t 0 = Some [9]"
  by (simp add: sample_ops_def add_proof_to_epoch_def add_proof_def Epoch_new_def advance_epoch_def Let_def
      EPOCH_CLOSE_WAIT_TIME_def Epoch_close_def branch_indices_by_length_def btree_push_def first_proof_def index_def
      closed_randomness_def fun_upd_twist)

theorem epoch_close_shortest_witness:
  "\<exists>r. Epoch_close toy_crypto \<lparr>is_closed = False, ep_randomness = [], branches = [[[1], [2], [3]], [[9]]]\<rparr> 1 =
         Ok \<lparr>is_closed = True, ep_randomness = r, branches = []\<rparr> \<and> r = [9]"
  using epoch_close_shortest [of "\<lparr>is_closed = False, ep_randomness = [], branches = [[[1], [2], [3]], [[9]]]\<rparr>" toy_crypto 1]
  by (auto simp: branches_ok_def)

theorem slot_challenge_available_witness:
  "\<exists>t0 t. EpochTracker_new toy_crypto = Ok t0 \<and> foldR (tracker_step toy_crypto) t0 sample_ops = Ok t \<and>
     (\<exists>c. get_slot_challenge toy_crypto t 1 40 = Ok c) \<and> (\<nexists>c. get_slot_challenge toy_crypto t 2 70 = Ok c)"
proof -
  obtain t where t: "foldR (tracker_step toy_crypto) \<lparr>current_epoch = 0, epochs = [0 \<mapsto> Epoch_new toy_crypto 0]\<rparr> sample_ops = Ok t"
    "current_epoch t = 1" using sample_run by blast
  have l: "length sample_ops < 2 ^ 64 - 1" by (simp add: sample_ops_def)
  have "(\<exists>c. get_slot_challenge toy_crypto t e ts = Ok c) \<longleftrightarrow> e \<le> 1" for e ts
    using slot_challenge_available [OF tracker_new(1) t(1) l] t(2) by simp
  then have "\<exists>c. get_slot_challenge toy_crypto t 1 40 = Ok c" "\<nexists>c. get_slot_challenge toy_crypto t 2 70 = Ok c"
    by (auto simp: word_le_nat_alt)
  then show ?thesis using tracker_new(1) t(1) by blast
qed

theorem slot_challenge_final_witness:
  "\<exists>t0 t t' c. EpochTracker_new toy_crypto = Ok t0 \<and> foldR (tracker_step toy_crypto) t0 sample_ops = Ok t \<and>
     foldR (tracker_step toy_crypto) t [AddProof 0 [5] [6]] = Ok t' \<and>
     get_slot_challenge toy_crypto t 1 40 = Ok c \<and> get_slot_challenge toy_crypto t' 1 40 = Ok c"
proof -
  let ?t0 = "\<lparr>current_epoch = 0, epochs = [0 \<mapsto> Epoch_new toy_crypto 0]\<rparr>"
  obtain t where t: "foldR (tracker_step toy_crypto) ?t0 sample_ops = Ok t" "closed_randomness t 0 = Some [9]"
    using sample_run by blast
  then obtain ep where ep: "epochs t 0 = Some ep" by (auto simp: closed_randomness_def split: option.splits)
  have t': "foldR (tracker_step toy_crypto) t [AddProof 0 [5] [6]] =
      Ok (t\<lparr>epochs := (epochs t)(0 \<mapsto> add_proof ep [5] [6])\<rparr>)" using ep by (simp add: add_proof_to_epoch_def)
  obtain c where c: "get_slot_challenge toy_crypto t 1 40 = Ok c" using t(2) by (simp add: slot_challenge_closed)
  have "length sample_ops + length [AddProof 0 [5] [6]] < 2 ^ 64 - 1" by (simp add: sample_ops_def)
  from slot_challenge_final [OF tracker_new(1) t(1) t' this c] show ?thesis
    using tracker_new(1) t(1) t' c by blast
qed

end
