(* ===== verification/Float64.thy ===== *)
theory Float64
  imports Prelude "HOL-Library.Log_Nat"
begin

text \<open>
  The little of IEEE double arithmetic that the ledger uses to adjust the solution range:
  conversion of a \<^verbatim>\<open>u64\<close>, division, multiplication and the saturating cast back, on non-negative
  values.  A finite double is the rational it stands for; every operation rounds the exact result
  to 53 significant bits, ties to even.  The values that occur are zero or between \<open>2 ^ -16\<close> and
  \<open>2 ^ 66\<close>, so neither subnormal numbers nor infinities arise.
\<close>

definition pow2 :: "int \<Rightarrow> rat" where
  "pow2 e = (if 0 \<le> e then 2 ^ nat e else 1 / 2 ^ nat (- e))"

text \<open>The exponent of the leading bit of a positive rational.\<close>

definition ilog2 :: "rat \<Rightarrow> int" where
  "ilog2 x =
     (let (n, d) = quotient_of x;
          k = int (floorlog 2 (nat n)) - int (floorlog 2 (nat d))
      in if pow2 k \<le> x then k else k - 1)"

definition round_half_even :: "rat \<Rightarrow> int" where
  "round_half_even m =
     (let f = \<lfloor>m\<rfloor>; r = m - of_int f
      in if r < 1 / 2 then f else if 1 / 2 < r then f + 1 else if even f then f else f + 1)"

definition round_f64 :: "rat \<Rightarrow> rat" where
  "round_f64 x =
     (if x \<le> 0 then 0
      else (let e = ilog2 x - 52 in of_int (round_half_even (x / pow2 e)) * pow2 e))"

definition u64_as_f64 :: "u64 \<Rightarrow> rat" where
  "u64_as_f64 w = round_f64 (of_nat (unat w))"

definition f64_div :: "rat \<Rightarrow> rat \<Rightarrow> rat" where
  "f64_div x y = round_f64 (x / y)"

definition f64_mult :: "rat \<Rightarrow> rat \<Rightarrow> rat" where
  "f64_mult x y = round_f64 (x * y)"

definition f64_as_u64 :: "rat \<Rightarrow> u64" where
  "f64_as_u64 x = (if 2 ^ 64 \<le> x then - 1 else of_int \<lfloor>x\<rfloor>)"

definition ADJUSTMENT_FACTOR :: rat where
  "ADJUSTMENT_FACTOR = round_f64 (1105 / 1000)"

definition EXPECTED_TIMESLOTS_PER_EON :: u64 where
  "EXPECTED_TIMESLOTS_PER_EON =
     f64_as_u64 (f64_mult (f64_mult (u64_as_f64 TIMESLOTS_PER_PROPOSER_BLOCK) (u64_as_f64 PROPOSER_BLOCKS_PER_EON))
       ADJUSTMENT_FACTOR)"

section \<open>Properties\<close>

lemma pow2_pos [simp]: "0 < pow2 e"
  by (simp add: pow2_def)

lemma pow2_nonzero [simp]: "pow2 e \<noteq> 0" and pow2_nonneg [simp]: "0 \<le> pow2 e"
  by (simp_all add: pow2_def)

lemma pow2_powi: "pow2 e = 2 powi e"
  by (simp add: pow2_def power_int_def field_simps)

lemma pow2_add: "pow2 (a + b) = pow2 a * pow2 b"
  by (simp add: pow2_powi power_int_add)

lemma pow2_nat: "pow2 (int n) = 2 ^ n" and pow2_diff: "pow2 (int m - int n) = 2 ^ m / 2 ^ n"
  by (simp_all add: pow2_powi power_int_diff)

lemma pow2_mono: "a \<le> b \<Longrightarrow> pow2 a \<le> pow2 b"
  by (simp add: pow2_powi power_int_increasing)

lemma pow2_less_iff: "pow2 a < pow2 b \<longleftrightarrow> a < b"
proof
  assume "pow2 a < pow2 b"
  then show "a < b" using pow2_mono [of b a] by (meson not_le)
qed (simp add: pow2_powi power_int_strict_increasing)

lemma round_half_even_int [simp]: "round_half_even (of_int n) = n"
  by (simp add: round_half_even_def)

lemma round_half_even_nonneg: "0 \<le> m \<Longrightarrow> 0 \<le> round_half_even m"
  by (simp add: round_half_even_def Let_def)

lemma round_half_even_bound: "\<bar>of_int (round_half_even m) - m\<bar> \<le> 1 / 2"
proof -
  have "of_int \<lfloor>m\<rfloor> \<le> m" "m < of_int \<lfloor>m\<rfloor> + 1" by linarith+
  then show ?thesis by (auto simp: round_half_even_def Let_def)
qed

lemma round_half_even_near:
  assumes "of_int n - 1 / 2 < m" and "m < of_int n + 1 / 2"
  shows "round_half_even m = n"
proof (cases "of_int n \<le> m")
  case True
  then have "\<lfloor>m\<rfloor> = n" using assms by (intro floor_unique) simp_all
  then show ?thesis using assms by (simp add: round_half_even_def)
next
  case False
  then have "\<lfloor>m\<rfloor> = n - 1" using assms by (intro floor_unique) simp_all
  then show ?thesis using assms by (simp add: round_half_even_def)
qed

lemma round_f64_nonneg: "0 \<le> round_f64 x"
proof (cases "x \<le> 0")
  case False
  then have "0 \<le> x / pow2 (ilog2 x - 52)" by (intro divide_nonneg_pos) simp_all
  then have "0 \<le> (of_int (round_half_even (x / pow2 (ilog2 x - 52))) :: rat)"
    using round_half_even_nonneg by simp
  then show ?thesis using False pow2_pos [of "ilog2 x - 52"] by (simp add: round_f64_def Let_def)
qed (simp add: round_f64_def)

text \<open>\<open>ilog2\<close> is the floor of the binary logarithm.\<close>

lemma floorlog_range: "0 < n \<Longrightarrow> 2 ^ (floorlog 2 n - 1) \<le> n \<and> n < 2 ^ floorlog 2 n \<and> 0 < floorlog 2 n"
  using floorlog_bounds [of n 2] by (auto simp: floorlog_def)

lemma ilog2_spec:
  assumes "0 < x"
  shows "pow2 (ilog2 x) \<le> x \<and> x < pow2 (ilog2 x + 1)"
proof -
  obtain n d where q: "quotient_of x = (n, d)" by force
  then have x: "x = of_int n / of_int d" and d: "0 < d" by (auto dest: quotient_of_div quotient_of_denom_pos)
  then have n: "0 < n" using assms by (simp add: zero_less_divide_iff)
  let ?a = "floorlog 2 (nat n)" and ?b = "floorlog 2 (nat d)"
  have a: "2 ^ (?a - 1) \<le> nat n" "nat n < 2 ^ ?a" "0 < ?a" and b: "2 ^ (?b - 1) \<le> nat d" "nat d < 2 ^ ?b" "0 < ?b"
    using floorlog_range [of "nat n"] floorlog_range [of "nat d"] n d by auto
  have N: "(2::rat) ^ (?a - 1) \<le> of_int n" "(of_int n :: rat) < 2 ^ ?a"
    and D: "(2::rat) ^ (?b - 1) \<le> of_int d" "(of_int d :: rat) < 2 ^ ?b"
    using a(1,2) b(1,2) n d
    by (metis le_nat_iff less_imp_le of_int_le_iff of_int_numeral of_int_power of_nat_numeral of_nat_power,
        metis nat_less_iff less_imp_le of_int_less_iff of_int_numeral of_int_power of_nat_numeral of_nat_power,
        metis le_nat_iff less_imp_le of_int_le_iff of_int_numeral of_int_power of_nat_numeral of_nat_power,
        metis nat_less_iff less_imp_le of_int_less_iff of_int_numeral of_int_power of_nat_numeral of_nat_power)
  let ?k = "int ?a - int ?b"
  have up: "x < pow2 (?k + 1)"
  proof -
    have "x < 2 ^ ?a / 2 ^ (?b - 1)" unfolding x using N(2) D(1) d n
      by (intro frac_less) auto
    also have "\<dots> = pow2 (int ?a - int (?b - 1))" by (simp add: pow2_diff)
    also have "int ?a - int (?b - 1) = ?k + 1" using b(3) by simp
    finally show ?thesis .
  qed
  have low: "pow2 (?k - 1) \<le> x"
  proof -
    have "pow2 (?k - 1) = pow2 (int (?a - 1) - int ?b)" using a(3) by (intro arg_cong [where f = pow2]) simp
    also have "\<dots> = 2 ^ (?a - 1) / 2 ^ ?b" by (rule pow2_diff)
    also have "\<dots> \<le> x" unfolding x using N(1) D(2) d n by (intro frac_le) auto
    finally show ?thesis .
  qed
  show ?thesis using up low q by (auto simp: ilog2_def Let_def)
qed

lemma ilog2_eq:
  assumes "pow2 k \<le> x" and "x < pow2 (k + 1)"
  shows "ilog2 x = k"
proof -
  have x: "0 < x" using assms(1) pow2_pos less_le_trans by blast
  have "pow2 k < pow2 (ilog2 x + 1)" "pow2 (ilog2 x) < pow2 (k + 1)"
    using ilog2_spec [OF x] assms by (auto intro: le_less_trans)
  then show ?thesis by (simp add: pow2_less_iff)
qed

lemma round_f64_eq:
  assumes "pow2 k \<le> x" and "x < pow2 (k + 1)"
  shows "round_f64 x = of_int (round_half_even (x / pow2 (k - 52))) * pow2 (k - 52)"
  using ilog2_eq [OF assms] less_le_trans [OF pow2_pos assms(1)] by (simp add: round_f64_def Let_def)

text \<open>A number with at most 53 significant bits is its own double.\<close>

lemma round_f64_exact:
  assumes "0 < n" and "n < 2 ^ 53"
  shows "round_f64 (of_int n * pow2 e) = of_int n * pow2 e"
proof -
  let ?x = "of_int n :: rat"
  let ?k = "ilog2 ?x"
  have k: "pow2 ?k \<le> ?x" "?x < pow2 (?k + 1)" using ilog2_spec [of ?x] assms(1) by auto
  have "(of_int n :: rat) < 2 ^ 53" using assms(2) by (metis of_int_less_iff of_int_numeral of_int_power)
  also have "(2::rat) ^ 53 = pow2 (int 53)" by (simp only: pow2_nat)
  finally have "pow2 ?k < pow2 (int 53)" using k(1) by (rule le_less_trans [rotated])
  then have k52: "?k \<le> 52" unfolding pow2_less_iff by simp
  have "round_f64 (?x * pow2 e) =
      of_int (round_half_even (?x * pow2 e / pow2 (?k + e - 52))) * pow2 (?k + e - 52)"
  proof (rule round_f64_eq)
    show "pow2 (?k + e) \<le> ?x * pow2 e" using k(1) by (simp add: pow2_add)
    have "?x * pow2 e < pow2 (?k + 1) * pow2 e" using k(2) by simp
    also have "\<dots> = pow2 (?k + e + 1)" by (simp add: ac_simps flip: pow2_add)
    finally show "?x * pow2 e < pow2 (?k + e + 1)" .
  qed
  also have "?x * pow2 e / pow2 (?k + e - 52) = of_int (n * 2 ^ nat (52 - ?k))"
  proof -
    have "pow2 e = pow2 (?k + e - 52) * pow2 (52 - ?k)" by (simp flip: pow2_add)
    moreover have "pow2 (52 - ?k) = 2 ^ nat (52 - ?k)" using k52 by (simp add: pow2_def)
    ultimately show ?thesis using pow2_pos [of "?k + e - 52"] by simp
  qed
  also have "of_int (round_half_even (of_int (n * 2 ^ nat (52 - ?k)))) * pow2 (?k + e - 52) = ?x * pow2 e"
  proof -
    have "of_int (n * 2 ^ nat (52 - ?k)) = ?x * pow2 (52 - ?k)" using k52 by (simp add: pow2_def)
    moreover have "pow2 (52 - ?k) * pow2 (?k + e - 52) = pow2 e" by (simp flip: pow2_add)
    ultimately show ?thesis unfolding round_half_even_int by (simp only: mult.assoc)
  qed
  finally show ?thesis .
qed

lemma round_f64_nat: "n < 2 ^ 53 \<Longrightarrow> round_f64 (of_nat n) = of_nat n"
  using round_f64_exact [of "int n" 0] by (cases "n = 0") (simp_all add: round_f64_def pow2_def)

text \<open>Every rounding is within half a unit in the last place.\<close>

lemma round_f64_error:
  assumes "0 \<le> x"
  shows "\<bar>round_f64 x - x\<bar> \<le> x / 2 ^ 53"
proof (cases "x = 0")
  case True
  then show ?thesis by (simp add: round_f64_def)
next
  case False
  let ?e = "ilog2 x - 52"
  have x: "0 < x" using assms False by simp
  have "round_f64 x - x = (of_int (round_half_even (x / pow2 ?e)) - x / pow2 ?e) * pow2 ?e"
    using x by (simp add: round_f64_def Let_def left_diff_distrib)
  then have "\<bar>round_f64 x - x\<bar> = \<bar>of_int (round_half_even (x / pow2 ?e)) - x / pow2 ?e\<bar> * pow2 ?e"
    by (simp add: abs_mult)
  also have "\<dots> \<le> 1 / 2 * pow2 ?e" by (rule mult_right_mono [OF round_half_even_bound pow2_nonneg])
  also have "pow2 ?e = pow2 (ilog2 x) / 2 ^ 52"
    using pow2_add [of ?e "int 52"] pow2_nat [of 52] by simp
  also have "1 / 2 * (pow2 (ilog2 x) / 2 ^ 52) \<le> x / 2 ^ 53" using ilog2_spec [OF x] by simp
  finally show ?thesis .
qed

lemma round_f64_bounds:
  assumes "0 \<le> x"
  shows "round_f64 x \<le> x * (1 + 1 / 2 ^ 53)" "x * (1 - 1 / 2 ^ 53) \<le> round_f64 x"
proof -
  have "round_f64 x - x \<le> x / 2 ^ 53" "x - round_f64 x \<le> x / 2 ^ 53"
    using round_f64_error [OF assms] unfolding abs_le_iff by linarith+
  then show "round_f64 x \<le> x * (1 + 1 / 2 ^ 53)" "x * (1 - 1 / 2 ^ 53) \<le> round_f64 x"
    by (simp_all add: algebra_simps)
qed

lemma f64_as_u64_bounds:
  assumes "0 \<le> x"
  shows "of_nat (unat (f64_as_u64 x)) \<le> x" "x < 2 ^ 64 \<Longrightarrow> x - 1 < of_nat (unat (f64_as_u64 x))"
    "2 ^ 64 \<le> x \<Longrightarrow> unat (f64_as_u64 x) = 2 ^ 64 - 1"
proof -
  show sat: "unat (f64_as_u64 x) = 2 ^ 64 - 1" if "2 ^ 64 \<le> x"
    using that by (simp add: f64_as_u64_def unsigned_minus_1_eq_mask mask_eq_exp_minus_1)
  have fl: "of_nat (unat (f64_as_u64 x)) = (of_int \<lfloor>x\<rfloor> :: rat)" if l: "x < 2 ^ 64"
  proof -
    have i: "0 \<le> \<lfloor>x\<rfloor>" "\<lfloor>x\<rfloor> < 2 ^ 64" using assms l by (simp_all add: floor_less_iff)
    then have "unat (of_int \<lfloor>x\<rfloor> :: u64) = nat \<lfloor>x\<rfloor>" using unat_of_nat_u64 [of "nat \<lfloor>x\<rfloor>"] by (simp add: nat_less_iff)
    then show ?thesis using l i(1) by (simp add: f64_as_u64_def)
  qed
  show "of_nat (unat (f64_as_u64 x)) \<le> x"
  proof (cases "x < 2 ^ 64")
    case False
    then have "unat (f64_as_u64 x) = 2 ^ 64 - 1" "2 ^ 64 \<le> x" using sat by simp_all
    then show ?thesis by (simp add: of_nat_diff)
  next
    case True
    show ?thesis unfolding fl [OF True] by (rule of_int_floor_le)
  qed
  show "x - 1 < of_nat (unat (f64_as_u64 x))" if "x < 2 ^ 64" using fl [OF that] by linarith
qed

text \<open>The constant that \<^verbatim>\<open>lib.rs\<close> computes at compile time.\<close>

lemma expected_timeslots: "EXPECTED_TIMESLOTS_PER_EON = 44553"
proof -
  have c: "u64_as_f64 TIMESLOTS_PER_PROPOSER_BLOCK = 5" "u64_as_f64 PROPOSER_BLOCKS_PER_EON = 8064"
    using round_f64_nat [of 5] round_f64_nat [of 8064]
    by (simp_all add: u64_as_f64_def TIMESLOTS_PER_PROPOSER_BLOCK_def PROPOSER_BLOCKS_PER_EON_def)
  have m: "f64_mult 5 8064 = 40320" using round_f64_nat [of 40320] by (simp add: f64_mult_def)
  have a: "ADJUSTMENT_FACTOR = 4976477588244398 / 2 ^ 52"
    using round_f64_eq [of 0 "1105 / 1000"] round_half_even_near [of 4976477588244398 "1105 / 1000 * 2 ^ 52"]
    by (simp add: ADJUSTMENT_FACTOR_def pow2_def)
  have p: "f64_mult 40320 (4976477588244398 / 2 ^ 52) = 6123400157410099 / 2 ^ 37"
    using round_f64_eq [of 15 "40320 * (4976477588244398 / 2 ^ 52)"]
      round_half_even_near [of 6123400157410099 "40320 * (4976477588244398 / 2 ^ 52) * 2 ^ 37"]
    by (simp add: f64_mult_def pow2_def)
  have "\<lfloor>6123400157410099 / 2 ^ 37 :: rat\<rfloor> = 44553" by (rule floor_unique) simp_all
  moreover have "(6123400157410099 :: rat) / 2 ^ 37 < 2 ^ 64" by simp
  ultimately show ?thesis unfolding EXPECTED_TIMESLOTS_PER_EON_def c m a p f64_as_u64_def
    by (simp only: not_le [symmetric] if_False of_int_numeral)
qed

end
