(* ===== verification/Ledger.thy ===== *)
theory Ledger
  imports MetaBlocks Epoch Float64
begin

text \<open>
  The ledger's data and its bookkeeping of branches (\<^verbatim>\<open>src/ledger.rs\<close>, lines 40 to 343 and 1244 to
  1282).  Confirmation is in \<open>Ledger_Confirm\<close>, validation and staging in \<open>Ledger_Staging\<close>.

  A \<^verbatim>\<open>HashSet\<close> is a set; \<^verbatim>\<open>BTreeMap\<close>s that are only looked up are maps.  The epoch tracker, which
  the source shares with the timer through an \<^verbatim>\<open>Arc\<close>, is a field.
\<close>

section \<open>Data\<close>

record Head =
  h_block_height :: u64
  h_content_id :: ContentId

record SolutionRangeUpdate =
  sru_next_timeslot :: u64
  sru_block_height :: u64
  sru_solution_range :: u64

record Ledger =
  balances :: "AccountAddress \<rightharpoonup> AccountState"
  metablocks :: MetaBlocks
  recent_proof_ids :: "ProofId set"
  proof_ids_by_timeslot :: "u64 \<rightharpoonup> ProofId list"
  cached_proposer_blocks_by_parent_content_id :: "ContentId \<rightharpoonup> Block list"
  cached_tx_blocks_by_content_id :: "ContentId \<rightharpoonup> Block"
  early_blocks_by_timeslot :: "u64 \<rightharpoonup> Block list"
  heads :: "Head list"
  confirmed_blocks :: "ProofId set"
  last_eon_close_timeslot :: u64
  solution_range_update :: SolutionRangeUpdate
  current_solution_range :: u64
  solution_ranges_by_eon :: "u64 \<rightharpoonup> u64"
  txs :: "TxId \<rightharpoonup> Transaction"
  unclaimed_tx_ids :: "TxId set"
  unknown_tx_ids :: "TxId set"
  applied_tx_ids :: "TxId set"
  unclaimed_tx_block_ids :: "ContentId set"
  unknown_tx_block_ids :: "ContentId set"
  applied_tx_block_ids :: "ContentId set"
  state :: State
  epoch_tracker :: Inner
  timer_is_running :: bool
  quality :: u32
  keys :: Keypair
  sloth :: Sloth
  genesis_timestamp :: u64
  genesis_challenge :: bytes
  current_timeslot :: u64

text \<open>The farmer's solution (\<^verbatim>\<open>src/farmer.rs\<close>) that a local block is made from.\<close>

record Solution =
  s_epoch_index :: u64
  s_timeslot :: u64
  s_randomness :: bytes
  s_piece_index :: u64
  s_tag :: Tag
  s_encoding :: Piece
  s_merkle_proof :: bytes
  s_solution_range :: u64
  s_target :: bytes

record GenesisConfig =
  gc_genesis_timestamp :: u64
  gc_genesis_challenge :: bytes

section \<open>Creation, queries, small updates\<close>

definition initial_ledger :: "Keypair \<Rightarrow> Inner \<Rightarrow> State \<Rightarrow> Sloth \<Rightarrow> Ledger" where
  "initial_ledger ks tracker st sl =
     (let challenge = replicate 32 0
      in \<lparr>balances = Map.empty, metablocks = MetaBlocks_new challenge, recent_proof_ids = {},
          proof_ids_by_timeslot = Map.empty, cached_proposer_blocks_by_parent_content_id = Map.empty,
          cached_tx_blocks_by_content_id = Map.empty, early_blocks_by_timeslot = Map.empty, heads = [],
          confirmed_blocks = {}, last_eon_close_timeslot = 0,
          solution_range_update = \<lparr>sru_next_timeslot = 0, sru_block_height = 0, sru_solution_range = 0\<rparr>,
          current_solution_range = INITIAL_SOLUTION_RANGE,
          solution_ranges_by_eon = [0 \<mapsto> INITIAL_SOLUTION_RANGE], txs = Map.empty,
          unclaimed_tx_ids = {}, unknown_tx_ids = {}, applied_tx_ids = {}, unclaimed_tx_block_ids = {},
          unknown_tx_block_ids = {}, applied_tx_block_ids = {}, state = st, epoch_tracker = tracker,
          timer_is_running = False, quality = 0, keys = ks, sloth = sl, genesis_timestamp = 0,
          genesis_challenge = challenge, current_timeslot = 0\<rparr>)"

text \<open>\<open>None\<close> when \<^verbatim>\<open>Sloth::init\<close> does not return.\<close>

definition Ledger_new :: "'z gmp_scheme \<Rightarrow> Keypair \<Rightarrow> Inner \<Rightarrow> State \<Rightarrow> Ledger option" where
  "Ledger_new E ks tracker st = map_option (initial_ledger ks tracker st) (init E PRIME_SIZE_BITS)"

definition set_genesis_config :: "Ledger \<Rightarrow> GenesisConfig \<Rightarrow> Ledger" where
  "set_genesis_config L cfg =
     L\<lparr>genesis_challenge := gc_genesis_challenge cfg, genesis_timestamp := gc_genesis_timestamp cfg\<rparr>"

definition get_blocks_by_timeslot :: "Ledger \<Rightarrow> u64 \<Rightarrow> Block list res" where
  "get_blocks_by_timeslot L timeslot =
     (case proof_ids_by_timeslot L timeslot of
        None \<Rightarrow> Ok []
      | Some proof_ids \<Rightarrow>
          foldR (\<lambda>acc proof_id. bindR (get_metablock_from_proof_id (metablocks L) proof_id) (\<lambda>m.
                   Ok (acc @ [mb_block m]))) [] proof_ids)"

text \<open>
  \<^verbatim>\<open>get_txs_for_sync\<close> returns the values of a \<^verbatim>\<open>HashMap\<close> in an unspecified order; the model returns
  the map.
\<close>

definition collect_tx ::
  "Ledger \<Rightarrow> (TxId \<rightharpoonup> SimpleCreditTx) \<Rightarrow> TxId \<Rightarrow> (TxId \<rightharpoonup> SimpleCreditTx) res" where
  "collect_tx L acc tx_id =
     bindR (expect ''Should have tx'' (txs L tx_id)) (\<lambda>tx.
     case tx of
       Credit t \<Rightarrow> Ok (acc(tx_id \<mapsto> t))
     | Coinbase _ \<Rightarrow> Panic (PanicMsg ''Coinbase tx should not be ref'd in a tx block!''))"

definition get_txs_for_sync ::
  "'z blocklib_scheme \<Rightarrow> Ledger \<Rightarrow> Block list \<Rightarrow> (TxId \<rightharpoonup> SimpleCreditTx) res" where
  "get_txs_for_sync E L bs =
     foldR (\<lambda>acc b.
         bindR (get_metablock_from_content_id (metablocks L) (Content_get_id E (b_content b))) (\<lambda>m.
         foldR (collect_tx L) acc (drop 1 (c_refs (b_content (mb_block m))))))
       Map.empty (filter (\<lambda>b. c_parent_id (b_content b) = None) bs)"

definition add_block_to_timeslot :: "Ledger \<Rightarrow> u64 \<Rightarrow> ProofId \<Rightarrow> Ledger" where
  "add_block_to_timeslot L timeslot proof_id =
     L\<lparr>proof_ids_by_timeslot := entry_push (proof_ids_by_timeslot L) timeslot proof_id\<rparr>"

definition get_head :: "Ledger \<Rightarrow> ContentId" where
  "get_head L = (case heads L of [] \<Rightarrow> genesis_challenge L | h # _ \<Rightarrow> h_content_id h)"

definition cache_remote_proposer_block :: "Ledger \<Rightarrow> Block \<Rightarrow> Ledger res" where
  "cache_remote_proposer_block L b =
     bindR (expect ''only called on proposer blocks'' (c_parent_id (b_content b))) (\<lambda>parent_id.
     Ok (L\<lparr>cached_proposer_blocks_by_parent_content_id :=
             entry_push (cached_proposer_blocks_by_parent_content_id L) parent_id b\<rparr>))"

section \<open>Branches\<close>

definition advance_head :: "Head list \<Rightarrow> nat \<Rightarrow> ContentId \<Rightarrow> Head list" where
  "advance_head hs i content_id =
     (let hs = hs[i := (hs ! i)\<lparr>h_block_height := h_block_height (hs ! i) + 1, h_content_id := content_id\<rparr>]
      in if i \<noteq> 0 \<and> h_block_height (hs ! 0) < h_block_height (hs ! i) then vec_swap 0 i hs else hs)"

definition update_heads :: "Ledger \<Rightarrow> ContentId \<Rightarrow> ContentId \<Rightarrow> u64 \<Rightarrow> Ledger" where
  "update_heads L parent_content_id content_id block_height =
     (case position (\<lambda>h. h_content_id h = parent_content_id) (heads L) of
        Some i \<Rightarrow> L\<lparr>heads := advance_head (heads L) i content_id\<rparr>
      | None \<Rightarrow> L\<lparr>heads := heads L @ [\<lparr>h_block_height = block_height, h_content_id = content_id\<rparr>]\<rparr>)"

definition prune_branch :: "Ledger \<Rightarrow> ContentId \<Rightarrow> Ledger res" where
  "prune_branch L content_id =
     (let remove_index = foldl (\<lambda>r (i, h). if h_content_id h = content_id then i else r) 0
                           (enumerate 0 (heads L))
      in if remove_index = 0 then Panic (PanicMsg ''Cannot prune head of the longest chain!'')
         else Ok (L\<lparr>heads := vec_remove remove_index (heads L)\<rparr>))"

text \<open>
  \<^verbatim>\<open>proof_ids_by_timeslot.entry(t).and_modify(..)\<close> of the pruning: a vector without the proof id
  panics, a missing entry is left alone.
\<close>

definition remove_from_timeslot :: "Ledger \<Rightarrow> u64 \<Rightarrow> ProofId \<Rightarrow> Ledger res" where
  "remove_from_timeslot L timeslot proof_id =
     (case proof_ids_by_timeslot L timeslot of
        None \<Rightarrow> Ok L
      | Some proof_ids \<Rightarrow>
          bindR (unwrap (position (\<lambda>p. p = proof_id) proof_ids)) (\<lambda>i.
          Ok (L\<lparr>proof_ids_by_timeslot := (proof_ids_by_timeslot L)(timeslot \<mapsto> vec_remove i proof_ids)\<rparr>)))"

text \<open>One round of the pruning loop up to the recursive call.\<close>

definition prune_one :: "Ledger \<Rightarrow> ProofId \<Rightarrow> (Ledger \<times> MetaBlock) res" where
  "prune_one L child_proof_id =
     bindR (remove (metablocks L) child_proof_id) (\<lambda>(ms, metablock).
     bindR (remove_from_timeslot (L\<lparr>metablocks := ms\<rparr>) (p_timeslot (b_proof (mb_block metablock)))
              (mb_proof_id metablock)) (\<lambda>L.
     Ok (L, metablock)))"

function prune_blocks_recursive :: "Ledger \<Rightarrow> ProofId list \<Rightarrow> Ledger res" where
  "prune_blocks_recursive L [] = Ok L"
| "prune_blocks_recursive L (child_proof_id # proof_ids) =
     (case prune_one L child_proof_id of
        Inl e \<Rightarrow> Inl e
      | Inr (L1, metablock) \<Rightarrow>
          (case (if 0 < length (mb_children metablock) then prune_blocks_recursive L1 (mb_children metablock)
                 else prune_branch L1 (mb_content_id metablock)) of
             Inl e \<Rightarrow> Inl e
           | Inr L2 \<Rightarrow> prune_blocks_recursive L2 proof_ids))"
  by pat_completeness auto

definition store_size :: "Ledger \<Rightarrow> nat" where
  "store_size L = fcard (fmdom (blocks (metablocks L)))"

lemma prune_branch_frame:
  "prune_branch L c = Ok L' \<Longrightarrow> metablocks L' = metablocks L"
  by (auto simp: prune_branch_def Let_def split: if_splits)

lemma prune_one_size:
  assumes "prune_one L p = Ok (L', m)"
  shows "store_size L' < store_size L"
proof -
  obtain ms L1 where r: "remove (metablocks L) p = Ok (ms, m)"
    and t: "remove_from_timeslot (L\<lparr>metablocks := ms\<rparr>) (p_timeslot (b_proof (mb_block m))) (mb_proof_id m) = Ok L'"
    using assms by (auto simp: prune_one_def bindR_Ok_iff)
  have "metablocks L' = ms" using t by (auto simp: remove_from_timeslot_def bindR_Ok_iff split: option.splits)
  moreover have "fmdom (blocks ms) = fmdom (blocks (metablocks L)) |-| {|p|}" "p |\<in>| fmdom (blocks (metablocks L))"
    using remove_Ok_E [OF r] by (auto intro: fmdomI)
  ultimately show ?thesis unfolding store_size_def by (metis fcard_fminus1_less)
qed

lemma prune_size:
  "prune_blocks_recursive_dom (L, ps) \<Longrightarrow> prune_blocks_recursive L ps = Ok L' \<Longrightarrow> store_size L' \<le> store_size L"
proof (induction L ps arbitrary: L' rule: prune_blocks_recursive.pinduct)
  case (1 L)
  then show ?case by (simp add: prune_blocks_recursive.psimps)
next
  case (2 L p ps)
  note eq = prune_blocks_recursive.psimps(2) [OF 2(1)] and run = 2(4)
  show ?case
  proof (cases "prune_one L p")
    case (Inl e)
    then show ?thesis using eq run by simp
  next
    case one: (Inr z)
    obtain L1 m where z: "z = (L1, m)" by (cases z)
    let ?r = "if 0 < length (mb_children m) then prune_blocks_recursive L1 (mb_children m)
      else prune_branch L1 (mb_content_id m)"
    show ?thesis
    proof (cases ?r)
      case (Inl e)
      then show ?thesis using eq run one z by simp
    next
      case two: (Inr L2)
      have rest: "prune_blocks_recursive L2 ps = Ok L'" using eq run one z two by simp
      have "store_size L2 \<le> store_size L1"
      proof (cases "0 < length (mb_children m)")
        case True
        then show ?thesis using 2(2) [OF one z [symmetric] True] two by simp
      next
        case False
        then show ?thesis using two prune_branch_frame by (simp add: store_size_def)
      qed
      moreover have "store_size L' \<le> store_size L2" using 2(3) [OF one z [symmetric] two rest] .
      ultimately show ?thesis using prune_one_size [of L p L1 m] one z by simp
    qed
  qed
qed

lemma prune_round_size:
  assumes "prune_one L p = Ok (L1, m)"
    and "0 < length (mb_children m) \<Longrightarrow> prune_blocks_recursive_dom (L1, mb_children m)"
    and "(if 0 < length (mb_children m) then prune_blocks_recursive L1 (mb_children m)
      else prune_branch L1 (mb_content_id m)) = Ok L2"
  shows "store_size L2 < store_size L"
proof -
  have "store_size L2 \<le> store_size L1"
  proof (cases "0 < length (mb_children m)")
    case True
    then show ?thesis using prune_size [OF assms(2)] assms(3) by simp
  next
    case False
    then show ?thesis using assms(3) prune_branch_frame by (simp add: store_size_def)
  qed
  then show ?thesis using prune_one_size [OF assms(1)] by simp
qed

termination prune_blocks_recursive
proof (relation "measures [\<lambda>(L, ps). store_size L, \<lambda>(L, ps). length ps]")
  show "((L1, mb_children m), (L, p # ps)) \<in> measures [\<lambda>(L, ps). store_size L, \<lambda>(L, ps). length ps]"
    if "prune_one L p = Inr z" "(L1, m) = z" "0 < length (mb_children m)" for L p ps z L1 m
    using that prune_one_size [of L p L1 m] by auto
  show "((L2, ps), (L, p # ps)) \<in> measures [\<lambda>(L, ps). store_size L, \<lambda>(L, ps). length ps]"
    if "prune_one L p = Inr z" "(L1, m) = z"
      "(if 0 < length (mb_children m) then prune_blocks_recursive L1 (mb_children m)
        else prune_branch L1 (mb_content_id m)) = Inr L2"
      "0 < length (mb_children m) \<Longrightarrow> prune_blocks_recursive_dom (L1, mb_children m)" for L p ps z L1 m L2
    using prune_round_size [of L p L1 m L2] that by auto
qed simp

text \<open>What every round keeps, the recursion keeps.\<close>

lemma prune_invariant:
  assumes one: "\<And>L p L1 m. P L \<Longrightarrow> prune_one L p = Ok (L1, m) \<Longrightarrow> P L1"
    and branch: "\<And>L c L1. P L \<Longrightarrow> prune_branch L c = Ok L1 \<Longrightarrow> P L1"
  shows "prune_blocks_recursive L ps = Ok L' \<Longrightarrow> P L \<Longrightarrow> P L'"
proof (induction L ps arbitrary: L' rule: prune_blocks_recursive.induct)
  case (2 L p ps)
  show ?case
  proof (cases "prune_one L p")
    case (Inr z)
    obtain L1 m where z: "z = (L1, m)" by (cases z)
    have P1: "P L1" using one [OF 2(4)] Inr z by blast
    let ?r = "if 0 < length (mb_children m) then prune_blocks_recursive L1 (mb_children m)
      else prune_branch L1 (mb_content_id m)"
    show ?thesis
    proof (cases ?r)
      case r: (Inr L2)
      have "P L2"
      proof (cases "0 < length (mb_children m)")
        case True
        then show ?thesis using 2(1) [OF Inr z [symmetric] True _ P1] r by simp
      next
        case False
        then show ?thesis using branch [OF P1] r by simp
      qed
      then show ?thesis using 2(2) [OF Inr z [symmetric] r] 2(3) Inr z r by simp
    qed (use 2(3) Inr z in simp)
  qed (use 2(3) in simp)
qed simp

text \<open>Pruning touches the store, the timeslot index and the heads only.\<close>

definition same_but_pruned :: "Ledger \<Rightarrow> Ledger \<Rightarrow> bool" where
  "same_but_pruned L L' \<longleftrightarrow>
     L' = L\<lparr>metablocks := metablocks L', proof_ids_by_timeslot := proof_ids_by_timeslot L', heads := heads L'\<rparr>"

lemma same_but_pruned_refl [simp]: "same_but_pruned L L"
  by (simp add: same_but_pruned_def)

lemma same_but_pruned_trans:
  assumes "same_but_pruned L1 L2" and "same_but_pruned L2 L3"
  shows "same_but_pruned L1 L3"
proof -
  have "L2\<lparr>metablocks := m, proof_ids_by_timeslot := t, heads := h\<rparr> =
      L1\<lparr>metablocks := m, proof_ids_by_timeslot := t, heads := h\<rparr>" for m t h
    by (subst assms(1) [unfolded same_but_pruned_def]) simp
  then show ?thesis using assms(2) unfolding same_but_pruned_def by metis
qed

lemma prune_branch_same: "prune_branch L c = Ok L' \<Longrightarrow> same_but_pruned L L'"
  by (auto simp: prune_branch_def same_but_pruned_def Let_def split: if_splits)

lemma remove_from_timeslot_same: "remove_from_timeslot L t p = Ok L' \<Longrightarrow> same_but_pruned L L'"
  by (auto simp: remove_from_timeslot_def same_but_pruned_def bindR_Ok_iff split: option.splits)

lemma prune_one_same:
  assumes "prune_one L p = Ok (L', m)"
  shows "same_but_pruned L L'"
proof -
  obtain ms where t: "remove_from_timeslot (L\<lparr>metablocks := ms\<rparr>) (p_timeslot (b_proof (mb_block m))) (mb_proof_id m) = Ok L'"
    using assms by (auto simp: prune_one_def bindR_Ok_iff)
  have "same_but_pruned L (L\<lparr>metablocks := ms\<rparr>)" by (simp add: same_but_pruned_def)
  then show ?thesis using remove_from_timeslot_same [OF t] same_but_pruned_trans by blast
qed

lemma prune_same: "prune_blocks_recursive L ps = Ok L' \<Longrightarrow> same_but_pruned L L'"
  by (rule prune_invariant [where P = "same_but_pruned L"])
    (auto intro: same_but_pruned_trans prune_one_same prune_branch_same)

lemma same_but_pruned_fields:
  assumes "same_but_pruned L L'"
  shows "balances L' = balances L" "state L' = state L" "confirmed_blocks L' = confirmed_blocks L"
    "applied_tx_ids L' = applied_tx_ids L" "applied_tx_block_ids L' = applied_tx_block_ids L" "txs L' = txs L"
    "current_timeslot L' = current_timeslot L" "epoch_tracker L' = epoch_tracker L"
    "recent_proof_ids L' = recent_proof_ids L" "genesis_challenge L' = genesis_challenge L"
    "current_solution_range L' = current_solution_range L"
  by (subst assms [unfolded same_but_pruned_def], simp)+

section \<open>The longest chain\<close>

text \<open>The first head is a highest one.\<close>

definition heads_ok :: "Ledger \<Rightarrow> bool" where
  "heads_ok L \<longleftrightarrow> (\<forall>h \<in> set (heads L). h_block_height h \<le> h_block_height (hd (heads L)))"

lemma update_head_bound:
  assumes "\<forall>h \<in> set hs. h_block_height h \<le> m" and "m \<le> h_block_height x" and "h \<in> set (hs[i := x])"
  shows "h_block_height h \<le> h_block_height x"
proof -
  have "h = x \<or> h \<in> set hs" using assms(3) set_update_subset_insert [of hs i x] by blast
  then show ?thesis using assms(1,2) by (auto intro: order_trans)
qed

lemma advance_head_ok:
  assumes "\<forall>h \<in> set hs. h_block_height h \<le> h_block_height (hd hs)" and "i < length hs"
    and "h_block_height (hs ! i) \<noteq> - 1"
  shows "\<forall>h \<in> set (advance_head hs i c). h_block_height h \<le> h_block_height (hd (advance_head hs i c))"
proof -
  let ?h = "(hs ! i)\<lparr>h_block_height := h_block_height (hs ! i) + 1, h_content_id := c\<rparr>"
  let ?hs = "hs[i := ?h]"
  have up: "h_block_height (hs ! i) \<le> h_block_height ?h" using unat_succ_u64 [OF assms(3)] by (simp add: word_le_nat_alt)
  have ne: "hs \<noteq> []" "?hs \<noteq> []" using assms(2) by auto
  then have hd0: "hd hs = hs ! 0" "hd ?hs = ?hs ! 0" by (simp_all add: hd_conv_nth)
  note bound = update_head_bound [OF assms(1), of ?h _ i]
  consider "i = 0" | "i \<noteq> 0" "h_block_height (hd hs) < h_block_height ?h" | "i \<noteq> 0" "h_block_height ?h \<le> h_block_height (hd hs)" by force
  then show ?thesis
  proof cases
    case 1
    then show ?thesis using bound up hd0 assms(2) by (simp add: advance_head_def Let_def)
  next
    case 2
    then have s: "advance_head hs i c = vec_swap 0 i ?hs" using assms(2) hd0 by (simp add: advance_head_def Let_def)
    have "hd (vec_swap 0 i ?hs) = ?h" using 2(1) assms(2) ne by (simp add: hd_conv_nth vec_swap_def)
    moreover have "set (vec_swap 0 i ?hs) = set ?hs" using assms(2) ne by (intro set_vec_swap) auto
    ultimately show ?thesis unfolding s using bound 2(2) by simp
  next
    case 3
    then have "\<not> h_block_height (hs ! 0) < h_block_height (hs ! i) + 1" using hd0(1) by (simp add: not_less)
    then have "advance_head hs i c = ?hs" "hd ?hs = hd hs" using 3(1) assms(2) hd0 by (simp_all add: advance_head_def Let_def)
    then show ?thesis using assms(1) 3(2) set_update_subset_insert [of hs i ?h] by auto
  qed
qed

lemma update_heads_ok:
  assumes "heads_ok L" and "\<forall>h \<in> set (heads L). h_block_height h \<noteq> - 1"
    and "(\<forall>h \<in> set (heads L). h_content_id h \<noteq> parent) \<Longrightarrow> heads L = [] \<or> height \<le> h_block_height (hd (heads L))"
  shows "heads_ok (update_heads L parent c height)"
proof (cases "position (\<lambda>h. h_content_id h = parent) (heads L)")
  case None
  then have "heads L = [] \<or> height \<le> h_block_height (hd (heads L))"
    using assms(3) by (simp add: position_None_iff)
  then show ?thesis using assms(1) None by (cases "heads L") (auto simp: heads_ok_def update_heads_def)
next
  case (Some i)
  then have i: "i < length (heads L)" by (simp add: position_Some_iff)
  then show ?thesis using advance_head_ok [of "heads L" i c] assms(1,2) Some
    by (simp add: heads_ok_def update_heads_def)
qed

text \<open>Pruning a branch.\<close>

lemma last_match:
  "foldl (\<lambda>r (i, x). if P x then i else r) d (enumerate k xs) =
     (case filter (\<lambda>i. P (xs ! i)) [0..<length xs] of [] \<Rightarrow> d | js \<Rightarrow> k + last js)"
proof (induction xs rule: rev_induct)
  case (snoc x xs)
  have f: "filter (\<lambda>i. P ((xs @ [x]) ! i)) [0..<length xs] = filter (\<lambda>i. P (xs ! i)) [0..<length xs]"
    by (rule filter_cong) (auto simp: nth_append)
  show ?case using snoc f by (auto simp: enumerate_append_eq split: list.splits)
qed simp

lemma sorted_le_last: "sorted xs \<Longrightarrow> x \<in> set xs \<Longrightarrow> x \<le> last xs"
  by (induction xs) auto

lemma prune_branch_Ok_iff:
  "(\<exists>L'. prune_branch L c = Ok L') \<longleftrightarrow> (\<exists>i. 0 < i \<and> i < length (heads L) \<and> h_content_id (heads L ! i) = c)"
proof -
  let ?js = "filter (\<lambda>i. h_content_id (heads L ! i) = c) [0..<length (heads L)]"
  let ?r = "case ?js of [] \<Rightarrow> 0 | js \<Rightarrow> 0 + last js"
  have r: "prune_branch L c = (if ?r = 0 then Panic (PanicMsg ''Cannot prune head of the longest chain!'')
      else Ok (L\<lparr>heads := vec_remove ?r (heads L)\<rparr>))"
    by (simp only: prune_branch_def last_match Let_def)
  have "?r \<noteq> 0 \<longleftrightarrow> (\<exists>i. 0 < i \<and> i \<in> set ?js)"
  proof (cases "?js = []")
    case True
    then show ?thesis by simp
  next
    case False
    then have v: "?r = last ?js" by (cases ?js) auto
    have "last ?js \<in> set ?js" using False by (rule last_in_set)
    moreover have "sorted ?js" by (rule sorted_wrt_filter) simp
    then have "\<forall>j \<in> set ?js. j \<le> last ?js" using sorted_le_last by blast
    ultimately show ?thesis unfolding v by fastforce
  qed
  then show ?thesis unfolding r by auto
qed

lemma prune_branch_heads_ok:
  assumes "heads_ok L" and "prune_branch L c = Ok L'"
  shows "heads_ok L' \<and> hd (heads L') = hd (heads L) \<and> heads L' \<noteq> []"
proof -
  obtain i where i: "0 < i" "L' = L\<lparr>heads := vec_remove i (heads L)\<rparr>"
    using assms(2) by (auto simp: prune_branch_def Let_def split: if_splits)
  have "\<exists>j. 0 < j \<and> j < length (heads L)" using assms(2) prune_branch_Ok_iff [of L c] by auto
  then obtain h hs where hs: "heads L = h # hs" by (cases "heads L") auto
  obtain k where "i = Suc k" using i(1) by (cases i) auto
  then have "vec_remove i (heads L) = h # vec_remove k hs" by (simp add: vec_remove_def hs)
  then show ?thesis using assms(1) set_vec_remove_subset [of k hs] i(2) hs by (auto simp: heads_ok_def)
qed

text \<open>
  The first head stays a highest one when a block extends a branch or opens one that is not
  higher, whatever branch overtakes: \<^verbatim>\<open>get_head\<close> is the tip of a longest chain.
\<close>

theorem update_heads_longest:
  assumes "heads_ok L" and "\<forall>h \<in> set (heads L). h_block_height h \<noteq> - 1"
    and "(\<exists>h \<in> set (heads L). h_content_id h = parent) \<or> heads L = [] \<or> height \<le> h_block_height (hd (heads L))"
  shows "heads_ok (update_heads L parent c height)"
  using update_heads_ok [OF assms(1,2)] assms(3) by blast

text \<open>
  Pruning a branch panics exactly when no head other than the first has the given content: also
  when the branch is not tracked at all.
\<close>

theorem prune_branch_panics_iff:
  "(\<exists>e. prune_branch L c = Panic e) \<longleftrightarrow> (\<nexists>i. 0 < i \<and> i < length (heads L) \<and> h_content_id (heads L ! i) = c)"
  using prune_branch_Ok_iff [of L c] by (cases "prune_branch L c") auto

section \<open>A concrete ledger\<close>

definition toy_ledger :: Ledger where
  "toy_ledger = initial_ledger toy_keys \<lparr>current_epoch = 0, epochs = [0 \<mapsto> Epoch_new toy_crypto 0]\<rparr> toy_state small_sloth"

theorem update_heads_longest_witness:
  "heads_ok (update_heads (toy_ledger\<lparr>heads := [\<lparr>h_block_height = 5, h_content_id = [1]\<rparr>,
       \<lparr>h_block_height = 5, h_content_id = [2]\<rparr>]\<rparr>) [2] [3] 6)"
  (is "heads_ok (update_heads ?L _ _ _)")
proof (rule update_heads_longest)
  show "heads_ok ?L" "\<forall>h \<in> set (heads ?L). h_block_height h \<noteq> - 1" by (simp_all add: heads_ok_def)
qed simp

end
