(* ===== verification/Ledger_Confirm.thy ===== *)
theory Ledger_Confirm
  imports Ledger "HOL-Library.Multiset"
begin

text \<open>
  Confirmation of a block that is \<open>k\<close> deep (\<^verbatim>\<open>Ledger::confirm_block\<close>): the solution range is
  updated at the end of an eon, the referenced transaction blocks are checked and applied in a
  canonical order, the rewards are paid, and the siblings are pruned.

  Main results: a refused confirmation leaves balances and state alone; the credits in
  circulation change by exactly the rewards paid; account nonces never change; no credit
  transaction is applied twice; the order of application does not depend on the order of the
  references; the adjustment of the solution range is bounded.
\<close>

section \<open>Definitions\<close>

text \<open>\<^verbatim>\<open>range_adjustment\<close>, clamped to the interval from a quarter to four.\<close>

definition range_adjustment :: "u64 \<Rightarrow> rat" where
  "range_adjustment elapsed_timeslots =
     (let adj = f64_div (u64_as_f64 elapsed_timeslots) (u64_as_f64 EXPECTED_TIMESLOTS_PER_EON);
          adj = (if 4 < adj then 4 else adj)
      in if adj < 1 / 4 then 1 / 4 else adj)"

definition close_eon :: "Ledger \<Rightarrow> u64 \<Rightarrow> Ledger" where
  "close_eon L height =
     (let elapsed_timeslots = current_timeslot L - last_eon_close_timeslot L
      in L\<lparr>last_eon_close_timeslot := current_timeslot L,
           solution_range_update :=
             \<lparr>sru_next_timeslot = current_timeslot L + SOLUTION_RANGE_UPDATE_DELAY_IN_TIMESLOTS,
              sru_block_height = height,
              sru_solution_range =
                f64_as_u64 (f64_mult (u64_as_f64 (current_solution_range L)) (range_adjustment elapsed_timeslots))\<rparr>\<rparr>)"

definition update_solution_range :: "Ledger \<Rightarrow> u64 \<Rightarrow> Ledger" where
  "update_solution_range L height =
     (if 0 < height \<and> height mod PROPOSER_BLOCKS_PER_EON = 0 then close_eon L height else L)"

text \<open>The checks before anything is applied; the loops have no effect, so each is a conjunction.\<close>

definition tx_refs_known :: "Ledger \<Rightarrow> TxId list \<Rightarrow> bool" where
  "tx_refs_known L refs =
     list_all (\<lambda>(i, tx_id). case txs L tx_id of
         Some (Coinbase _) \<Rightarrow> i = 0 | Some (Credit _) \<Rightarrow> i \<noteq> 0 | None \<Rightarrow> False)
       (enumerate 0 refs)"

definition refs_available :: "Ledger \<Rightarrow> bytes list \<Rightarrow> bool" where
  "refs_available L refs =
     list_all (\<lambda>(i, ref_id).
         if i = 0 then (case txs L ref_id of Some (Coinbase _) \<Rightarrow> True | _ \<Rightarrow> False)
         else if ref_id \<in> applied_tx_block_ids L then True
         else (case get_metablock_from_content_id_as_option (metablocks L) ref_id of
                 Some tx_block \<Rightarrow> tx_refs_known L (c_refs (b_content (mb_block tx_block)))
               | None \<Rightarrow> False))
       (enumerate 0 refs)"

text \<open>Transaction blocks by timeslot, then by proof id.\<close>

definition insert_tx_block :: "'z txlib_scheme \<Rightarrow> (u64 \<times> ProofId list) list \<Rightarrow> Block \<Rightarrow> (u64 \<times> ProofId list) list" where
  "insert_tx_block E m b =
     (let p = Proof_get_id E (b_proof b)
      in btree_entry (p_timeslot (b_proof b)) (\<lambda>ps. sort (ps @ [p])) [p] m)"

definition order_tx_blocks :: "'z txlib_scheme \<Rightarrow> Ledger \<Rightarrow> ContentId list \<Rightarrow> (u64 \<times> ProofId list) list res" where
  "order_tx_blocks E L content_ids =
     foldR (\<lambda>m content_id. bindR (get_metablock_from_content_id (metablocks L) content_id) (\<lambda>mb.
              Ok (insert_tx_block E m (mb_block mb))))
       [] content_ids"

definition add_to_state :: "'z statelib_scheme \<Rightarrow> Ledger \<Rightarrow> bytes \<Rightarrow> Ledger res" where
  "add_to_state E L data = bindR (add_data E (state L) data) (\<lambda>(st, _). Ok (L\<lparr>state := st\<rparr>))"

text \<open>\<^verbatim>\<open>entry(a).and_modify(balance += x).or_insert(AccountState with nonce 0 and balance x)\<close>.\<close>

definition credit :: "(AccountAddress \<rightharpoonup> AccountState) \<Rightarrow> AccountAddress \<Rightarrow> u64 \<Rightarrow> (AccountAddress \<rightharpoonup> AccountState)" where
  "credit bal a x =
     bal(a \<mapsto> (case bal a of Some acc \<Rightarrow> acc\<lparr>a_balance := a_balance acc + x\<rparr>
                           | None \<Rightarrow> \<lparr>a_balance = x, a_nonce = 0\<rparr>))"

text \<open>\<^verbatim>\<open>entry(a).and_modify(balance -= x)\<close>.\<close>

definition debit :: "(AccountAddress \<rightharpoonup> AccountState) \<Rightarrow> AccountAddress \<Rightarrow> u64 \<Rightarrow> (AccountAddress \<rightharpoonup> AccountState)" where
  "debit bal a x =
     (case bal a of Some acc \<Rightarrow> bal(a \<mapsto> acc\<lparr>a_balance := a_balance acc - x\<rparr>) | None \<Rightarrow> bal)"

definition mark_applied :: "TxId \<Rightarrow> Ledger \<Rightarrow> Ledger" where
  "mark_applied tx_id L = L\<lparr>applied_tx_ids := insert tx_id (applied_tx_ids L)\<rparr>"

definition apply_coinbase :: "'z txlib_scheme \<Rightarrow> Ledger \<Rightarrow> CoinbaseTx \<Rightarrow> Ledger res" where
  "apply_coinbase E L tx =
     add_to_state E (L\<lparr>balances := credit (balances L) (cb_to_address tx) BLOCK_REWARD\<rparr>) (ser_coinbase E tx)"

text \<open>A credit transaction: \<open>None\<close> is the \<^verbatim>\<open>continue\<close> that skips it.\<close>

definition apply_credit :: "'z txlib_scheme \<Rightarrow> Ledger \<Rightarrow> SimpleCreditTx \<Rightarrow> Ledger option res" where
  "apply_credit E L tx =
     (if SimpleCreditTx_get_id E tx \<in> applied_tx_ids L then Ok None
      else
        bindR (expect ''Existence of account state has already been validated'' (balances L (tx_from_address tx)))
          (\<lambda>sender_account_state.
           if a_balance sender_account_state < tx_amount tx then Ok None
           else if tx_nonce tx \<le> a_nonce sender_account_state then Ok None
           else
             (let bal = credit (debit (balances L) (tx_from_address tx) (tx_amount tx)) (tx_to_address tx) (tx_amount tx)
              in bindR (add_to_state E (L\<lparr>balances := bal\<rparr>) (ser_credit E tx)) (\<lambda>L. Ok (Some L)))))"

definition apply_tx :: "'z txlib_scheme \<Rightarrow> Ledger \<Rightarrow> TxId \<Rightarrow> Ledger res" where
  "apply_tx E L tx_id =
     bindR (expect ''Already checked'' (txs L tx_id)) (\<lambda>tx.
     case tx of
       Coinbase tx \<Rightarrow> bindR (apply_coinbase E L tx) (\<lambda>L. Ok (mark_applied tx_id L))
     | Credit tx \<Rightarrow> bindR (apply_credit E L tx) (\<lambda>r.
         Ok (case r of None \<Rightarrow> L | Some L \<Rightarrow> mark_applied tx_id L)))"

definition apply_tx_block :: "'z blocklib_scheme \<Rightarrow> Ledger \<Rightarrow> ProofId \<Rightarrow> Ledger res" where
  "apply_tx_block E L proof_id =
     bindR (get_metablock_from_proof_id (metablocks L) proof_id) (\<lambda>mb.
     let tx_block = mb_block mb
     in bindR (foldR (apply_tx E) L (c_refs (b_content tx_block))) (\<lambda>L.
        bindR (add_to_state E L (ser_proof E (b_proof tx_block))) (\<lambda>L.
        bindR (add_to_state E L (ser_content E (b_content tx_block))) (\<lambda>L.
        Ok (L\<lparr>applied_tx_block_ids := insert (Content_get_id E (b_content tx_block)) (applied_tx_block_ids L)\<rparr>)))))"

definition apply_proposer_coinbase :: "'z txlib_scheme \<Rightarrow> Ledger \<Rightarrow> bytes list \<Rightarrow> Ledger res" where
  "apply_proposer_coinbase E L refs =
     bindR (index refs 0) (\<lambda>first_ref.
     bindR (expect ''Already checked'' (txs L first_ref)) (\<lambda>tx.
     case tx of
       Coinbase tx \<Rightarrow>
         add_to_state E
           (mark_applied (CoinbaseTx_get_id E tx)
              (L\<lparr>balances := credit (balances L) (cb_to_address tx) BLOCK_REWARD\<rparr>))
           (ser_coinbase E tx)
     | Credit _ \<Rightarrow> Ok L))"

definition prune_siblings :: "Ledger \<Rightarrow> MetaBlock \<Rightarrow> Ledger res" where
  "prune_siblings L m =
     (if 0 < mb_height m then
        bindR (expect ''Only proposer blocks are confirmed'' (c_parent_id (b_content (mb_block m)))) (\<lambda>parent_id.
        bindR (get_metablock_from_content_id (metablocks L) parent_id) (\<lambda>parent.
        prune_blocks_recursive L (filter (\<lambda>proof_id. proof_id \<noteq> mb_proof_id m) (mb_children parent))))
      else Ok L)"

text \<open>The second half of \<^verbatim>\<open>confirm_block\<close>: everything is available and is now applied.\<close>

definition apply_block :: "'z blocklib_scheme \<Rightarrow> Ledger \<Rightarrow> MetaBlock \<Rightarrow> Ledger res" where
  "apply_block E L m =
     (let content = b_content (mb_block m)
      in bindR (order_tx_blocks E L (filter (\<lambda>c. c \<notin> applied_tx_block_ids L) (drop 1 (c_refs content))))
           (\<lambda>tx_blocks_by_height.
         bindR (foldR (apply_tx_block E) L (concat (map snd tx_blocks_by_height))) (\<lambda>L.
         bindR (apply_proposer_coinbase E L (c_refs content)) (\<lambda>L.
         bindR (add_to_state E L (ser_proof E (b_proof (mb_block m)))) (\<lambda>L.
         bindR (add_to_state E L (ser_content E content)) (\<lambda>L.
         prune_siblings (L\<lparr>confirmed_blocks := insert (mb_proof_id m) (confirmed_blocks L)\<rparr>) m))))))"

definition confirm_block :: "'z blocklib_scheme \<Rightarrow> Ledger \<Rightarrow> MetaBlock \<Rightarrow> (Ledger \<times> bool) res" where
  "confirm_block E L m =
     (if mb_proof_id m \<in> confirmed_blocks L then Ok (L, False)
      else
        (let L = update_solution_range L (mb_height m)
         in if \<not> refs_available L (c_refs (b_content (mb_block m))) then Ok (L, False)
            else bindR (apply_block E L m) (\<lambda>L. Ok (L, True))))"

section \<open>What the application of transactions changes\<close>

text \<open>Only the balances, the state and the two sets of applied ids change.\<close>

definition with_applied ::
  "Ledger \<Rightarrow> (AccountAddress \<rightharpoonup> AccountState) \<Rightarrow> State \<Rightarrow> TxId set \<Rightarrow> ContentId set \<Rightarrow> Ledger" where
  "with_applied L b s a c = L\<lparr>balances := b, state := s, applied_tx_ids := a, applied_tx_block_ids := c\<rparr>"

definition same_but_applied :: "Ledger \<Rightarrow> Ledger \<Rightarrow> bool" where
  "same_but_applied L L' \<longleftrightarrow>
     L' = with_applied L (balances L') (state L') (applied_tx_ids L') (applied_tx_block_ids L')"

lemma with_applied_simps [simp]:
  "balances (with_applied L b s a c) = b" "state (with_applied L b s a c) = s"
  "applied_tx_ids (with_applied L b s a c) = a" "applied_tx_block_ids (with_applied L b s a c) = c"
  "txs (with_applied L b s a c) = txs L" "metablocks (with_applied L b s a c) = metablocks L"
  "confirmed_blocks (with_applied L b s a c) = confirmed_blocks L" "heads (with_applied L b s a c) = heads L"
  "epoch_tracker (with_applied L b s a c) = epoch_tracker L"
  "proof_ids_by_timeslot (with_applied L b s a c) = proof_ids_by_timeslot L"
  "with_applied (with_applied L b s a c) b' s' a' c' = with_applied L b' s' a' c'"
  by (simp_all add: with_applied_def)

lemma same_with [simp]: "same_but_applied L (with_applied L b s a c)"
  by (simp add: same_but_applied_def)

lemma sameE: "same_but_applied L L' \<Longrightarrow> (\<And>b s a c. L' = with_applied L b s a c \<Longrightarrow> P) \<Longrightarrow> P"
  unfolding same_but_applied_def by blast

lemma same_refl [simp]: "same_but_applied L L"
  by (simp add: same_but_applied_def with_applied_def)

lemma same_trans: "same_but_applied L1 L2 \<Longrightarrow> same_but_applied L2 L3 \<Longrightarrow> same_but_applied L1 L3"
  by (elim sameE) simp

lemma same_fields:
  assumes "same_but_applied L L'"
  shows "txs L' = txs L" "metablocks L' = metablocks L" "confirmed_blocks L' = confirmed_blocks L" "heads L' = heads L"
    "epoch_tracker L' = epoch_tracker L" "proof_ids_by_timeslot L' = proof_ids_by_timeslot L"
  using assms by (auto elim!: sameE)

lemma add_to_state_with:
  assumes "add_to_state E L d = Ok L'"
  obtains s where "L' = with_applied L (balances L) s (applied_tx_ids L) (applied_tx_block_ids L)"
  using assms that by (auto simp: add_to_state_def bindR_Ok_iff with_applied_def)

lemma add_to_state_frame:
  assumes "add_to_state E L d = Ok L'"
  shows "same_but_applied L L'" "balances L' = balances L" "applied_tx_ids L' = applied_tx_ids L"
    "applied_tx_block_ids L' = applied_tx_block_ids L"
proof -
  obtain s where "L' = with_applied L (balances L) s (applied_tx_ids L) (applied_tx_block_ids L)"
    using assms by (rule add_to_state_with)
  then show "same_but_applied L L'" "balances L' = balances L" "applied_tx_ids L' = applied_tx_ids L"
    "applied_tx_block_ids L' = applied_tx_block_ids L" by simp_all
qed

text \<open>One transaction: what happens to the balances and to the set of applied ids.\<close>

datatype outcome = Rewarded | Transferred | Skipped

fun outcome_balances :: "outcome \<Rightarrow> Transaction \<Rightarrow> (AccountAddress \<rightharpoonup> AccountState) \<Rightarrow> (AccountAddress \<rightharpoonup> AccountState)" where
  "outcome_balances Rewarded (Coinbase tx) bal = credit bal (cb_to_address tx) BLOCK_REWARD"
| "outcome_balances Transferred (Credit tx) bal =
     credit (debit bal (tx_from_address tx) (tx_amount tx)) (tx_to_address tx) (tx_amount tx)"
| "outcome_balances _ _ bal = bal"

fun outcome_of :: "'z txlib_scheme \<Rightarrow> Ledger \<Rightarrow> Transaction \<Rightarrow> outcome" where
  "outcome_of E L (Coinbase tx) = Rewarded"
| "outcome_of E L (Credit tx) =
     (if SimpleCreditTx_get_id E tx \<in> applied_tx_ids L then Skipped
      else case balances L (tx_from_address tx) of
        None \<Rightarrow> Skipped
      | Some acc \<Rightarrow> if a_balance acc < tx_amount tx \<or> tx_nonce tx \<le> a_nonce acc then Skipped else Transferred)"

lemma apply_tx_Ok:
  assumes "apply_tx E L tx_id = Ok L'"
  obtains tx where "txs L tx_id = Some tx" "same_but_applied L L'"
    "balances L' = outcome_balances (outcome_of E L tx) tx (balances L)"
    "applied_tx_ids L' = (if outcome_of E L tx = Skipped then applied_tx_ids L else insert tx_id (applied_tx_ids L))"
    "applied_tx_block_ids L' = applied_tx_block_ids L"
proof -
  obtain tx where tx: "txs L tx_id = Some tx" using assms by (auto simp: apply_tx_def bindR_Ok_iff)
  have step: "same_but_applied L (mark_applied t L2) \<and> balances (mark_applied t L2) = b \<and>
      applied_tx_ids (mark_applied t L2) = insert t (applied_tx_ids L) \<and>
      applied_tx_block_ids (mark_applied t L2) = applied_tx_block_ids L"
    if a: "add_to_state E (L\<lparr>balances := b\<rparr>) d = Ok L2" for L2 b d t
  proof -
    obtain st where "L2 = with_applied (L\<lparr>balances := b\<rparr>) (balances (L\<lparr>balances := b\<rparr>)) st
        (applied_tx_ids (L\<lparr>balances := b\<rparr>)) (applied_tx_block_ids (L\<lparr>balances := b\<rparr>))"
      using a by (rule add_to_state_with)
    then have "mark_applied t L2 = with_applied L b st (insert t (applied_tx_ids L)) (applied_tx_block_ids L)"
      by (simp add: mark_applied_def with_applied_def)
    then show ?thesis by simp
  qed
  show thesis
  proof (cases tx)
    case (Coinbase c)
    then obtain L2 where "add_to_state E (L\<lparr>balances := credit (balances L) (cb_to_address c) BLOCK_REWARD\<rparr>) (ser_coinbase E c) = Ok L2"
      "L' = mark_applied tx_id L2" using assms tx by (auto simp: apply_tx_def apply_coinbase_def bindR_Ok_iff)
    then show thesis using step that [OF tx] Coinbase by simp
  next
    case (Credit c)
    then obtain r where r: "apply_credit E L c = Ok r" "L' = (case r of None \<Rightarrow> L | Some L \<Rightarrow> mark_applied tx_id L)"
      using assms tx by (auto simp: apply_tx_def bindR_Ok_iff)
    show thesis
    proof (cases r)
      case None
      then have "outcome_of E L tx = Skipped" using r(1) Credit
        by (auto simp: apply_credit_def bindR_Ok_iff Let_def split: if_splits)
      then show thesis using that [OF tx] r(2) None by simp
    next
      case (Some L2)
      then have "outcome_of E L tx = Transferred" "add_to_state E (L\<lparr>balances :=
          credit (debit (balances L) (tx_from_address c) (tx_amount c)) (tx_to_address c) (tx_amount c)\<rparr>) (ser_credit E c) = Ok L2"
        using r(1) Credit by (auto simp: apply_credit_def bindR_Ok_iff Let_def split: if_splits)
      then show thesis using step that [OF tx] r(2) Some Credit by simp
    qed
  qed
qed

section \<open>Credits in circulation\<close>

text \<open>The abstract view of the accounts: a natural number for every address.\<close>

definition abs_balance :: "(AccountAddress \<rightharpoonup> AccountState) \<Rightarrow> AccountAddress \<Rightarrow> nat" where
  "abs_balance bal a = (case bal a of Some acc \<Rightarrow> unat (a_balance acc) | None \<Rightarrow> 0)"

definition total_supply :: "(AccountAddress \<rightharpoonup> AccountState) \<Rightarrow> nat" where
  "total_supply bal = (\<Sum>a \<in> dom bal. abs_balance bal a)"

lemma abs_balance_le_supply: "finite (dom bal) \<Longrightarrow> abs_balance bal a \<le> total_supply bal"
proof (cases "a \<in> dom bal")
  case True
  assume "finite (dom bal)"
  then show ?thesis unfolding total_supply_def using True by (intro member_le_sum) simp_all
qed (simp add: abs_balance_def domIff)

lemma supply_upd:
  assumes "finite (dom bal)"
  shows "total_supply (bal(a \<mapsto> acc)) + abs_balance bal a = total_supply bal + unat (a_balance acc)"
proof -
  have "(\<Sum>x \<in> dom bal - {a}. abs_balance (bal(a \<mapsto> acc)) x) = (\<Sum>x \<in> dom bal - {a}. abs_balance bal x)"
    by (rule sum.cong) (auto simp: abs_balance_def)
  moreover have "total_supply (bal(a \<mapsto> acc)) = abs_balance (bal(a \<mapsto> acc)) a + (\<Sum>x \<in> dom bal - {a}. abs_balance (bal(a \<mapsto> acc)) x)"
    using assms by (simp add: total_supply_def sum.insert_remove)
  moreover have "total_supply bal = abs_balance bal a + (\<Sum>x \<in> dom bal - {a}. abs_balance bal x)"
  proof (cases "a \<in> dom bal")
    case True
    then show ?thesis using assms by (simp add: total_supply_def sum.remove)
  next
    case False
    then have "abs_balance bal a = 0" by (simp add: abs_balance_def domIff)
    then show ?thesis using False by (simp add: total_supply_def)
  qed
  ultimately show ?thesis by (simp add: abs_balance_def)
qed

lemma finite_credit [simp]: "finite (dom (credit bal a x)) = finite (dom bal)"
  by (simp add: credit_def)

lemma finite_debit [simp]: "finite (dom (debit bal a x)) = finite (dom bal)"
  by (simp add: debit_def split: option.splits)

lemma abs_credit:
  assumes "abs_balance bal a + unat x < 2 ^ 64"
  shows "abs_balance (credit bal a x) = (abs_balance bal)(a := abs_balance bal a + unat x)"
  using assms
  by (auto simp: abs_balance_def credit_def fun_eq_iff unat_word_ariths split: option.splits)

lemma abs_debit:
  assumes "bal a = Some acc" and "x \<le> a_balance acc"
  shows "abs_balance (debit bal a x) = (abs_balance bal)(a := abs_balance bal a - unat x)"
  using assms by (auto simp: abs_balance_def debit_def fun_eq_iff unat_sub)

lemma supply_credit:
  assumes "finite (dom bal)" and "total_supply bal + unat x < 2 ^ 64"
  shows "total_supply (credit bal a x) = total_supply bal + unat x"
proof -
  have b: "abs_balance bal a + unat x < 2 ^ 64" using abs_balance_le_supply [OF assms(1), of a] assms(2) by simp
  obtain acc where c: "credit bal a x = bal(a \<mapsto> acc)" by (simp add: credit_def)
  have "unat (a_balance acc) = abs_balance bal a + unat x"
    using abs_credit [OF b] c by (auto simp: abs_balance_def fun_eq_iff split: option.splits if_splits)
  then show ?thesis using supply_upd [OF assms(1), of a acc] c by simp
qed

lemma supply_debit:
  assumes "finite (dom bal)" and "bal a = Some acc" and "x \<le> a_balance acc"
  shows "total_supply (debit bal a x) + unat x = total_supply bal"
proof -
  have "unat (a_balance acc - x) + unat x = abs_balance bal a"
    using assms(2,3) by (simp add: abs_balance_def unat_sub word_le_nat_alt)
  then show ?thesis using supply_upd [OF assms(1), of a "acc\<lparr>a_balance := a_balance acc - x\<rparr>"] assms(2)
    by (simp add: debit_def)
qed

lemma supply_transfer:
  assumes "finite (dom bal)" and "bal a = Some acc" and "x \<le> a_balance acc" and "total_supply bal < 2 ^ 64"
  shows "total_supply (credit (debit bal a x) b x) = total_supply bal"
  using supply_credit [of "debit bal a x" x b] supply_debit [OF assms(1-3)] assms(1,4) by simp

text \<open>A reward is one credit.\<close>

lemma BLOCK_REWARD_nat [simp]: "unat BLOCK_REWARD = 1"
  by (simp add: BLOCK_REWARD_def)

definition is_coinbase :: "Ledger \<Rightarrow> TxId \<Rightarrow> bool" where
  "is_coinbase L tx_id \<longleftrightarrow> (\<exists>tx. txs L tx_id = Some (Coinbase tx))"

lemma outcome_supply:
  assumes "finite (dom (balances L))" and "total_supply (balances L) + of_bool (\<exists>c. tx = Coinbase c) < 2 ^ 64"
  shows "finite (dom (outcome_balances (outcome_of E L tx) tx (balances L)))"
    "total_supply (outcome_balances (outcome_of E L tx) tx (balances L)) = total_supply (balances L) + of_bool (\<exists>c. tx = Coinbase c)"
proof -
  show "finite (dom (outcome_balances (outcome_of E L tx) tx (balances L)))"
    using assms(1) by (cases tx) (auto split: option.splits)
  show "total_supply (outcome_balances (outcome_of E L tx) tx (balances L)) = total_supply (balances L) + of_bool (\<exists>c. tx = Coinbase c)"
  proof (cases tx)
    case (Coinbase c)
    then show ?thesis using supply_credit [OF assms(1), of BLOCK_REWARD] assms(2) by simp
  next
    case (Credit c)
    show ?thesis
    proof (cases "outcome_of E L tx = Transferred")
      case True
      then obtain acc where "balances L (tx_from_address c) = Some acc" "tx_amount c \<le> a_balance acc"
        using Credit by (auto split: if_splits option.splits simp: not_less)
      then show ?thesis using True Credit supply_transfer [OF assms(1)] assms(2) by simp
    next
      case False
      then have "outcome_of E L tx = Skipped" using Credit by (auto split: if_splits option.splits)
      then show ?thesis using Credit by simp
    qed
  qed
qed

text \<open>Nonces: no operation changes one, and a new account starts at 0.\<close>

definition nonce_of :: "(AccountAddress \<rightharpoonup> AccountState) \<Rightarrow> AccountAddress \<Rightarrow> u16" where
  "nonce_of bal a = (case bal a of Some acc \<Rightarrow> a_nonce acc | None \<Rightarrow> 0)"

lemma nonce_credit [simp]: "nonce_of (credit bal a x) = nonce_of bal"
  and nonce_debit [simp]: "nonce_of (debit bal a x) = nonce_of bal"
  by (auto simp: nonce_of_def credit_def debit_def fun_eq_iff split: option.splits)

lemma outcome_nonces [simp]: "nonce_of (outcome_balances r tx bal) = nonce_of bal"
  by (cases "(r, tx, bal)" rule: outcome_balances.cases) auto

section \<open>Sequences of transactions\<close>

definition rewards_in :: "Ledger \<Rightarrow> TxId list \<Rightarrow> nat" where
  "rewards_in L ids = length (filter (is_coinbase L) ids)"

lemma rewards_in_Cons [simp]: "rewards_in L (i # ids) = of_bool (is_coinbase L i) + rewards_in L ids"
  by (simp add: rewards_in_def)

lemma rewards_in_same: "same_but_applied L L' \<Longrightarrow> rewards_in L' ids = rewards_in L ids"
  using same_fields(1) [of L L'] by (simp add: rewards_in_def is_coinbase_def [abs_def])

definition supply_ok :: "Ledger \<Rightarrow> nat \<Rightarrow> bool" where
  "supply_ok L n \<longleftrightarrow> finite (dom (balances L)) \<and> total_supply (balances L) + n < 2 ^ 64"

text \<open>\<open>paid L L' n\<close>: from \<open>L\<close> to \<open>L'\<close> only application happened, and \<open>n\<close> rewards were paid.\<close>

definition paid :: "Ledger \<Rightarrow> Ledger \<Rightarrow> nat \<Rightarrow> bool" where
  "paid L L' n \<longleftrightarrow> same_but_applied L L' \<and> finite (dom (balances L')) \<and>
     total_supply (balances L') = total_supply (balances L) + n \<and> nonce_of (balances L') = nonce_of (balances L)"

lemma paid_refl: "finite (dom (balances L)) \<Longrightarrow> paid L L 0"
  by (simp add: paid_def)

lemma paid_trans: "paid L1 L2 m \<Longrightarrow> paid L2 L3 n \<Longrightarrow> paid L1 L3 (m + n)"
  using same_trans [of L1 L2 L3] by (simp add: paid_def)

lemma paid_supply_ok: "paid L L' m \<Longrightarrow> supply_ok L (m + n) \<Longrightarrow> supply_ok L' n"
  by (simp add: paid_def supply_ok_def)

lemma add_to_state_paid:
  assumes "add_to_state E L d = Ok L'" and "finite (dom (balances L))"
  shows "paid L L' 0"
  using add_to_state_frame [OF assms(1)] assms(2) by (simp add: paid_def)

lemma apply_tx_paid:
  assumes "apply_tx E L i = Ok L'" and "supply_ok L (of_bool (is_coinbase L i))"
  shows "paid L L' (of_bool (is_coinbase L i))"
proof -
  obtain tx where tx: "txs L i = Some tx" "same_but_applied L L'"
      "balances L' = outcome_balances (outcome_of E L tx) tx (balances L)"
    using assms(1) by (rule apply_tx_Ok)
  have c: "is_coinbase L i \<longleftrightarrow> (\<exists>c. tx = Coinbase c)" using tx(1) by (simp add: is_coinbase_def)
  show ?thesis using outcome_supply [of L tx E] assms(2) tx(2,3) unfolding c paid_def supply_ok_def by simp
qed

lemma apply_txs_paid:
  assumes "foldR (apply_tx E) L ids = Ok L'" and "supply_ok L (rewards_in L ids)"
  shows "paid L L' (rewards_in L ids)"
  using assms
proof (induction ids arbitrary: L)
  case Nil
  then show ?case by (simp add: paid_refl supply_ok_def rewards_in_def)
next
  case (Cons i ids)
  obtain L1 where L1: "apply_tx E L i = Ok L1" "foldR (apply_tx E) L1 ids = Ok L'"
    using Cons.prems(1) by auto
  have s: "supply_ok L (of_bool (is_coinbase L i) + rewards_in L ids)" using Cons.prems(2) by simp
  then have p: "paid L L1 (of_bool (is_coinbase L i))"
    using apply_tx_paid [OF L1(1)] by (simp add: supply_ok_def)
  have r: "rewards_in L1 ids = rewards_in L ids" using p by (simp add: paid_def rewards_in_same)
  have "paid L1 L' (rewards_in L1 ids)"
    using Cons.IH [OF L1(2)] paid_supply_ok [OF p s] by (simp only: r)
  then show ?case using paid_trans [OF p, of L' "rewards_in L ids"] by (simp add: r)
qed

definition block_refs :: "MetaBlocks \<Rightarrow> ProofId \<Rightarrow> bytes list" where
  "block_refs ms p = (case fmlookup (blocks ms) p of Some m \<Rightarrow> c_refs (b_content (mb_block m)) | None \<Rightarrow> [])"

lemma apply_tx_block_Ok:
  assumes "apply_tx_block E L p = Ok L'"
  obtains m L1 L2 L3 where "fmlookup (blocks (metablocks L)) p = Some m"
    "foldR (apply_tx E) L (c_refs (b_content (mb_block m))) = Ok L1"
    "add_to_state E L1 (ser_proof E (b_proof (mb_block m))) = Ok L2"
    "add_to_state E L2 (ser_content E (b_content (mb_block m))) = Ok L3"
    "L' = L3\<lparr>applied_tx_block_ids := insert (Content_get_id E (b_content (mb_block m))) (applied_tx_block_ids L3)\<rparr>"
  using assms by (auto simp: apply_tx_block_def Let_def get_metablock_from_proof_id_def bindR_Ok_iff)

lemma apply_tx_block_paid:
  assumes "apply_tx_block E L p = Ok L'" and "supply_ok L (rewards_in L (block_refs (metablocks L) p))"
  shows "paid L L' (rewards_in L (block_refs (metablocks L) p))"
proof -
  obtain m L1 L2 L3 where m: "fmlookup (blocks (metablocks L)) p = Some m"
    and L1: "foldR (apply_tx E) L (c_refs (b_content (mb_block m))) = Ok L1"
    and L2: "add_to_state E L1 (ser_proof E (b_proof (mb_block m))) = Ok L2"
    and L3: "add_to_state E L2 (ser_content E (b_content (mb_block m))) = Ok L3"
    and L': "L' = L3\<lparr>applied_tx_block_ids := insert (Content_get_id E (b_content (mb_block m))) (applied_tx_block_ids L3)\<rparr>"
    using assms(1) by (rule apply_tx_block_Ok)
  have r: "block_refs (metablocks L) p = c_refs (b_content (mb_block m))" using m by (simp add: block_refs_def)
  let ?n = "rewards_in L (c_refs (b_content (mb_block m)))"
  have p1: "paid L L1 ?n" using apply_txs_paid [OF L1] assms(2) by (simp only: r)
  have p2: "paid L1 L2 0" using add_to_state_paid [OF L2] p1 by (simp add: paid_def)
  have p3: "paid L2 L3 0" using add_to_state_paid [OF L3] p2 by (simp add: paid_def)
  have "same_but_applied L3 L'" unfolding L' same_but_applied_def with_applied_def by simp
  then have "paid L3 L' 0" using p3 by (simp add: paid_def L')
  then show ?thesis
    using paid_trans [OF paid_trans [OF paid_trans [OF p1 p2] p3], of L' 0] by (simp only: r add_0_right)
qed

definition rewards_of_blocks :: "Ledger \<Rightarrow> ProofId list \<Rightarrow> nat" where
  "rewards_of_blocks L ps = sum_list (map (\<lambda>p. rewards_in L (block_refs (metablocks L) p)) ps)"

lemma rewards_of_blocks_same: "same_but_applied L L' \<Longrightarrow> rewards_of_blocks L' ps = rewards_of_blocks L ps"
  using same_fields(2) [of L L'] rewards_in_same [of L L'] by (simp add: rewards_of_blocks_def)

lemma apply_tx_blocks_paid:
  assumes "foldR (apply_tx_block E) L ps = Ok L'" and "supply_ok L (rewards_of_blocks L ps)"
  shows "paid L L' (rewards_of_blocks L ps)"
  using assms
proof (induction ps arbitrary: L)
  case Nil
  then show ?case by (simp add: paid_refl supply_ok_def rewards_of_blocks_def)
next
  case (Cons p ps)
  obtain L1 where L1: "apply_tx_block E L p = Ok L1" "foldR (apply_tx_block E) L1 ps = Ok L'"
    using Cons.prems(1) by auto
  let ?n = "rewards_in L (block_refs (metablocks L) p)"
  have e: "rewards_of_blocks L (p # ps) = ?n + rewards_of_blocks L ps" by (simp add: rewards_of_blocks_def)
  have s: "supply_ok L (?n + rewards_of_blocks L ps)" using Cons.prems(2) by (simp only: e)
  then have p: "paid L L1 ?n" using apply_tx_block_paid [OF L1(1)] by (simp add: supply_ok_def)
  have r: "rewards_of_blocks L1 ps = rewards_of_blocks L ps" using p by (simp add: paid_def rewards_of_blocks_same)
  have "paid L1 L' (rewards_of_blocks L1 ps)"
    using Cons.IH [OF L1(2)] paid_supply_ok [OF p s] by (simp only: r)
  then show ?case using paid_trans [OF p, of L' "rewards_of_blocks L ps"] by (simp only: r e)
qed

section \<open>The order of application\<close>

definition tx_block_at :: "Ledger \<Rightarrow> ContentId \<Rightarrow> Block" where
  "tx_block_at L c = (case get_metablock_from_content_id_as_option (metablocks L) c of Some m \<Rightarrow> mb_block m | None \<Rightarrow> undefined)"

definition order_blocks :: "'z txlib_scheme \<Rightarrow> Block list \<Rightarrow> (u64 \<times> ProofId list) list" where
  "order_blocks E bs = foldl (insert_tx_block E) [] bs"

lemma lookup_option:
  "get_metablock_from_content_id ms c = Ok m \<longleftrightarrow> get_metablock_from_content_id_as_option ms c = Some m"
  by (cases "content_to_proof_map ms c")
    (auto simp: get_metablock_from_content_id_def get_proof_id_from_content_id_def get_metablock_from_content_id_as_option_def)

lemma order_tx_blocks_Ok_iff:
  "order_tx_blocks E L ids = Ok m \<longleftrightarrow>
     (\<forall>c \<in> set ids. get_metablock_from_content_id_as_option (metablocks L) c \<noteq> None) \<and>
     m = order_blocks E (map (tx_block_at L) ids)"
proof -
  have "foldR (\<lambda>m c. bindR (get_metablock_from_content_id (metablocks L) c) (\<lambda>mb. Ok (insert_tx_block E m (mb_block mb)))) m0 ids = Ok m
    \<longleftrightarrow> (\<forall>c \<in> set ids. get_metablock_from_content_id_as_option (metablocks L) c \<noteq> None) \<and>
        m = foldl (insert_tx_block E) m0 (map (tx_block_at L) ids)" for m0
  proof (induction ids arbitrary: m0)
    case (Cons c ids)
    show ?case
    proof (cases "get_metablock_from_content_id (metablocks L) c")
      case (Inl e)
      then have "get_metablock_from_content_id_as_option (metablocks L) c = None"
        using lookup_option [of "metablocks L" c] by (cases "get_metablock_from_content_id_as_option (metablocks L) c") auto
      then show ?thesis using Inl by simp
    next
      case (Inr mb)
      then have "get_metablock_from_content_id_as_option (metablocks L) c = Some mb" using lookup_option by blast
      then show ?thesis using Inr Cons.IH by (simp add: tx_block_at_def)
    qed
  qed auto
  then show ?thesis unfolding order_tx_blocks_def order_blocks_def by this
qed

lemma order_blocks_snoc: "order_blocks E (bs @ [b]) = insert_tx_block E (order_blocks E bs) b"
  by (simp add: order_blocks_def)

lemma order_blocks_sorted: "sorted_wrt (<) (map fst (order_blocks E bs))"
  by (induction bs rule: rev_induct)
    (simp_all add: order_blocks_snoc insert_tx_block_def btree_entry_sorted Let_def, simp add: order_blocks_def)

abbreviation ids_at :: "'z txlib_scheme \<Rightarrow> u64 \<Rightarrow> Block list \<Rightarrow> ProofId list" where
  "ids_at E t bs \<equiv> map (\<lambda>b. Proof_get_id E (b_proof b)) (filter (\<lambda>b. p_timeslot (b_proof b) = t) bs)"

lemma sort_sort_append: "sort (sort xs @ ys) = sort (xs @ ys)"
  by (rule properties_for_sort) simp_all

lemma order_blocks_lookup:
  "map_of (order_blocks E bs) t = (if ids_at E t bs = [] then None else Some (sort (ids_at E t bs)))"
proof (induction bs rule: rev_induct)
  case Nil
  then show ?case by (simp add: order_blocks_def)
next
  case (snoc b bs)
  then show ?case
    using btree_entry_lookup [OF order_blocks_sorted [of E bs], of "p_timeslot (b_proof b)"]
    by (auto simp: order_blocks_snoc insert_tx_block_def Let_def sort_sort_append split: if_splits)
qed

lemma order_blocks_perm:
  assumes "mset bs = mset bs'"
  shows "order_blocks E bs = order_blocks E bs'"
proof (rule btree_ext [OF order_blocks_sorted order_blocks_sorted], rule ext)
  fix t
  have m: "mset (ids_at E t bs) = mset (ids_at E t bs')" using assms by (simp add: mset_filter)
  then have "sort (ids_at E t bs) = sort (ids_at E t bs')" by (intro properties_for_sort) simp_all
  moreover have "ids_at E t bs = [] \<longleftrightarrow> ids_at E t bs' = []" using m by (metis mset_zero_iff)
  ultimately show "map_of (order_blocks E bs) t = map_of (order_blocks E bs') t"
    by (simp only: order_blocks_lookup)
qed

lemma btree_entry_mset:
  assumes "\<And>xs. mset (f xs) = add_mset p (mset xs)"
  shows "mset (concat (map snd (btree_entry k f [p] m))) = add_mset p (mset (concat (map snd m)))"
  using assms by (induction k f "[p]" m rule: btree_entry.induct) auto

lemma order_blocks_mset:
  "mset (concat (map snd (order_blocks E bs))) = mset (map (\<lambda>b. Proof_get_id E (b_proof b)) bs)"
  by (induction bs rule: rev_induct)
    (simp add: order_blocks_def, simp add: order_blocks_snoc insert_tx_block_def Let_def btree_entry_mset)

section \<open>Confirmation as a whole\<close>

lemma update_solution_range_frame [simp]:
  "balances (update_solution_range L h) = balances L" "state (update_solution_range L h) = state L"
  "metablocks (update_solution_range L h) = metablocks L" "txs (update_solution_range L h) = txs L"
  "applied_tx_ids (update_solution_range L h) = applied_tx_ids L" "heads (update_solution_range L h) = heads L"
  "applied_tx_block_ids (update_solution_range L h) = applied_tx_block_ids L"
  "confirmed_blocks (update_solution_range L h) = confirmed_blocks L"
  "proof_ids_by_timeslot (update_solution_range L h) = proof_ids_by_timeslot L"
  "current_solution_range (update_solution_range L h) = current_solution_range L"
  by (simp_all add: update_solution_range_def close_eon_def Let_def)

lemma update_solution_range_refs [simp]:
  "refs_available (update_solution_range L h) refs = refs_available L refs"
  by (simp only: refs_available_def tx_refs_known_def update_solution_range_frame)

text \<open>The transaction blocks that a confirmation still has to apply, and the rewards it pays: one
  for the proposer and one for every such block that has a coinbase transaction.\<close>

definition pending_refs :: "Ledger \<Rightarrow> MetaBlock \<Rightarrow> ContentId list" where
  "pending_refs L m = filter (\<lambda>c. c \<notin> applied_tx_block_ids L) (drop 1 (c_refs (b_content (mb_block m))))"

definition tx_refs_at :: "Ledger \<Rightarrow> ContentId \<Rightarrow> TxId list" where
  "tx_refs_at L c = (case get_metablock_from_content_id_as_option (metablocks L) c of
     Some tx_block \<Rightarrow> c_refs (b_content (mb_block tx_block)) | None \<Rightarrow> [])"

definition rewards_due :: "Ledger \<Rightarrow> MetaBlock \<Rightarrow> nat" where
  "rewards_due L m = 1 + length (filter (\<lambda>c. tx_refs_at L c \<noteq> []) (pending_refs L m))"

lemma refs_available_tail:
  assumes "refs_available L refs" and "c \<in> set (filter (\<lambda>c. c \<notin> applied_tx_block_ids L) (drop 1 refs))"
  obtains mb where "get_metablock_from_content_id_as_option (metablocks L) c = Some mb"
    "tx_refs_known L (c_refs (b_content (mb_block mb)))"
proof -
  obtain i where i: "i < length (drop 1 refs)" "c = drop 1 refs ! i" "c \<notin> applied_tx_block_ids L"
    using assms(2) by (auto simp: in_set_conv_nth)
  then have "(Suc i, c) \<in> set (enumerate 0 refs)" by (auto simp: in_set_enumerate_eq)
  then show thesis using assms(1) i(3) that unfolding refs_available_def list_all_iff
    by (fastforce split: option.splits)
qed

lemma refs_available_head:
  assumes "refs_available L (r # refs)"
  obtains tx where "txs L r = Some (Coinbase tx)"
  using assms that unfolding refs_available_def by (auto split: option.splits Transaction.Transaction.splits)

lemma tx_refs_known_rewards:
  assumes "tx_refs_known L refs"
  shows "rewards_in L refs = of_bool (refs \<noteq> [])"
proof (cases refs)
  case (Cons r rs)
  have r: "is_coinbase L r" using assms Cons
    by (auto simp: tx_refs_known_def is_coinbase_def split: option.splits Transaction.Transaction.splits)
  have "\<not> is_coinbase L x" if x: "x \<in> set rs" for x
  proof -
    obtain i where "i < length rs" "x = rs ! i" using x by (auto simp: in_set_conv_nth)
    then have "(Suc i, x) \<in> set (enumerate 0 refs)" using Cons by (auto simp: in_set_enumerate_eq)
    then show ?thesis using assms unfolding tx_refs_known_def list_all_iff is_coinbase_def
      by (fastforce split: option.splits Transaction.Transaction.splits)
  qed
  then have "filter (is_coinbase L) rs = []" by (simp add: filter_empty_conv)
  then show ?thesis using Cons r by (simp add: rewards_in_def)
qed (simp add: rewards_in_def)

lemma pending_rewards:
  assumes "metablocks_ok E (metablocks L)" and "refs_available L (c_refs (b_content (mb_block m)))"
  shows "rewards_of_blocks L (concat (map snd (order_blocks E (map (tx_block_at L) (pending_refs L m))))) + 1 = rewards_due L m"
proof -
  let ?f = "\<lambda>p. rewards_in L (block_refs (metablocks L) p)"
  have one: "?f (Proof_get_id E (b_proof (tx_block_at L c))) = of_bool (tx_refs_at L c \<noteq> [])"
    if c: "c \<in> set (pending_refs L m)" for c
  proof -
    obtain mb where mb: "get_metablock_from_content_id_as_option (metablocks L) c = Some mb"
        "tx_refs_known L (c_refs (b_content (mb_block mb)))"
      using refs_available_tail [OF assms(2) c [unfolded pending_refs_def]] by blast
    have "fmlookup (blocks (metablocks L)) (mb_proof_id mb) = Some mb"
      using content_lookup(3) [OF assms(1) mb(1)] by simp
    moreover have "mb_proof_id mb = Proof_get_id E (b_proof (mb_block mb))"
      using metablocks_okD(1) [OF assms(1) calculation] by (simp add: metablock_ok_def)
    ultimately show ?thesis using mb tx_refs_known_rewards [OF mb(2)]
      by (simp add: tx_block_at_def tx_refs_at_def block_refs_def)
  qed
  have "rewards_of_blocks L (concat (map snd (order_blocks E (map (tx_block_at L) (pending_refs L m))))) =
      sum_mset (image_mset ?f (mset (concat (map snd (order_blocks E (map (tx_block_at L) (pending_refs L m)))))))"
    unfolding rewards_of_blocks_def by (simp add: sum_mset_sum_list flip: mset_map)
  also have "\<dots> = sum_list (map (\<lambda>c. ?f (Proof_get_id E (b_proof (tx_block_at L c)))) (pending_refs L m))"
    unfolding order_blocks_mset by (simp add: sum_mset_sum_list comp_def flip: mset_map)
  also have "\<dots> = sum_list (map (\<lambda>c. of_bool (tx_refs_at L c \<noteq> [])) (pending_refs L m))"
    using one by (intro arg_cong [where f = sum_list] map_cong) simp_all
  also have "\<dots> = length (filter (\<lambda>c. tx_refs_at L c \<noteq> []) xs)" if "xs = pending_refs L m" for xs
    unfolding that [symmetric] by (induction xs) simp_all
  finally show ?thesis by (simp add: rewards_due_def)
qed

lemma apply_block_Ok:
  assumes "apply_block E L m = Ok L'"
  obtains L1 L2 L3 L4 where
    "order_tx_blocks E L (pending_refs L m) = Ok (order_blocks E (map (tx_block_at L) (pending_refs L m)))"
    "foldR (apply_tx_block E) L (concat (map snd (order_blocks E (map (tx_block_at L) (pending_refs L m))))) = Ok L1"
    "apply_proposer_coinbase E L1 (c_refs (b_content (mb_block m))) = Ok L2"
    "add_to_state E L2 (ser_proof E (b_proof (mb_block m))) = Ok L3"
    "add_to_state E L3 (ser_content E (b_content (mb_block m))) = Ok L4"
    "same_but_pruned (L4\<lparr>confirmed_blocks := insert (mb_proof_id m) (confirmed_blocks L4)\<rparr>) L'"
proof -
  obtain tb L1 L2 L3 L4 where o: "order_tx_blocks E L (pending_refs L m) = Ok tb"
    and L1: "foldR (apply_tx_block E) L (concat (map snd tb)) = Ok L1"
    and L2: "apply_proposer_coinbase E L1 (c_refs (b_content (mb_block m))) = Ok L2"
    and L3: "add_to_state E L2 (ser_proof E (b_proof (mb_block m))) = Ok L3"
    and L4: "add_to_state E L3 (ser_content E (b_content (mb_block m))) = Ok L4"
    and p: "prune_siblings (L4\<lparr>confirmed_blocks := insert (mb_proof_id m) (confirmed_blocks L4)\<rparr>) m = Ok L'"
    using assms unfolding apply_block_def Let_def pending_refs_def by (auto simp: bindR_Ok_iff)
  have tb: "tb = order_blocks E (map (tx_block_at L) (pending_refs L m))" using o by (simp add: order_tx_blocks_Ok_iff)
  have "same_but_pruned (L4\<lparr>confirmed_blocks := insert (mb_proof_id m) (confirmed_blocks L4)\<rparr>) L'"
    using p prune_same by (auto simp: prune_siblings_def bindR_Ok_iff split: if_splits)
  then show thesis using that [of L1 L2 L3 L4] o L1 L2 L3 L4 unfolding tb by blast
qed

lemma apply_block_intro:
  assumes "order_tx_blocks E L (pending_refs L m) = Ok tb" and "foldR (apply_tx_block E) L (concat (map snd tb)) = Ok L1"
    and "apply_proposer_coinbase E L1 (c_refs (b_content (mb_block m))) = Ok L2"
    and "add_to_state E L2 (ser_proof E (b_proof (mb_block m))) = Ok L3"
    and "add_to_state E L3 (ser_content E (b_content (mb_block m))) = Ok L4"
    and "prune_siblings (L4\<lparr>confirmed_blocks := insert (mb_proof_id m) (confirmed_blocks L4)\<rparr>) m = Ok L'"
  shows "apply_block E L m = Ok L'"
  unfolding apply_block_def Let_def pending_refs_def [symmetric] by (simp only: assms bindR_simps)

lemma apply_proposer_coinbase_Ok:
  assumes "apply_proposer_coinbase E L (r # refs) = Ok L'" and "txs L r = Some (Coinbase tx)"
  shows "same_but_applied L L'" "balances L' = credit (balances L) (cb_to_address tx) BLOCK_REWARD"
    "applied_tx_ids L' = insert (CoinbaseTx_get_id E tx) (applied_tx_ids L)"
proof -
  let ?L = "mark_applied (CoinbaseTx_get_id E tx) (L\<lparr>balances := credit (balances L) (cb_to_address tx) BLOCK_REWARD\<rparr>)"
  have "add_to_state E ?L (ser_coinbase E tx) = Ok L'" using assms by (simp add: apply_proposer_coinbase_def)
  note f = add_to_state_frame [OF this]
  have "?L = with_applied L (credit (balances L) (cb_to_address tx) BLOCK_REWARD) (state L)
      (insert (CoinbaseTx_get_id E tx) (applied_tx_ids L)) (applied_tx_block_ids L)"
    by (simp add: mark_applied_def with_applied_def)
  then show "same_but_applied L L'" "balances L' = credit (balances L) (cb_to_address tx) BLOCK_REWARD"
    "applied_tx_ids L' = insert (CoinbaseTx_get_id E tx) (applied_tx_ids L)"
    using f same_trans [of L ?L L'] by simp_all
qed

lemma confirm_True:
  assumes "confirm_block E L m = Ok (L', True)"
  obtains r refs tx where "c_refs (b_content (mb_block m)) = r # refs" "txs L r = Some (Coinbase tx)"
    "refs_available L (c_refs (b_content (mb_block m)))" "mb_proof_id m \<notin> confirmed_blocks L"
    "apply_block E (update_solution_range L (mb_height m)) m = Ok L'"
proof -
  have a: "apply_block E (update_solution_range L (mb_height m)) m = Ok L'"
    and n: "mb_proof_id m \<notin> confirmed_blocks L"
    and r: "refs_available (update_solution_range L (mb_height m)) (c_refs (b_content (mb_block m)))"
    using assms by (auto simp: confirm_block_def Let_def bindR_Ok_iff split: if_splits)
  have r': "refs_available L (c_refs (b_content (mb_block m)))"
    using r by simp
  obtain x refs where x: "c_refs (b_content (mb_block m)) = x # refs"
    using a by (cases "c_refs (b_content (mb_block m))")
      (auto simp: apply_block_def Let_def bindR_Ok_iff apply_proposer_coinbase_def index_def)
  obtain tx where "txs L x = Some (Coinbase tx)" using refs_available_head r' unfolding x by blast
  then show thesis using that x r' n a by blast
qed

lemma paid_coinbase:
  assumes "apply_proposer_coinbase E L (r # refs) = Ok L'" and "txs L r = Some (Coinbase tx)" and "supply_ok L 1"
  shows "paid L L' 1"
  using apply_proposer_coinbase_Ok [OF assms(1,2)] assms(3) supply_credit [of "balances L" BLOCK_REWARD]
  by (simp add: paid_def supply_ok_def)

lemma apply_block_paid:
  assumes "metablocks_ok E (metablocks L)" and "refs_available L (r # refs)" and "txs L r = Some (Coinbase tx)"
    and "c_refs (b_content (mb_block m)) = r # refs" and "supply_ok L (rewards_due L m)" and "apply_block E L m = Ok L'"
  obtains L1 where "paid L L1 (rewards_due L m)" "balances L' = balances L1" "applied_tx_ids L' = applied_tx_ids L1"
    "confirmed_blocks L' = insert (mb_proof_id m) (confirmed_blocks L)"
proof -
  let ?ps = "concat (map snd (order_blocks E (map (tx_block_at L) (pending_refs L m))))"
  obtain L1 L2 L3 L4 where L1: "foldR (apply_tx_block E) L ?ps = Ok L1"
    and L2: "apply_proposer_coinbase E L1 (r # refs) = Ok L2"
    and L3: "add_to_state E L2 (ser_proof E (b_proof (mb_block m))) = Ok L3"
    and L4: "add_to_state E L3 (ser_content E (b_content (mb_block m))) = Ok L4"
    and p: "same_but_pruned (L4\<lparr>confirmed_blocks := insert (mb_proof_id m) (confirmed_blocks L4)\<rparr>) L'"
    using assms(6) by (rule apply_block_Ok) (use assms(4) that in auto)
  have n: "rewards_of_blocks L ?ps + 1 = rewards_due L m" using pending_rewards [OF assms(1)] assms(2,4) by simp
  have s: "supply_ok L (rewards_of_blocks L ?ps + 1)" using assms(5) by (simp only: n)
  then have p1: "paid L L1 (rewards_of_blocks L ?ps)" using apply_tx_blocks_paid [OF L1] by (simp add: supply_ok_def)
  have t: "txs L1 r = Some (Coinbase tx)" using p1 same_fields(1) [of L L1] assms(3) by (simp add: paid_def)
  have p2: "paid L1 L2 1" using paid_coinbase [OF L2 t paid_supply_ok [OF p1 s]] .
  have p3: "paid L2 L3 0" using add_to_state_paid [OF L3] p2 by (simp add: paid_def)
  have p4: "paid L3 L4 0" using add_to_state_paid [OF L4] p3 by (simp add: paid_def)
  have pd: "paid L L4 (rewards_due L m)"
    using paid_trans [OF paid_trans [OF paid_trans [OF p1 p2] p3] p4] n by simp
  have "confirmed_blocks L4 = confirmed_blocks L" using pd same_fields(3) [of L L4] by (simp add: paid_def)
  then show thesis using that [OF pd] same_but_pruned_fields [OF p] by simp
qed

section \<open>The abstract ledger\<close>

text \<open>
  What confirming a sequence of transactions promises: natural-number balances, a reward of one
  credit, and transfers that take effect only when they were not applied before, are covered, and
  carry a nonce above the account's.
\<close>

fun spec_tx :: "'z txlib_scheme \<Rightarrow> (AccountAddress \<Rightarrow> u16) \<Rightarrow> (AccountAddress \<Rightarrow> nat) \<times> TxId set \<Rightarrow>
    TxId \<times> Transaction \<Rightarrow> (AccountAddress \<Rightarrow> nat) \<times> TxId set" where
  "spec_tx E nonces (bal, applied) (i, Coinbase tx) =
     (bal(cb_to_address tx := bal (cb_to_address tx) + 1), insert i applied)"
| "spec_tx E nonces (bal, applied) (i, Credit tx) =
     (if SimpleCreditTx_get_id E tx \<in> applied \<or> bal (tx_from_address tx) < unat (tx_amount tx) \<or>
         tx_nonce tx \<le> nonces (tx_from_address tx)
      then (bal, applied)
      else
        (let bal = bal(tx_from_address tx := bal (tx_from_address tx) - unat (tx_amount tx))
         in (bal(tx_to_address tx := bal (tx_to_address tx) + unat (tx_amount tx)), insert i applied)))"

definition spec_txs :: "'z txlib_scheme \<Rightarrow> (AccountAddress \<Rightarrow> u16) \<Rightarrow> (AccountAddress \<Rightarrow> nat) \<times> TxId set \<Rightarrow>
    (TxId \<times> Transaction) list \<Rightarrow> (AccountAddress \<Rightarrow> nat) \<times> TxId set" where
  "spec_txs E nonces s ts = foldl (spec_tx E nonces) s ts"

text \<open>The view of a ledger as a state of the abstract one.\<close>

definition abs_ledger :: "Ledger \<Rightarrow> (AccountAddress \<Rightarrow> nat) \<times> TxId set" where
  "abs_ledger L = (abs_balance (balances L), applied_tx_ids L)"

definition tx_log :: "Ledger \<Rightarrow> TxId list \<Rightarrow> (TxId \<times> Transaction) list" where
  "tx_log L ids = map (\<lambda>i. (i, the (txs L i))) ids"

lemma tx_log_same: "same_but_applied L L' \<Longrightarrow> tx_log L' ids = tx_log L ids"
  using same_fields(1) [of L L'] by (simp add: tx_log_def)

lemma abs_transfer:
  assumes "finite (dom bal)" and "total_supply bal < 2 ^ 64" and "bal a = Some acc" and "x \<le> a_balance acc"
  shows "abs_balance (credit (debit bal a x) b x) =
    (let bl = (abs_balance bal)(a := abs_balance bal a - unat x) in bl(b := bl b + unat x))"
proof -
  have "total_supply (debit bal a x) + unat x = total_supply bal" by (rule supply_debit [of bal a acc x, OF assms(1,3,4)])
  then have "abs_balance (debit bal a x) b + unat x < 2 ^ 64"
    using abs_balance_le_supply [of "debit bal a x" b] assms(1,2) by simp
  then show ?thesis using abs_credit [of "debit bal a x" b x] abs_debit [of bal a acc x, OF assms(3,4)] by (simp add: Let_def)
qed

lemma apply_tx_refines:
  assumes "apply_tx E L i = Ok L'" and "supply_ok L (of_bool (is_coinbase L i))"
  shows "abs_ledger L' = spec_tx E (nonce_of (balances L)) (abs_ledger L) (i, the (txs L i))"
proof -
  obtain tx where tx: "txs L i = Some tx" "same_but_applied L L'"
      "balances L' = outcome_balances (outcome_of E L tx) tx (balances L)"
      "applied_tx_ids L' = (if outcome_of E L tx = Skipped then applied_tx_ids L else insert i (applied_tx_ids L))"
    using assms(1) by (rule apply_tx_Ok)
  have fin: "finite (dom (balances L))" "total_supply (balances L) < 2 ^ 64" using assms(2) by (auto simp: supply_ok_def)
  show ?thesis
  proof (cases tx)
    case (Coinbase c)
    then have "abs_balance (balances L) (cb_to_address c) + unat BLOCK_REWARD < 2 ^ 64"
      using assms(2) tx(1) abs_balance_le_supply [OF fin(1), of "cb_to_address c"] by (simp add: supply_ok_def is_coinbase_def)
    then show ?thesis using tx Coinbase abs_credit [of "balances L" "cb_to_address c" BLOCK_REWARD]
      by (simp add: abs_ledger_def)
  next
    case (Credit c)
    have none: "balances L (tx_from_address c) \<noteq> None \<or> SimpleCreditTx_get_id E c \<in> applied_tx_ids L"
      using assms(1) tx(1) Credit by (auto simp: apply_tx_def apply_credit_def bindR_Ok_iff split: if_splits)
    show ?thesis
    proof (cases "SimpleCreditTx_get_id E c \<in> applied_tx_ids L")
      case True
      then show ?thesis using tx Credit by (simp add: abs_ledger_def)
    next
      case False
      then obtain acc where acc: "balances L (tx_from_address c) = Some acc" using none by auto
      have b: "abs_balance (balances L) (tx_from_address c) = unat (a_balance acc)"
        "nonce_of (balances L) (tx_from_address c) = a_nonce acc" using acc by (simp_all add: abs_balance_def nonce_of_def)
      show ?thesis
      proof (cases "a_balance acc < tx_amount c \<or> tx_nonce c \<le> a_nonce acc")
        case True
        then show ?thesis using tx Credit acc b False by (simp add: abs_ledger_def word_less_nat_alt)
      next
        case le: False
        then have "balances L' = credit (debit (balances L) (tx_from_address c) (tx_amount c)) (tx_to_address c) (tx_amount c)"
          using tx(3) Credit False acc by simp
        moreover have "tx_amount c \<le> a_balance acc" using le by (simp add: not_less)
        ultimately have "abs_balance (balances L') = (let bl = (abs_balance (balances L))
            (tx_from_address c := abs_balance (balances L) (tx_from_address c) - unat (tx_amount c))
            in bl(tx_to_address c := bl (tx_to_address c) + unat (tx_amount c)))"
          using abs_transfer [OF fin acc, of "tx_amount c" "tx_to_address c"] by (simp only:)
        moreover have "applied_tx_ids L' = insert i (applied_tx_ids L)" using tx(4) Credit False acc le by simp
        ultimately show ?thesis using tx(1) Credit False b le by (simp add: abs_ledger_def word_less_nat_alt Let_def)
      qed
    qed
  qed
qed

lemma apply_txs_refines:
  assumes "foldR (apply_tx E) L ids = Ok L'" and "supply_ok L (rewards_in L ids)"
  shows "abs_ledger L' = spec_txs E (nonce_of (balances L)) (abs_ledger L) (tx_log L ids)"
  using assms
proof (induction ids arbitrary: L)
  case Nil
  then show ?case by (simp add: spec_txs_def tx_log_def)
next
  case (Cons i ids)
  obtain L1 where L1: "apply_tx E L i = Ok L1" "foldR (apply_tx E) L1 ids = Ok L'"
    using Cons.prems(1) by auto
  have s: "supply_ok L (of_bool (is_coinbase L i) + rewards_in L ids)" using Cons.prems(2) by simp
  then have s1: "supply_ok L (of_bool (is_coinbase L i))" by (simp add: supply_ok_def)
  have p: "paid L L1 (of_bool (is_coinbase L i))" by (rule apply_tx_paid [OF L1(1) s1])
  then have e: "nonce_of (balances L1) = nonce_of (balances L)" "tx_log L1 ids = tx_log L ids"
      "rewards_in L1 ids = rewards_in L ids"
    by (simp_all add: paid_def tx_log_same rewards_in_same)
  have "abs_ledger L' = spec_txs E (nonce_of (balances L)) (abs_ledger L1) (tx_log L ids)"
    using Cons.IH [OF L1(2)] paid_supply_ok [OF p s] by (simp only: e)
  then show ?case using apply_tx_refines [OF L1(1) s1] by (simp add: spec_txs_def tx_log_def)
qed

lemma spec_txs_append: "spec_txs E n s (xs @ ys) = spec_txs E n (spec_txs E n s xs) ys"
  by (simp add: spec_txs_def)

lemma apply_tx_block_refines:
  assumes "apply_tx_block E L p = Ok L'" and "supply_ok L (rewards_in L (block_refs (metablocks L) p))"
  shows "abs_ledger L' = spec_txs E (nonce_of (balances L)) (abs_ledger L) (tx_log L (block_refs (metablocks L) p))"
proof -
  obtain m L1 L2 L3 where m: "fmlookup (blocks (metablocks L)) p = Some m"
    and L1: "foldR (apply_tx E) L (c_refs (b_content (mb_block m))) = Ok L1"
    and L2: "add_to_state E L1 (ser_proof E (b_proof (mb_block m))) = Ok L2"
    and L3: "add_to_state E L2 (ser_content E (b_content (mb_block m))) = Ok L3"
    and L': "L' = L3\<lparr>applied_tx_block_ids := insert (Content_get_id E (b_content (mb_block m))) (applied_tx_block_ids L3)\<rparr>"
    using assms(1) by (rule apply_tx_block_Ok)
  have r: "block_refs (metablocks L) p = c_refs (b_content (mb_block m))" using m by (simp add: block_refs_def)
  have "abs_ledger L' = abs_ledger L1"
    using add_to_state_frame [OF L2] add_to_state_frame [OF L3] by (simp add: abs_ledger_def L')
  then show ?thesis using apply_txs_refines [OF L1] assms(2) by (simp only: r)
qed

lemma apply_tx_blocks_refines:
  assumes "foldR (apply_tx_block E) L ps = Ok L'" and "supply_ok L (rewards_of_blocks L ps)"
  shows "abs_ledger L' = spec_txs E (nonce_of (balances L)) (abs_ledger L)
    (tx_log L (concat (map (block_refs (metablocks L)) ps)))"
  using assms
proof (induction ps arbitrary: L)
  case Nil
  then show ?case by (simp add: spec_txs_def tx_log_def)
next
  case (Cons p ps)
  obtain L1 where L1: "apply_tx_block E L p = Ok L1" "foldR (apply_tx_block E) L1 ps = Ok L'"
    using Cons.prems(1) by auto
  let ?n = "rewards_in L (block_refs (metablocks L) p)"
  have s: "supply_ok L (?n + rewards_of_blocks L ps)" using Cons.prems(2) by (simp add: rewards_of_blocks_def)
  then have s1: "supply_ok L ?n" by (simp add: supply_ok_def)
  have p: "paid L L1 ?n" by (rule apply_tx_block_paid [OF L1(1) s1])
  then have e: "nonce_of (balances L1) = nonce_of (balances L)" "tx_log L1 ids = tx_log L ids"
      "rewards_of_blocks L1 ps = rewards_of_blocks L ps" "metablocks L1 = metablocks L" for ids
    using same_fields(2) [of L L1] by (simp_all add: paid_def tx_log_same rewards_of_blocks_same)
  have "abs_ledger L' = spec_txs E (nonce_of (balances L)) (abs_ledger L1)
      (tx_log L (concat (map (block_refs (metablocks L)) ps)))"
    using Cons.IH [OF L1(2)] paid_supply_ok [OF p s] by (simp only: e)
  then show ?case using apply_tx_block_refines [OF L1(1) s1] by (simp add: spec_txs_append tx_log_def)
qed

text \<open>The log of a confirmation: the transactions of the pending blocks, by timeslot and proof id,
  then the proposer's coinbase transaction.\<close>

definition confirm_log :: "'z blocklib_scheme \<Rightarrow> Ledger \<Rightarrow> MetaBlock \<Rightarrow> CoinbaseTx \<Rightarrow> (TxId \<times> Transaction) list" where
  "confirm_log E L m tx =
     tx_log L (concat (map (block_refs (metablocks L))
       (concat (map snd (order_blocks E (map (tx_block_at L) (pending_refs L m))))))) @
     [(CoinbaseTx_get_id E tx, Coinbase tx)]"

lemma apply_block_refines:
  assumes "metablocks_ok E (metablocks L)" and "refs_available L (r # refs)" and "txs L r = Some (Coinbase tx)"
    and "c_refs (b_content (mb_block m)) = r # refs" and "supply_ok L (rewards_due L m)" and "apply_block E L m = Ok L'"
  shows "abs_ledger L' = spec_txs E (nonce_of (balances L)) (abs_ledger L) (confirm_log E L m tx)"
proof -
  let ?ps = "concat (map snd (order_blocks E (map (tx_block_at L) (pending_refs L m))))"
  obtain L1 L2 L3 L4 where L1: "foldR (apply_tx_block E) L ?ps = Ok L1"
    and L2: "apply_proposer_coinbase E L1 (r # refs) = Ok L2"
    and L3: "add_to_state E L2 (ser_proof E (b_proof (mb_block m))) = Ok L3"
    and L4: "add_to_state E L3 (ser_content E (b_content (mb_block m))) = Ok L4"
    and p: "same_but_pruned (L4\<lparr>confirmed_blocks := insert (mb_proof_id m) (confirmed_blocks L4)\<rparr>) L'"
    using assms(6) by (rule apply_block_Ok) (use assms(4) that in auto)
  have s: "supply_ok L (rewards_of_blocks L ?ps + 1)"
    using assms(5) pending_rewards [OF assms(1), of m] assms(2,4) by simp
  then have s1: "supply_ok L (rewards_of_blocks L ?ps)" by (simp add: supply_ok_def)
  have p1: "paid L L1 (rewards_of_blocks L ?ps)" by (rule apply_tx_blocks_paid [OF L1 s1])
  have t: "txs L1 r = Some (Coinbase tx)" using p1 same_fields(1) [of L L1] assms(3) by (simp add: paid_def)
  have "abs_balance (balances L1) (cb_to_address tx) + unat BLOCK_REWARD < 2 ^ 64"
    using paid_supply_ok [OF p1 s] abs_balance_le_supply [of "balances L1" "cb_to_address tx"] by (simp add: supply_ok_def)
  then have "abs_ledger L2 = spec_tx E (nonce_of (balances L)) (abs_ledger L1) (CoinbaseTx_get_id E tx, Coinbase tx)"
    using apply_proposer_coinbase_Ok [OF L2 t] abs_credit [of "balances L1" "cb_to_address tx" BLOCK_REWARD]
    by (simp add: abs_ledger_def)
  moreover have "abs_ledger L' = abs_ledger L2"
    using add_to_state_frame [OF L3] add_to_state_frame [OF L4] same_but_pruned_fields [OF p] by (simp add: abs_ledger_def)
  ultimately show ?thesis using apply_tx_blocks_refines [OF L1 s1]
    by (simp only: confirm_log_def spec_txs_append) (simp add: spec_txs_def)
qed

section \<open>Panics\<close>

definition senders_ok :: "Ledger \<Rightarrow> bool" where
  "senders_ok L \<longleftrightarrow> (\<forall>i tx. txs L i = Some (Credit tx) \<longrightarrow> balances L (tx_from_address tx) \<noteq> None)"

lemma add_to_state_total:
  assumes "sha256_ok E" and "merkle_ok E"
  shows "\<exists>L'. add_to_state E L d = Ok L'"
proof -
  obtain st b where "add_data E (state L) d = Ok (st, b)" using add_data_total [OF assms] by blast
  then show ?thesis by (simp add: add_to_state_def)
qed

lemma apply_tx_Panic_iff:
  assumes "sha256_ok E" and "merkle_ok E"
  shows "(\<exists>e. apply_tx E L i = Panic e) \<longleftrightarrow>
    (case txs L i of None \<Rightarrow> True | Some (Coinbase _) \<Rightarrow> False
     | Some (Credit tx) \<Rightarrow> SimpleCreditTx_get_id E tx \<notin> applied_tx_ids L \<and> balances L (tx_from_address tx) = None)"
proof -
  have tot: "\<exists>L2. add_to_state E L1 d = Ok L2" for L1 d by (rule add_to_state_total [OF assms])
  show ?thesis
  proof (cases "txs L i")
    case (Some tx)
    show ?thesis
    proof (cases tx)
      case (Coinbase c)
      obtain L2 where "add_to_state E (L\<lparr>balances := credit (balances L) (cb_to_address c) BLOCK_REWARD\<rparr>) (ser_coinbase E c) = Ok L2"
        using tot by blast
      then show ?thesis using Some Coinbase by (simp add: apply_tx_def apply_coinbase_def)
    next
      case (Credit c)
      obtain L2 where "add_to_state E (L\<lparr>balances := credit (debit (balances L) (tx_from_address c) (tx_amount c))
          (tx_to_address c) (tx_amount c)\<rparr>) (ser_credit E c) = Ok L2" using tot by blast
      then show ?thesis using Some Credit
        by (cases "balances L (tx_from_address c)") (simp_all add: apply_tx_def apply_credit_def Let_def)
    qed
  qed (simp add: apply_tx_def)
qed

text \<open>Accounts are never removed, so the senders stay known.\<close>

lemma dom_credit: "dom (credit bal a x) = insert a (dom bal)" and dom_debit: "dom (debit bal a x) = dom bal"
  by (auto simp: credit_def debit_def split: option.splits)

lemma dom_outcome: "dom bal \<subseteq> dom (outcome_balances r tx bal)"
  by (cases "(r, tx, bal)" rule: outcome_balances.cases) (auto simp: dom_credit dom_debit)

lemma senders_ok_mono:
  assumes "senders_ok L" and "txs L' = txs L" and "dom (balances L) \<subseteq> dom (balances L')"
  shows "senders_ok L'"
  using assms unfolding senders_ok_def by (metis domIff subsetD)

definition run_inv :: "(TxId \<rightharpoonup> Transaction) \<Rightarrow> MetaBlocks \<Rightarrow> Ledger \<Rightarrow> bool" where
  "run_inv T M L \<longleftrightarrow> txs L = T \<and> metablocks L = M \<and> senders_ok L"

lemma add_to_state_run_inv: "add_to_state E L d = Ok L' \<Longrightarrow> run_inv T M L \<Longrightarrow> run_inv T M L'"
  using add_to_state_frame [of E L d L'] same_fields [of L L'] senders_ok_mono [of L L'] by (simp add: run_inv_def)

interpretation tx_run: total_operation "apply_tx E" "run_inv T M" "\<lambda>i. T i \<noteq> None \<and> sha256_ok E \<and> merkle_ok E"
proof
  fix L i L' assume "run_inv T M L" "T i \<noteq> None \<and> sha256_ok E \<and> merkle_ok E" and a: "apply_tx E L i = Ok L'"
  moreover obtain tx where "same_but_applied L L'" "balances L' = outcome_balances (outcome_of E L tx) tx (balances L)"
    using a by (rule apply_tx_Ok)
  ultimately show "run_inv T M L'"
    using same_fields [of L L'] senders_ok_mono [of L L'] dom_outcome by (simp add: run_inv_def)
next
  fix L i assume L: "run_inv T M L" and i: "T i \<noteq> None \<and> sha256_ok E \<and> merkle_ok E"
  then have "\<not> (\<exists>e. apply_tx E L i = Panic e)"
    using apply_tx_Panic_iff [of E L i] by (auto simp: run_inv_def senders_ok_def split: option.splits Transaction.Transaction.splits)
  then show "\<exists>L'. apply_tx E L i = Ok L'" by (cases "apply_tx E L i") auto
qed

definition tx_block_ready :: "(TxId \<rightharpoonup> Transaction) \<Rightarrow> MetaBlocks \<Rightarrow> ProofId \<Rightarrow> bool" where
  "tx_block_ready T M p \<longleftrightarrow>
     (\<exists>m. fmlookup (blocks M) p = Some m \<and> (\<forall>i \<in> set (c_refs (b_content (mb_block m))). T i \<noteq> None))"

lemma apply_tx_block_run:
  assumes "run_inv T M L" and "tx_block_ready T M p" and laws: "sha256_ok E" "merkle_ok E"
  obtains L' where "apply_tx_block E L p = Ok L'" "run_inv T M L'"
proof -
  obtain m where m: "fmlookup (blocks M) p = Some m" "\<forall>i \<in> set (c_refs (b_content (mb_block m))). T i \<noteq> None"
    using assms(2) by (auto simp: tx_block_ready_def)
  have m': "fmlookup (blocks (metablocks L)) p = Some m" using assms(1) m(1) by (simp add: run_inv_def)
  have "\<forall>i \<in> set (c_refs (b_content (mb_block m))). T i \<noteq> None \<and> sha256_ok E \<and> merkle_ok E" using m(2) laws by simp
  then obtain L1 where L1: "foldR (apply_tx E) L (c_refs (b_content (mb_block m))) = Ok L1" "run_inv T M L1"
    using tx_run.run_total [OF assms(1), of _ E] by blast
  obtain L2 where L2: "add_to_state E L1 (ser_proof E (b_proof (mb_block m))) = Ok L2"
    using add_to_state_total [OF laws] by blast
  obtain L3 where L3: "add_to_state E L2 (ser_content E (b_content (mb_block m))) = Ok L3"
    using add_to_state_total [OF laws] by blast
  have "run_inv T M L3" by (rule add_to_state_run_inv [OF L3 add_to_state_run_inv [OF L2 L1(2)]])
  then have "run_inv T M (L3\<lparr>applied_tx_block_ids := x\<rparr>)" for x by (simp add: run_inv_def senders_ok_def)
  then show thesis using m' L1(1) L2 L3 that
    by (simp add: apply_tx_block_def get_metablock_from_proof_id_def Let_def)
qed

interpretation block_run: total_operation "apply_tx_block E" "run_inv T M"
  "\<lambda>p. tx_block_ready T M p \<and> sha256_ok E \<and> merkle_ok E"
proof
  fix L p L' assume "run_inv T M L" "tx_block_ready T M p \<and> sha256_ok E \<and> merkle_ok E" "apply_tx_block E L p = Ok L'"
  then show "run_inv T M L'" using apply_tx_block_run [of T M L p E] by (metis sum.inject(2))
next
  fix L p assume "run_inv T M L" "tx_block_ready T M p \<and> sha256_ok E \<and> merkle_ok E"
  then show "\<exists>L'. apply_tx_block E L p = Ok L'" using apply_tx_block_run [of T M L p E] by metis
qed

lemma pending_ready:
  assumes "metablocks_ok E (metablocks L)" and "refs_available L (c_refs (b_content (mb_block m)))"
    and "p \<in> set (concat (map snd (order_blocks E (map (tx_block_at L) (pending_refs L m)))))"
  shows "tx_block_ready (txs L) (metablocks L) p"
proof -
  have "p \<in> set (map (\<lambda>b. Proof_get_id E (b_proof b)) (map (tx_block_at L) (pending_refs L m)))"
    using assms(3) by (simp only: order_blocks_mset flip: set_mset_mset)
  then obtain c where c: "c \<in> set (pending_refs L m)" "p = Proof_get_id E (b_proof (tx_block_at L c))" by auto
  obtain mb where mb: "get_metablock_from_content_id_as_option (metablocks L) c = Some mb"
      "tx_refs_known L (c_refs (b_content (mb_block mb)))"
    using refs_available_tail [OF assms(2) c(1) [unfolded pending_refs_def]] by blast
  have l: "fmlookup (blocks (metablocks L)) (mb_proof_id mb) = Some mb"
    using content_lookup(3) [OF assms(1) mb(1)] by simp
  then have "mb_proof_id mb = p" using metablocks_okD(1) [OF assms(1) l] c(2) mb(1) by (simp add: metablock_ok_def tx_block_at_def)
  moreover have "txs L i \<noteq> None" if i: "i \<in> set (c_refs (b_content (mb_block mb)))" for i
  proof -
    obtain k where "k < length (c_refs (b_content (mb_block mb)))" "i = c_refs (b_content (mb_block mb)) ! k"
      using i by (auto simp: in_set_conv_nth)
    then have "(k, i) \<in> set (enumerate 0 (c_refs (b_content (mb_block mb))))" by (simp add: in_set_enumerate_eq)
    then show ?thesis using mb(2) by (auto simp: tx_refs_known_def list_all_iff split: option.splits)
  qed
  ultimately show ?thesis using l by (auto simp: tx_block_ready_def)
qed

lemma pending_order:
  assumes "refs_available L (c_refs (b_content (mb_block m)))"
  shows "order_tx_blocks E L (pending_refs L m) = Ok (order_blocks E (map (tx_block_at L) (pending_refs L m)))"
proof -
  have "get_metablock_from_content_id_as_option (metablocks L) c \<noteq> None" if c: "c \<in> set (pending_refs L m)" for c
    using refs_available_tail [OF assms c [unfolded pending_refs_def]] by (metis option.distinct(1))
  then show ?thesis by (simp add: order_tx_blocks_Ok_iff)
qed

lemma no_siblings_prune:
  assumes "mb_height m = 0 \<or> (\<exists>c pm. c_parent_id (b_content (mb_block m)) = Some c \<and>
      get_metablock_from_content_id_as_option ms c = Some pm \<and> set (mb_children pm) \<subseteq> {mb_proof_id m})"
    and "metablocks L = ms"
  shows "prune_siblings L m = Ok L"
proof (cases "mb_height m = 0")
  case False
  then obtain c pm where c: "c_parent_id (b_content (mb_block m)) = Some c"
      "get_metablock_from_content_id (metablocks L) c = Ok pm" "set (mb_children pm) \<subseteq> {mb_proof_id m}"
    using assms lookup_option [of ms] by auto
  have "filter (\<lambda>q. q \<noteq> mb_proof_id m) (mb_children pm) = []" using c(3) by (auto simp: filter_empty_conv)
  then show ?thesis using c(1,2) by (simp add: prune_siblings_def)
qed (simp add: prune_siblings_def)

lemma confirm_total:
  assumes "sha256_ok E" and "merkle_ok E" and "metablocks_ok E (metablocks L)" and "senders_ok L"
    and "c_refs (b_content (mb_block m)) \<noteq> []"
    and "mb_height m = 0 \<or> (\<exists>c pm. c_parent_id (b_content (mb_block m)) = Some c \<and>
          get_metablock_from_content_id_as_option (metablocks L) c = Some pm \<and> set (mb_children pm) \<subseteq> {mb_proof_id m})"
  shows "\<exists>L'. confirm_block E L m =
    Ok (L', mb_proof_id m \<notin> confirmed_blocks L \<and> refs_available L (c_refs (b_content (mb_block m))))"
proof (cases "mb_proof_id m \<notin> confirmed_blocks L \<and> refs_available L (c_refs (b_content (mb_block m)))")
  case False
  then show ?thesis by (auto simp: confirm_block_def Let_def)
next
  case True
  let ?L = "update_solution_range L (mb_height m)"
  let ?ps = "concat (map snd (order_blocks E (map (tx_block_at ?L) (pending_refs ?L m))))"
  have ra: "refs_available ?L (c_refs (b_content (mb_block m)))" using True by simp
  have mo: "metablocks_ok E (metablocks ?L)" using assms(3) by simp
  have "run_inv (txs L) (metablocks L) ?L" using assms(4) by (simp add: run_inv_def senders_ok_def)
  moreover have "\<forall>p \<in> set ?ps. tx_block_ready (txs L) (metablocks L) p \<and> sha256_ok E \<and> merkle_ok E"
    using pending_ready [OF mo ra] assms(1,2) by simp
  ultimately obtain L1 where L1: "foldR (apply_tx_block E) ?L ?ps = Ok L1" "run_inv (txs L) (metablocks L) L1"
    using block_run.run_total by blast
  obtain r refs where r: "c_refs (b_content (mb_block m)) = r # refs" using assms(5) by (cases "c_refs (b_content (mb_block m))") auto
  obtain tx where tx: "txs L r = Some (Coinbase tx)" using True refs_available_head [of L r refs] unfolding r by blast
  have tx1: "txs L1 r = Some (Coinbase tx)" using tx L1(2) by (simp add: run_inv_def)
  have tot: "\<exists>L''. add_to_state E L' d = Ok L''" for L' d by (rule add_to_state_total [OF assms(1,2)])
  obtain L2 where L2: "apply_proposer_coinbase E L1 (r # refs) = Ok L2"
    using tot tx1 by (auto simp: apply_proposer_coinbase_def)
  obtain L3 where L3: "add_to_state E L2 (ser_proof E (b_proof (mb_block m))) = Ok L3" using tot by blast
  obtain L4 where L4: "add_to_state E L3 (ser_content E (b_content (mb_block m))) = Ok L4" using tot by blast
  have "metablocks L4 = metablocks L1"
    using same_fields(2) [OF apply_proposer_coinbase_Ok(1) [OF L2 tx1]]
      same_fields(2) [OF add_to_state_frame(1) [OF L3]] same_fields(2) [OF add_to_state_frame(1) [OF L4]] by simp
  then have "metablocks L4 = metablocks L" using L1(2) by (simp add: run_inv_def)
  then have p: "prune_siblings (L4\<lparr>confirmed_blocks := x\<rparr>) m = Ok (L4\<lparr>confirmed_blocks := x\<rparr>)" for x
    using no_siblings_prune [OF assms(6)] by simp
  have "apply_block E ?L m = Ok (L4\<lparr>confirmed_blocks := insert (mb_proof_id m) (confirmed_blocks L4)\<rparr>)"
    by (rule apply_block_intro [OF pending_order [OF ra] L1(1) L2 [folded r] L3 L4 p])
  then show ?thesis using True by (simp add: confirm_block_def Let_def)
qed

definition keeps_nonces :: "Ledger \<Rightarrow> Ledger \<Rightarrow> bool" where
  "keeps_nonces L L' \<longleftrightarrow> nonce_of (balances L') = nonce_of (balances L) \<and> txs L' = txs L"

lemma keeps_nonces_tx: "apply_tx E L i = Ok L' \<Longrightarrow> keeps_nonces L0 L \<Longrightarrow> keeps_nonces L0 L'"
  by (erule apply_tx_Ok) (use same_fields(1) in \<open>auto simp: keeps_nonces_def\<close>)

lemma keeps_nonces_state: "add_to_state E L d = Ok L' \<Longrightarrow> keeps_nonces L0 L \<Longrightarrow> keeps_nonces L0 L'"
  using add_to_state_frame(1,2) [of E L d L'] same_fields(1) [of L L'] by (simp add: keeps_nonces_def)

lemma keeps_nonces_block: "apply_tx_block E L p = Ok L' \<Longrightarrow> keeps_nonces L0 L \<Longrightarrow> keeps_nonces L0 L'"
proof -
  assume a: "apply_tx_block E L p = Ok L'" and k: "keeps_nonces L0 L"
  obtain m L1 L2 L3 where "fmlookup (blocks (metablocks L)) p = Some m"
    and L1: "foldR (apply_tx E) L (c_refs (b_content (mb_block m))) = Ok L1"
    and L2: "add_to_state E L1 (ser_proof E (b_proof (mb_block m))) = Ok L2"
    and L3: "add_to_state E L2 (ser_content E (b_content (mb_block m))) = Ok L3"
    and L': "L' = L3\<lparr>applied_tx_block_ids := insert (Content_get_id E (b_content (mb_block m))) (applied_tx_block_ids L3)\<rparr>"
    using a by (rule apply_tx_block_Ok)
  have "keeps_nonces L0 L1" using foldR_invariant [OF L1, of "keeps_nonces L0"] k keeps_nonces_tx by blast
  then have "keeps_nonces L0 L3" using keeps_nonces_state [OF L3 keeps_nonces_state [OF L2]] by simp
  then show ?thesis by (simp add: L' keeps_nonces_def)
qed

section \<open>Properties\<close>

text \<open>
  \<^bold>\<open>C32\<close>.  A confirmed block refines the abstract ledger: the balances, read as natural numbers, and the set
  of applied transactions are what the abstract ledger computes from the transactions of the
  pending blocks, ordered by timeslot and proof id, followed by the proposer's reward (as long
  as the credits in circulation fit 64 bits).
\<close>

theorem confirm_refines_spec:
  assumes "metablocks_ok E (metablocks L)" and "supply_ok L (rewards_due L m)"
    and "confirm_block E L m = Ok (L', True)"
  shows "\<exists>r refs tx. c_refs (b_content (mb_block m)) = r # refs \<and> txs L r = Some (Coinbase tx) \<and>
    abs_ledger L' = spec_txs E (nonce_of (balances L)) (abs_ledger L) (confirm_log E L m tx)"
proof -
  obtain r refs tx where r: "c_refs (b_content (mb_block m)) = r # refs" "txs L r = Some (Coinbase tx)"
      "refs_available L (c_refs (b_content (mb_block m)))"
      "apply_block E (update_solution_range L (mb_height m)) m = Ok L'"
    using assms(3) by (rule confirm_True)
  let ?L = "update_solution_range L (mb_height m)"
  have e: "pending_refs ?L m = pending_refs L m" "tx_block_at ?L = tx_block_at L" "tx_refs_at ?L = tx_refs_at L"
      "tx_log ?L = tx_log L" "abs_ledger ?L = abs_ledger L"
    by (simp_all add: pending_refs_def tx_block_at_def [abs_def] tx_refs_at_def [abs_def] tx_log_def [abs_def] abs_ledger_def)
  have "abs_ledger L' = spec_txs E (nonce_of (balances ?L)) (abs_ledger ?L) (confirm_log E ?L m tx)"
    by (rule apply_block_refines [OF _ _ _ r(1) _ r(4)])
      (use assms(1,2) r in \<open>simp_all add: supply_ok_def rewards_due_def e\<close>)
  then show ?thesis using r(1,2) by (simp add: confirm_log_def e)
qed


text \<open>
  \<^bold>\<open>C34\<close>.  Confirmation does not panic: when every known credit transaction has a sender with an account, the
  block has a first reference and no sibling to prune, \<^verbatim>\<open>confirm_block\<close> returns, and it returns
  \<^verbatim>\<open>true\<close> exactly when the block was not confirmed before and everything it refers to is known.
\<close>

theorem confirm_block_total:
  assumes "sha256_ok E" and "merkle_ok E" and "metablocks_ok E (metablocks L)" and "senders_ok L"
    and "c_refs (b_content (mb_block m)) \<noteq> []"
    and "mb_height m = 0 \<or> (\<exists>c pm. c_parent_id (b_content (mb_block m)) = Some c \<and>
          get_metablock_from_content_id_as_option (metablocks L) c = Some pm \<and> set (mb_children pm) \<subseteq> {mb_proof_id m})"
  shows "\<exists>L'. confirm_block E L m =
    Ok (L', mb_proof_id m \<notin> confirmed_blocks L \<and> refs_available L (c_refs (b_content (mb_block m))))"
  using assms by (rule confirm_total)

text \<open>
  A refused confirmation changes no account and no state: only the two fields of the solution
  range update can differ.
\<close>

theorem confirm_refused:
  assumes "confirm_block E L m = Ok (L', False)"
  shows "L' = L\<lparr>last_eon_close_timeslot := last_eon_close_timeslot L', solution_range_update := solution_range_update L'\<rparr>"
  using assms
  by (auto simp: confirm_block_def update_solution_range_def close_eon_def Let_def bindR_Ok_iff split: if_splits)

text \<open>
  A block is confirmed at most once: confirming it again, or any block with the same proof, is
  refused and changes nothing.
\<close>

theorem confirm_once:
  assumes "confirm_block E L m = Ok (L', True)" and "mb_proof_id m' = mb_proof_id m"
  shows "confirm_block E L' m' = Ok (L', False)"
proof -
  obtain r refs tx where "apply_block E (update_solution_range L (mb_height m)) m = Ok L'"
    using assms(1) by (rule confirm_True)
  then obtain L4 where "same_but_pruned (L4\<lparr>confirmed_blocks := insert (mb_proof_id m) (confirmed_blocks L4)\<rparr>) L'"
    by (rule apply_block_Ok)
  then have "mb_proof_id m \<in> confirmed_blocks L'" using same_but_pruned_fields(3) by fastforce
  then show ?thesis using assms(2) by (simp add: confirm_block_def)
qed

text \<open>
  The order in which the transaction blocks are applied does not depend on the order in which the
  proposer lists them.
\<close>

theorem order_canonical:
  assumes "mset ids = mset ids'" and "order_tx_blocks E L ids = Ok m"
  shows "order_tx_blocks E L ids' = Ok m"
  using assms mset_eq_setD [OF assms(1)] order_blocks_perm [of "map (tx_block_at L) ids" "map (tx_block_at L) ids'" E]
  by (simp add: order_tx_blocks_Ok_iff)

text \<open>
  A credit transaction that has been applied is ignored wherever it is referenced later, so no
  transfer is made twice.
\<close>

theorem credit_applied_once:
  assumes "txs L i = Some (Credit tx)" and "SimpleCreditTx_get_id E tx = i" and "i \<in> applied_tx_ids L"
  shows "foldR (apply_tx E) L ids = foldR (apply_tx E) L (filter (\<lambda>j. j \<noteq> i) ids)"
  using assms
proof (induction ids arbitrary: L)
  case (Cons j ids)
  show ?case
  proof (cases "j = i")
    case True
    then have "apply_tx E L j = Ok L" using Cons.prems by (simp add: apply_tx_def apply_credit_def)
    then show ?thesis using True Cons.IH [OF Cons.prems] by simp
  next
    case False
    have "foldR (apply_tx E) L1 ids = foldR (apply_tx E) L1 (filter (\<lambda>j. j \<noteq> i) ids)" if l: "apply_tx E L j = Ok L1" for L1
    proof -
      obtain t where t: "same_but_applied L L1" "applied_tx_ids L1 =
          (if outcome_of E L t = Skipped then applied_tx_ids L else insert j (applied_tx_ids L))"
        using l by (rule apply_tx_Ok)
      then show ?thesis using Cons.IH [of L1] Cons.prems same_fields(1) [OF t(1)] by auto
    qed
    then show ?thesis using False by (cases "apply_tx E L j") simp_all
  qed
qed simp

text \<open>
  Confirmation never changes the nonce of an account, also not of the sender of an applied
  transfer.
\<close>

theorem confirm_keeps_nonces:
  assumes "confirm_block E L m = Ok (L', r)"
  shows "nonce_of (balances L') = nonce_of (balances L)"
proof (cases r)
  case True
  then have "confirm_block E L m = Ok (L', True)" using assms by simp
  then obtain rf refs tx where tx: "txs L rf = Some (Coinbase tx)" "c_refs (b_content (mb_block m)) = rf # refs"
      "apply_block E (update_solution_range L (mb_height m)) m = Ok L'"
    by (rule confirm_True)
  let ?L = "update_solution_range L (mb_height m)"
  obtain L1 L2 L3 L4 where L1: "foldR (apply_tx_block E) ?L (concat (map snd (order_blocks E
        (map (tx_block_at ?L) (pending_refs ?L m))))) = Ok L1"
    and L2: "apply_proposer_coinbase E L1 (c_refs (b_content (mb_block m))) = Ok L2"
    and L3: "add_to_state E L2 (ser_proof E (b_proof (mb_block m))) = Ok L3"
    and L4: "add_to_state E L3 (ser_content E (b_content (mb_block m))) = Ok L4"
    and p: "same_but_pruned (L4\<lparr>confirmed_blocks := insert (mb_proof_id m) (confirmed_blocks L4)\<rparr>) L'"
    using tx(3) by (rule apply_block_Ok)
  have k: "keeps_nonces ?L L1"
    by (rule foldR_invariant [OF L1]) (simp add: keeps_nonces_def, rule keeps_nonces_block)
  then have "nonce_of (balances L2) = nonce_of (balances L1)"
    using apply_proposer_coinbase_Ok(2) [OF L2 [unfolded tx(2)]] tx(1) by (simp add: keeps_nonces_def)
  then show ?thesis
    using k add_to_state_frame(2) [OF L3] add_to_state_frame(2) [OF L4] same_but_pruned_fields(1) [OF p]
    by (simp add: keeps_nonces_def)
next
  case False
  then show ?thesis using assms by (auto simp: confirm_block_def Let_def bindR_Ok_iff split: if_splits)
qed

text \<open>
  \<^bold>\<open>C39\<close>.  The solution range that the end of an eon stages is between a quarter of and four times the
  current one, up to the rounding of two double-precision operations and the truncation to an
  integer, whatever the elapsed number of timeslots.
\<close>

theorem range_update_bounded:
  "let r = of_nat (unat (current_solution_range L)) :: rat;
       s = of_nat (unat (sru_solution_range (solution_range_update (close_eon L h))))
   in r / 4 * (1 - 1 / 2 ^ 53) ^ 2 - 1 < s \<and> s \<le> 4 * r * (1 + 1 / 2 ^ 53) ^ 2"
proof -
  let ?r = "of_nat (unat (current_solution_range L)) :: rat"
  let ?f = "u64_as_f64 (current_solution_range L)"
  let ?a = "range_adjustment (current_timeslot L - last_eon_close_timeslot L)"
  let ?v = "f64_mult ?f ?a"
  let ?d = "1 / 2 ^ 53 :: rat"
  have a: "1 / 4 \<le> ?a" "?a \<le> 4" by (simp_all add: range_adjustment_def Let_def)
  have f: "?f \<le> ?r * (1 + ?d)" "?r * (1 - ?d) \<le> ?f" "0 \<le> ?f"
    using round_f64_bounds [of ?r] round_f64_nonneg [of ?r] by (simp_all only: u64_as_f64_def of_nat_0_le_iff)
  have fa: "0 \<le> ?f * ?a" using f(3) a(1) by simp
  have v: "?v \<le> ?f * ?a * (1 + ?d)" "?f * ?a * (1 - ?d) \<le> ?v" "0 \<le> ?v"
    using round_f64_bounds [OF fa] round_f64_nonneg by (simp_all only: f64_mult_def)
  have "?f * ?a \<le> ?r * (1 + ?d) * 4" using f a by (intro mult_mono) simp_all
  then have "?f * ?a * (1 + ?d) \<le> ?r * (1 + ?d) * 4 * (1 + ?d)" by (rule mult_right_mono) simp
  then have up: "?v \<le> 4 * ?r * (1 + ?d) ^ 2" using v(1) by (simp only: power2_eq_square mult.assoc mult.commute mult.left_commute)
  have "?r * (1 - ?d) * (1 / 4) \<le> ?f * ?a" using f a by (intro mult_mono) simp_all
  then have "?r * (1 - ?d) * (1 / 4) * (1 - ?d) \<le> ?f * ?a * (1 - ?d)" by (rule mult_right_mono) simp
  moreover have "?r * (1 - ?d) * (1 / 4) * (1 - ?d) = ?r / 4 * (1 - ?d) ^ 2" by (simp only: power2_eq_square) simp
  ultimately have low: "?r / 4 * (1 - ?d) ^ 2 \<le> ?v" using v(2) by linarith
  have "unat (current_solution_range L) < 2 ^ 64" using unat_bound [of "current_solution_range L"] by simp
  then have "?r < of_nat (2 ^ 64)" by (simp only: of_nat_less_iff)
  then have r: "?r < 2 ^ 64" by simp
  have "0 \<le> ?r" by (rule of_nat_0_le_iff)
  then have "?r / 4 * (1 - ?d) ^ 2 \<le> ?r / 4 * 1" by (intro mult_left_mono) (simp_all add: power2_eq_square)
  then have sat: "?r / 4 * (1 - ?d) ^ 2 - 1 < 2 ^ 64 - 1" using r by simp
  have "?r / 4 * (1 - ?d) ^ 2 - 1 < of_nat (unat (f64_as_u64 ?v))"
  proof (cases "?v < 2 ^ 64")
    case True
    then show ?thesis using f64_as_u64_bounds(2) [OF v(3) True] low by linarith
  next
    case False
    then have "unat (f64_as_u64 ?v) = 2 ^ 64 - 1" using f64_as_u64_bounds(3) [OF v(3)] by simp
    then show ?thesis using sat by (simp add: of_nat_diff)
  qed
  moreover have "of_nat (unat (f64_as_u64 ?v)) \<le> 4 * ?r * (1 + ?d) ^ 2"
    using f64_as_u64_bounds(1) [OF v(3)] up by linarith
  ultimately show ?thesis by (simp only: Let_def close_eon_def) simp
qed

section \<open>A concrete confirmation\<close>

text \<open>A transaction block with its reward and one transfer, and a proposer block that refers to it.\<close>

definition toy_credit :: SimpleCreditTx where
  "toy_credit = \<lparr>tx_amount = 4, tx_from_address = [1], tx_to_address = [2], tx_nonce = 1, tx_public_key = [], tx_signature = []\<rparr>"

definition toy_coinbase :: CoinbaseTx where
  "toy_coinbase = \<lparr>cb_reward = 1, cb_to_address = [3], cb_proof_id = []\<rparr>"

definition toy_tx_block :: MetaBlock where
  "toy_tx_block = new_metablock toy_blocklib (toy_block None [[6], SimpleCreditTx_get_id toy_blocklib toy_credit]) 0"

definition toy_proposer :: MetaBlock where
  "toy_proposer = new_metablock toy_blocklib (toy_block (Some (replicate 32 0)) [[5], mb_content_id toy_tx_block]) 0"

definition toy_confirm :: Ledger where
  "toy_confirm = toy_ledger\<lparr>balances := [[1] \<mapsto> \<lparr>a_balance = 10, a_nonce = 0\<rparr>],
     metablocks := insert_block (MetaBlocks_new (replicate 32 0)) toy_tx_block,
     txs := [[5] \<mapsto> Coinbase toy_coinbase, [6] \<mapsto> Coinbase toy_coinbase,
       SimpleCreditTx_get_id toy_blocklib toy_credit \<mapsto> Credit toy_credit]\<rparr>"

lemma toy_blocklib_ok: "sha256_ok toy_blocklib" "merkle_ok toy_blocklib"
  by (simp_all add: toy_laws toy_blocklib_def blocklib.defs toy_defs)

lemma toy_confirm_store: "metablocks_ok toy_blocklib (metablocks toy_confirm)"
proof -
  have "metablocks_ok toy_blocklib (insert_block (MetaBlocks_new (replicate 32 0)) toy_tx_block)"
    by (rule insert_block_ok) (simp_all add: metablocks_new_ok, simp_all add: toy_tx_block_def new_metablock_def metablock_ok_def MetaBlocks_new_def)
  then show ?thesis by (simp add: toy_confirm_def)
qed

lemma toy_credit_id: "SimpleCreditTx_get_id toy_blocklib toy_credit \<noteq> [b]" "[b] \<noteq> SimpleCreditTx_get_id toy_blocklib toy_credit"
proof -
  have "length (SimpleCreditTx_get_id toy_blocklib toy_credit) = 32"
    by (simp add: SimpleCreditTx_get_id_def digest_sha_256_def toy_blocklib_def blocklib.defs toy_defs)
  then show "SimpleCreditTx_get_id toy_blocklib toy_credit \<noteq> [b]" by auto
  then show "[b] \<noteq> SimpleCreditTx_get_id toy_blocklib toy_credit" by (rule not_sym)
qed

lemma toy_confirm_lookups:
  "get_metablock_from_content_id_as_option (metablocks toy_confirm) (mb_content_id toy_tx_block) = Some toy_tx_block"
  "c_refs (b_content (mb_block toy_tx_block)) = [[6], SimpleCreditTx_get_id toy_blocklib toy_credit]"
  "c_refs (b_content (mb_block toy_proposer)) = [[5], mb_content_id toy_tx_block]"
  "txs toy_confirm [5] = Some (Coinbase toy_coinbase)" "txs toy_confirm [6] = Some (Coinbase toy_coinbase)"
  "txs toy_confirm (SimpleCreditTx_get_id toy_blocklib toy_credit) = Some (Credit toy_credit)"
  "applied_tx_block_ids toy_confirm = {}" "confirmed_blocks toy_confirm = {}"
  "balances toy_confirm = [[1] \<mapsto> \<lparr>a_balance = 10, a_nonce = 0\<rparr>]" "mb_height toy_proposer = 0"
  using toy_credit_id
  by (auto simp: toy_confirm_def toy_tx_block_def toy_proposer_def new_metablock_def toy_block_def toy_ledger_def
      initial_ledger_def insert_block_def MetaBlocks_new_def get_metablock_from_content_id_as_option_def Let_def)

lemma toy_confirm_facts:
  "senders_ok toy_confirm" "refs_available toy_confirm (c_refs (b_content (mb_block toy_proposer)))"
  "rewards_due toy_confirm toy_proposer = 2" "supply_ok toy_confirm 2"
proof -
  show "senders_ok toy_confirm"
    by (auto simp: senders_ok_def toy_confirm_lookups) (auto simp: toy_confirm_def toy_credit_def split: if_splits)
  show "refs_available toy_confirm (c_refs (b_content (mb_block toy_proposer)))"
    by (simp add: refs_available_def tx_refs_known_def toy_confirm_lookups)
  show "rewards_due toy_confirm toy_proposer = 2"
    by (simp add: rewards_due_def pending_refs_def tx_refs_at_def toy_confirm_lookups)
  show "supply_ok toy_confirm 2"
    by (simp add: supply_ok_def total_supply_def abs_balance_def toy_confirm_lookups)
qed

lemma toy_confirm_Ok:
  obtains L' where "confirm_block toy_blocklib toy_confirm toy_proposer = Ok (L', True)"
  using confirm_total [OF toy_blocklib_ok toy_confirm_store toy_confirm_facts(1), of toy_proposer]
    toy_confirm_facts(2) toy_confirm_lookups(8,10) that by (auto simp: toy_confirm_lookups(3))

theorem confirm_refines_spec_witness:
  "\<exists>L'. confirm_block toy_blocklib toy_confirm toy_proposer = Ok (L', True) \<and>
     abs_ledger L' = spec_txs toy_blocklib (nonce_of (balances toy_confirm)) (abs_ledger toy_confirm)
       (confirm_log toy_blocklib toy_confirm toy_proposer toy_coinbase)"
proof -
  obtain L' where L': "confirm_block toy_blocklib toy_confirm toy_proposer = Ok (L', True)" by (rule toy_confirm_Ok)
  then show ?thesis using confirm_refines_spec [OF toy_confirm_store _ L'] toy_confirm_facts(3,4)
    by (simp add: toy_confirm_lookups(3,4))
qed


theorem confirm_block_total_witness:
  "\<exists>L'. confirm_block toy_blocklib toy_confirm toy_proposer = Ok (L', True)"
  using confirm_block_total [OF toy_blocklib_ok toy_confirm_store toy_confirm_facts(1), of toy_proposer]
    toy_confirm_facts(2) toy_confirm_lookups(8,10) by (auto simp: toy_confirm_lookups(3))

theorem confirm_refused_witness:
  "\<exists>L'. confirm_block toy_blocklib (toy_confirm\<lparr>confirmed_blocks := {mb_proof_id toy_proposer}\<rparr>) toy_proposer = Ok (L', False) \<and>
     balances L' = balances toy_confirm"
  (is "\<exists>L'. confirm_block _ ?L _ = _ \<and> _")
proof -
  have "confirm_block toy_blocklib ?L toy_proposer = Ok (?L, False)" by (simp add: confirm_block_def)
  moreover have "balances ?L = balances toy_confirm" using arg_cong [OF confirm_refused [OF calculation], of balances] by simp
  ultimately show ?thesis by blast
qed

theorem confirm_once_witness:
  "\<exists>L'. confirm_block toy_blocklib toy_confirm toy_proposer = Ok (L', True) \<and>
     confirm_block toy_blocklib L' toy_proposer = Ok (L', False)"
proof -
  obtain L' where L': "confirm_block toy_blocklib toy_confirm toy_proposer = Ok (L', True)" by (rule toy_confirm_Ok)
  then show ?thesis using confirm_once [OF L' refl] by blast
qed

theorem order_canonical_witness:
  "\<exists>m. order_tx_blocks toy_blocklib toy_confirm [mb_content_id toy_tx_block] = Ok m"
proof -
  have "order_tx_blocks toy_blocklib toy_confirm [mb_content_id toy_tx_block] =
      Ok (order_blocks toy_blocklib (map (tx_block_at toy_confirm) [mb_content_id toy_tx_block]))"
    by (simp add: order_tx_blocks_Ok_iff toy_confirm_lookups)
  then show ?thesis using order_canonical [OF refl] by blast
qed

theorem credit_applied_once_witness:
  "foldR (apply_tx toy_blocklib)
       (toy_confirm\<lparr>applied_tx_ids := {SimpleCreditTx_get_id toy_blocklib toy_credit}\<rparr>)
       [SimpleCreditTx_get_id toy_blocklib toy_credit] =
     Ok (toy_confirm\<lparr>applied_tx_ids := {SimpleCreditTx_get_id toy_blocklib toy_credit}\<rparr>)"
  (is "foldR _ ?L [?i] = _")
proof -
  have "txs ?L ?i = Some (Credit toy_credit)" "?i \<in> applied_tx_ids ?L" by (simp_all add: toy_confirm_lookups)
  then have "foldR (apply_tx toy_blocklib) ?L [?i] = foldR (apply_tx toy_blocklib) ?L (filter (\<lambda>j. j \<noteq> ?i) [?i])"
    by (intro credit_applied_once) simp_all
  then show ?thesis by simp
qed

theorem confirm_keeps_nonces_witness:
  "\<exists>L'. confirm_block toy_blocklib toy_confirm toy_proposer = Ok (L', True) \<and> nonce_of (balances L') [1] = 0"
proof -
  obtain L' where L': "confirm_block toy_blocklib toy_confirm toy_proposer = Ok (L', True)" by (rule toy_confirm_Ok)
  have "nonce_of (balances toy_confirm) [1] = 0" by (simp add: nonce_of_def toy_confirm_lookups(9))
  then show ?thesis using L' confirm_keeps_nonces [OF L'] by (metis (no_types))
qed

end
