(* ===== verification/Ledger_Staging.thy ===== *)
theory Ledger_Staging
  imports Ledger_Confirm
begin

text \<open>
  How blocks enter the ledger (\<^verbatim>\<open>src/ledger.rs\<close>): local creation from a farmer's solution, validation of
  blocks from sync, from gossip, from the cache and of early blocks whose timeslot has arrived,
  staging of proposer and transaction blocks with the confirmation of the block that becomes
  \<open>k\<close> deep, staging of cached descendants, and the step to the next timeslot.

  The system time is an argument.  \<^verbatim>\<open>stage_cached_children\<close> follows the cache from block to block and
  need not end on an arbitrary cache, so it is a partial function; it is shown to end when no
  block is its own descendant.
\<close>

section \<open>Validation\<close>

definition validate_block :: "'z blocklib_scheme \<Rightarrow> Ledger \<Rightarrow> Block \<Rightarrow> bool res" where
  "validate_block E L b =
     bindR (get_slot_challenge E (epoch_tracker L) (p_epoch (b_proof b)) (p_timeslot (b_proof b)))
       (\<lambda>(epoch_randomness, slot_challenge).
        Block_is_valid E b (state L) epoch_randomness slot_challenge (sloth L))"

text \<open>The parent id of a block that is neither a transaction block nor a child of the genesis.\<close>

definition proposer_parent :: "Ledger \<Rightarrow> Block \<Rightarrow> ContentId option" where
  "proposer_parent L b =
     (case c_parent_id (b_content b) of
        Some parent_id \<Rightarrow> if parent_id \<noteq> genesis_challenge L then Some parent_id else None
      | None \<Rightarrow> None)"

text \<open>The parent is from an earlier timeslot and not too far back; written out three times in the source.\<close>

definition check_parent :: "Ledger \<Rightarrow> Block \<Rightarrow> ContentId \<Rightarrow> bool res" where
  "check_parent L b parent_id =
     bindR (get_metablock_from_content_id (metablocks L) parent_id) (\<lambda>parent_metablock.
     if p_timeslot (b_proof b) \<le> p_timeslot (b_proof (mb_block parent_metablock)) then Ok False
     else
       bindR (index (heads L) 0) (\<lambda>head.
       Ok (\<not> mb_height parent_metablock + of_nat CONFIRMATION_DEPTH < h_block_height head)))"

definition validate_block_from_sync :: "'z blocklib_scheme \<Rightarrow> Ledger \<Rightarrow> Block \<Rightarrow> u64 \<Rightarrow> (Ledger \<times> bool) res" where
  "validate_block_from_sync E L b requested_timeslot =
     (if p_timeslot (b_proof b) \<noteq> requested_timeslot then Ok (L, False)
      else
        (let proof_id = Proof_get_id E (b_proof b)
         in if proof_id \<in> recent_proof_ids L then Ok (L, False)
            else
              (let L = L\<lparr>recent_proof_ids := insert proof_id (recent_proof_ids L)\<rparr>
               in bindR (case proposer_parent L b of
                           None \<Rightarrow> Ok True
                         | Some parent_id \<Rightarrow>
                             if \<not> contains_content_id (metablocks L) parent_id then Ok False
                             else check_parent L b parent_id) (\<lambda>parent_ok.
                  if \<not> parent_ok then Ok (L, False)
                  else bindR (validate_block E L b) (\<lambda>valid. Ok (L, valid))))))"

text \<open>A block that arrives while the ledger is still syncing is put aside.\<close>

definition cache_before_sync :: "'z blocklib_scheme \<Rightarrow> Ledger \<Rightarrow> Block \<Rightarrow> Ledger res" where
  "cache_before_sync E L b =
     (if c_parent_id (b_content b) \<noteq> None then cache_remote_proposer_block L b
      else Ok (L\<lparr>cached_tx_blocks_by_content_id :=
                  (cached_tx_blocks_by_content_id L)(Content_get_id E (b_content b) \<mapsto> b)\<rparr>))"

text \<open>The end of the gossip check and of the check of an arrived block: unlike sync, they panic on an
  unknown parent.\<close>

definition check_known_parent :: "Ledger \<Rightarrow> Block \<Rightarrow> bool res" where
  "check_known_parent L b =
     (case proposer_parent L b of
        None \<Rightarrow> Ok True
      | Some parent_id \<Rightarrow>
          if \<not> contains_content_id (metablocks L) parent_id
          then Panic (PanicMsg ''Caching a block received via gossip with unknown parent content id'')
          else check_parent L b parent_id)"

definition validate_block_from_gossip :: "'z blocklib_scheme \<Rightarrow> Ledger \<Rightarrow> Block \<Rightarrow> (Ledger \<times> bool) res" where
  "validate_block_from_gossip E L b =
     (let proof_id = Proof_get_id E (b_proof b); timeslot = p_timeslot (b_proof b)
      in if proof_id \<in> recent_proof_ids L then Ok (L, False)
         else
           (let L = L\<lparr>recent_proof_ids := insert proof_id (recent_proof_ids L)\<rparr>
            in if \<not> timer_is_running L then bindR (cache_before_sync E L b) (\<lambda>L. Ok (L, False))
               else if current_timeslot L < timeslot then
                 (if timeslot < current_timeslot L - MAX_EARLY_TIMESLOTS then Ok (L, False)
                  else Ok (L\<lparr>early_blocks_by_timeslot := entry_push (early_blocks_by_timeslot L) timeslot b\<rparr>, False))
               else if current_timeslot L + MAX_LATE_TIMESLOTS < timeslot then Ok (L, False)
               else
                 bindR (check_known_parent L b) (\<lambda>parent_ok.
                 if \<not> parent_ok then Ok (L, False)
                 else bindR (validate_block E L b) (\<lambda>valid. Ok (L, valid)))))"

definition validate_block_from_cache :: "'z blocklib_scheme \<Rightarrow> Ledger \<Rightarrow> Block \<Rightarrow> bool res" where
  "validate_block_from_cache E L b =
     bindR (case proposer_parent L b of
              None \<Rightarrow> Ok True
            | Some parent_id \<Rightarrow>
                bindR (get_metablock_from_content_id (metablocks L) parent_id) (\<lambda>parent_metablock.
                Ok (\<not> p_timeslot (b_proof b) \<le> p_timeslot (b_proof (mb_block parent_metablock))))) (\<lambda>parent_ok.
     if \<not> parent_ok then Ok False else validate_block E L b)"

definition validate_block_that_has_arrived :: "'z blocklib_scheme \<Rightarrow> Ledger \<Rightarrow> Block \<Rightarrow> bool res" where
  "validate_block_that_has_arrived E L b =
     bindR (validate_block E L b) (\<lambda>valid. if \<not> valid then Ok False else check_known_parent L b)"

section \<open>Staging\<close>

text \<open>References to transaction blocks: known ones are claimed, the others noted as unknown.\<close>

definition claim_tx_block :: "Ledger \<Rightarrow> ContentId \<Rightarrow> Ledger" where
  "claim_tx_block L tx_block_id =
     (if contains_content_id (metablocks L) tx_block_id
      then L\<lparr>unclaimed_tx_block_ids := unclaimed_tx_block_ids L - {tx_block_id}\<rparr>
      else L\<lparr>unknown_tx_block_ids := insert tx_block_id (unknown_tx_block_ids L)\<rparr>)"

text \<open>The removal from the cache of proposer blocks, whose keys are parents' content ids.\<close>

definition drop_cached_proposer :: "'z blocklib_scheme \<Rightarrow> Ledger \<Rightarrow> ProofId \<Rightarrow> ContentId \<Rightarrow> Ledger" where
  "drop_cached_proposer E L proof_id parent_content_id =
     (let cache = cached_proposer_blocks_by_parent_content_id L
      in if cache proof_id = None then L
         else case cache parent_content_id of
           None \<Rightarrow> L
         | Some bs \<Rightarrow>
             (let bs = (case position (\<lambda>b. Proof_get_id E (b_proof b) = proof_id) bs of
                          Some i \<Rightarrow> vec_remove i bs | None \<Rightarrow> bs)
              in L\<lparr>cached_proposer_blocks_by_parent_content_id :=
                     (if bs = [] then cache(parent_content_id := None) else cache(parent_content_id \<mapsto> bs))\<rparr>))"

text \<open>The loop that walks to the \<open>k\<close>-deep parent; the argument counts the steps that remain.\<close>

fun kdeep_parent :: "MetaBlocks \<Rightarrow> ContentId \<Rightarrow> nat \<Rightarrow> MetaBlock option res" where
  "kdeep_parent ms parent_content_id 0 = Ok None"
| "kdeep_parent ms parent_content_id (Suc n) =
     (case get_metablock_from_content_id_as_option ms parent_content_id of
        None \<Rightarrow> Ok None
      | Some parent_block \<Rightarrow>
          bindR (expect ''Is proposer block'' (c_parent_id (b_content (mb_block parent_block)))) (\<lambda>parent_id.
          if n = 0 then Ok (Some parent_block) else kdeep_parent ms parent_id n))"

text \<open>Everything before the confirmation.\<close>

definition record_proposer_block :: "'z blocklib_scheme \<Rightarrow> Ledger \<Rightarrow> Block \<Rightarrow> ContentId \<Rightarrow> Ledger res" where
  "record_proposer_block E L b parent_content_id =
     (let L = (if genesis_timestamp L = 0 then L\<lparr>genesis_timestamp := c_timestamp (b_content b)\<rparr> else L)
      in bindR (save E (metablocks L) b) (\<lambda>(ms, metablock).
         let L = add_block_to_timeslot (L\<lparr>metablocks := ms\<rparr>) (p_timeslot (b_proof b)) (mb_proof_id metablock);
             L = L\<lparr>txs := (txs L)(CoinbaseTx_get_id E (b_coinbase_tx b) \<mapsto> Coinbase (b_coinbase_tx b))\<rparr>;
             L = foldl claim_tx_block L (drop 1 (c_refs (b_content b)));
             L = drop_cached_proposer E L (Proof_get_id E (b_proof b)) parent_content_id;
             L = update_heads L parent_content_id (mb_content_id metablock) (mb_height metablock)
         in bindR (if parent_content_id = genesis_challenge L then Ok (genesis_challenge L)
                   else get_proof_id_from_content_id (metablocks L) parent_content_id) (\<lambda>parent_proof_id.
            bindR (add_proof_to_epoch (epoch_tracker L) (p_epoch (b_proof (mb_block metablock))) parent_proof_id
                     (mb_proof_id metablock)) (\<lambda>tracker.
            Ok (L\<lparr>epoch_tracker := tracker\<rparr>)))))"

definition stage_proposer_block :: "'z blocklib_scheme \<Rightarrow> Ledger \<Rightarrow> Block \<Rightarrow> Ledger res" where
  "stage_proposer_block E L b =
     bindR (expect ''Proposers always have a parent'' (c_parent_id (b_content b))) (\<lambda>parent_content_id.
     bindR (record_proposer_block E L b parent_content_id) (\<lambda>L.
     bindR (kdeep_parent (metablocks L) parent_content_id CONFIRMATION_DEPTH) (\<lambda>parent_block.
     case parent_block of
       None \<Rightarrow> Ok L
     | Some parent_block \<Rightarrow> bindR (confirm_block E L parent_block) (\<lambda>(L, _). Ok L))))"

text \<open>References to transactions: known ones are claimed, the others noted as unknown.\<close>

definition claim_tx :: "Ledger \<Rightarrow> TxId \<Rightarrow> Ledger" where
  "claim_tx L tx_id =
     (if txs L tx_id \<noteq> None then L\<lparr>unclaimed_tx_ids := unclaimed_tx_ids L - {tx_id}\<rparr>
      else L\<lparr>unknown_tx_ids := insert tx_id (unknown_tx_ids L)\<rparr>)"

definition stage_tx_block :: "'z blocklib_scheme \<Rightarrow> Ledger \<Rightarrow> Block \<Rightarrow> Ledger res" where
  "stage_tx_block E L b =
     (let L = L\<lparr>cached_tx_blocks_by_content_id :=
                  (cached_tx_blocks_by_content_id L)(Content_get_id E (b_content b) := None)\<rparr>
      in bindR (save E (metablocks L) b) (\<lambda>(ms, metablock).
         let L = add_block_to_timeslot (L\<lparr>metablocks := ms\<rparr>) (p_timeslot (b_proof b)) (mb_proof_id metablock);
             L = L\<lparr>txs := (txs L)(CoinbaseTx_get_id E (b_coinbase_tx b) \<mapsto> Coinbase (b_coinbase_tx b))\<rparr>;
             L = (if mb_content_id metablock \<in> unknown_tx_block_ids L
                  then L\<lparr>unknown_tx_block_ids := unknown_tx_block_ids L - {mb_content_id metablock}\<rparr>
                  else L\<lparr>unclaimed_tx_block_ids := insert (mb_content_id metablock) (unclaimed_tx_block_ids L)\<rparr>)
         in Ok (foldl claim_tx L (drop 1 (c_refs (b_content b))))))"

text \<open>One round of \<^verbatim>\<open>stage_cached_children\<close> stages the valid blocks and collects their cached children.\<close>

definition cached_children :: "Ledger \<Rightarrow> ContentId \<Rightarrow> Block list" where
  "cached_children L parent_id =
     (case cached_proposer_blocks_by_parent_content_id L parent_id of Some bs \<Rightarrow> bs | None \<Rightarrow> [])"

definition stage_child :: "'z blocklib_scheme \<Rightarrow> Ledger \<times> Block list \<Rightarrow> Block \<Rightarrow> (Ledger \<times> Block list) res" where
  "stage_child E s b =
     (case s of (L, additional_blocks) \<Rightarrow>
        bindR (validate_block_from_cache E L b) (\<lambda>valid.
        if valid then
          bindR (stage_proposer_block E L b) (\<lambda>L.
          Ok (L, additional_blocks @ cached_children L (Content_get_id E (b_content b))))
        else Ok (L, additional_blocks)))"

partial_function (option) stage_rounds :: "'z blocklib_scheme \<Rightarrow> Ledger \<Rightarrow> Block list \<Rightarrow> Ledger res option" where
  "stage_rounds E L bs =
     (if bs = [] then Some (Ok L)
      else case foldR (stage_child E) (L, []) bs of
        Inl e \<Rightarrow> Some (Panic e)
      | Inr (L, additional_blocks) \<Rightarrow> stage_rounds E L additional_blocks)"

definition stage_cached_children :: "'z blocklib_scheme \<Rightarrow> Ledger \<Rightarrow> ContentId \<Rightarrow> Ledger res option" where
  "stage_cached_children E L parent_id = stage_rounds E L (cached_children L parent_id)"

section \<open>Time\<close>

definition apply_range_update :: "Ledger \<Rightarrow> Ledger" where
  "apply_range_update L =
     (if current_timeslot L = sru_next_timeslot (solution_range_update L) then
        (let new_range = sru_solution_range (solution_range_update L);
             eon_index = sru_block_height (solution_range_update L) div PROPOSER_BLOCKS_PER_EON
         in L\<lparr>current_solution_range := new_range,
              solution_ranges_by_eon := (solution_ranges_by_eon L)(eon_index \<mapsto> new_range)\<rparr>)
      else L)"

definition stage_early_block :: "'z blocklib_scheme \<Rightarrow> Ledger \<Rightarrow> Block \<Rightarrow> Ledger res" where
  "stage_early_block E L b =
     bindR (validate_block_that_has_arrived E L b) (\<lambda>valid.
     if valid then
       (if c_parent_id (b_content b) \<noteq> None then stage_proposer_block E L b else stage_tx_block E L b)
     else Ok L)"

definition next_timeslot :: "'z blocklib_scheme \<Rightarrow> Ledger \<Rightarrow> Ledger res" where
  "next_timeslot E L =
     (let L = apply_range_update (L\<lparr>current_timeslot := current_timeslot L + 1\<rparr>)
      in case early_blocks_by_timeslot L (current_timeslot L) of
           None \<Rightarrow> Ok L
         | Some bs \<Rightarrow>
             bindR (foldR (stage_early_block E) L bs) (\<lambda>L.
             Ok (L\<lparr>early_blocks_by_timeslot := (early_blocks_by_timeslot L)(current_timeslot L := None)\<rparr>)))"

section \<open>Local blocks\<close>

definition subspace_bytes :: bytes where
  "subspace_bytes = [0x73, 0x75, 0x62, 0x73, 0x70, 0x61, 0x63, 0x65]"

definition solution_proof :: "'z blocklib_scheme \<Rightarrow> Ledger \<Rightarrow> Solution \<Rightarrow> Proof" where
  "solution_proof E L s =
     \<lparr>p_randomness = s_randomness s, p_epoch = s_epoch_index s, p_timeslot = s_timeslot s,
      p_public_key = public (keys L), p_tag = s_tag s,
      p_nonce = u64_from_le_bytes (take 8 (create_hmac E (s_encoding s) subspace_bytes)),
      p_piece_index = s_piece_index s, p_solution_range = s_solution_range s\<rparr>"

text \<open>The tip of the longest chain, or its parent when the tip is a block of this same timeslot.\<close>

definition choose_parent :: "Ledger \<Rightarrow> ContentId list \<Rightarrow> ContentId res" where
  "choose_parent L sibling_content_ids =
     (let longest_content_id = get_head L
      in if longest_content_id \<in> set sibling_content_ids then
           bindR (get_metablock_from_content_id (metablocks L) longest_content_id) (\<lambda>sibling_metablock.
           expect ''Sibling will be a proposer block'' (c_parent_id (b_content (mb_block sibling_metablock))))
         else Ok longest_content_id)"

text \<open>Proposer or transaction block: the parent, the references after the coinbase, and the drained ledger.\<close>

definition choose_refs :: "Ledger \<Rightarrow> Solution \<Rightarrow> ContentId list \<Rightarrow> (Ledger \<times> ContentId option \<times> bytes list) res" where
  "choose_refs L s sibling_content_ids =
     (let target = u64_from_be_bytes (s_target s);
          tag = u64_from_be_bytes (s_tag s)
      in if within_solution_range target (s_solution_range s div (TX_BLOCKS_PER_PROPOSER_BLOCK + 1)) tag then
           bindR (choose_parent L sibling_content_ids) (\<lambda>longest_content_id.
           Ok (L\<lparr>unclaimed_tx_block_ids := {}\<rparr>, Some longest_content_id,
               sorted_list_of_set (unclaimed_tx_block_ids L)))
         else Ok (L\<lparr>unclaimed_tx_ids := {}\<rparr>, None, sorted_list_of_set (unclaimed_tx_ids L)))"

text \<open>The content is signed with its signature field empty.\<close>

definition signed_content ::
  "'z blocklib_scheme \<Rightarrow> Keypair \<Rightarrow> Proof \<Rightarrow> u64 \<Rightarrow> ContentId option \<Rightarrow> bytes list \<Rightarrow> Content" where
  "signed_content E ks proof timestamp parent_id refs =
     (let content = \<lparr>c_proof_id = Proof_get_id E proof, c_parent_id = parent_id,
                     c_proof_signature = sign E ks (Proof_get_id E proof), c_timestamp = timestamp,
                     c_refs = refs, c_signature = []\<rparr>
      in content\<lparr>c_signature := sign E ks (Content_get_id E content)\<rparr>)"

definition create_and_apply_local_block ::
  "'z blocklib_scheme \<Rightarrow> u64 \<Rightarrow> Ledger \<Rightarrow> Solution \<Rightarrow> ContentId list \<Rightarrow> (Ledger \<times> Block) res" where
  "create_and_apply_local_block E timestamp L s sibling_content_ids =
     (let proof = solution_proof E L s;
          expanded_iv = expand_iv E (digest_sha_256 E (p_public_key proof))
      in bindR (decode E (sloth L) (s_encoding s) expanded_iv ENCODING_LAYERS_TEST) (\<lambda>decoding.
         let data = \<lparr>d_encoding = s_encoding s, d_merkle_proof = s_merkle_proof s,
                     d_piece_hash = digest_sha_256 E decoding\<rparr>;
             proof_id = Proof_get_id E proof;
             coinbase_tx = CoinbaseTx_new E BLOCK_REWARD (public (keys L)) proof_id
         in bindR (choose_refs L s sibling_content_ids) (\<lambda>(L, parent_id, refs).
            let content = signed_content E (keys L) proof timestamp parent_id (CoinbaseTx_get_id E coinbase_tx # refs);
                L = (if c_parent_id content = None
                     then L\<lparr>unclaimed_tx_block_ids := insert (Content_get_id E content) (unclaimed_tx_block_ids L)\<rparr>
                     else L);
                block = \<lparr>b_proof = proof, b_coinbase_tx = coinbase_tx, b_content = content, b_data = Some data\<rparr>
            in bindR (validate_block E L block) (\<lambda>valid.
               if \<not> valid then Panic (AssertFailed ''Local block must always be valid'') else Ok (L, block)))))"

section \<open>Local blocks are valid\<close>

lemma choose_refs_facts:
  assumes "choose_refs L s sibs = Ok (L1, parent, refs)"
  shows "keys L1 = keys L" "epoch_tracker L1 = epoch_tracker L" "state L1 = state L" "sloth L1 = sloth L"
    "parent \<noteq> None \<longleftrightarrow> within_solution_range (u64_from_be_bytes (s_target s))
       (s_solution_range s div (TX_BLOCKS_PER_PROPOSER_BLOCK + 1)) (u64_from_be_bytes (s_tag s))"
  using assms by (auto simp: choose_refs_def Let_def bindR_Ok_iff split: if_splits)

text \<open>What a solution has to be for the block made from it.\<close>

definition solution_ok :: "'z blocklib_scheme \<Rightarrow> Ledger \<Rightarrow> Solution \<Rightarrow> bool" where
  "solution_ok E L s \<longleftrightarrow>
     (\<exists>challenge sb piece.
        get_slot_challenge E (epoch_tracker L) (s_epoch_index s) (s_timeslot s) = Ok (s_randomness s, challenge) \<and>
        s_target s = take 8 challenge \<and>
        within_solution_range (u64_from_be_bytes (s_target s)) (s_solution_range s) (u64_from_be_bytes (s_tag s)) \<and>
        get_state_block_by_height (state L) (s_piece_index s div of_nat PIECES_PER_STATE_BLOCK) = Some sb \<and>
        decode E (sloth L) (s_encoding s) (expand_iv E (digest_sha_256 E (public (keys L)))) ENCODING_LAYERS_TEST = Ok piece \<and>
        validate_merkle_proof E (digest_sha_256 E piece) (s_merkle_proof s) (piece_merkle_root sb))"

lemma solution_proof_fields [simp]:
  "p_public_key (solution_proof E L s) = public (keys L)" "p_randomness (solution_proof E L s) = s_randomness s"
  "p_epoch (solution_proof E L s) = s_epoch_index s" "p_timeslot (solution_proof E L s) = s_timeslot s"
  "p_piece_index (solution_proof E L s) = s_piece_index s" "p_tag (solution_proof E L s) = s_tag s"
  "p_solution_range (solution_proof E L s) = s_solution_range s"
  by (simp_all add: solution_proof_def)

lemma signed_content_fields [simp]:
  "c_proof_id (signed_content E ks p ts parent refs) = Proof_get_id E p"
  "c_parent_id (signed_content E ks p ts parent refs) = parent" "c_refs (signed_content E ks p ts parent refs) = refs"
  "c_proof_signature (signed_content E ks p ts parent refs) = sign E ks (Proof_get_id E p)"
  "c_signature (signed_content E ks p ts parent refs) =
     sign E ks (Content_get_id E ((signed_content E ks p ts parent refs)\<lparr>c_signature := []\<rparr>))"
  by (simp_all add: signed_content_def Let_def)

lemma local_block:
  assumes "ed25519_ok E (keys L)" and "solution_ok E L s" and "choose_refs L s sibs = Ok (L1, parent, refs)"
  obtains L' b where "create_and_apply_local_block E ts L s sibs = Ok (L', b)"
    "\<And>M. epoch_tracker M = epoch_tracker L \<Longrightarrow> state M = state L \<Longrightarrow> sloth M = sloth L \<Longrightarrow> validate_block E M b = Ok True"
    "b_proof b = solution_proof E L s" "c_parent_id (b_content b) = parent"
    "c_refs (b_content b) = CoinbaseTx_get_id E (b_coinbase_tx b) # refs"
    "L' = (if parent = None then L1\<lparr>unclaimed_tx_block_ids := insert (Content_get_id E (b_content b)) (unclaimed_tx_block_ids L1)\<rparr> else L1)"
proof -
  obtain challenge sb piece where s: "get_slot_challenge E (epoch_tracker L) (s_epoch_index s) (s_timeslot s) = Ok (s_randomness s, challenge)"
      "s_target s = take 8 challenge"
      "within_solution_range (u64_from_be_bytes (s_target s)) (s_solution_range s) (u64_from_be_bytes (s_tag s))"
      "get_state_block_by_height (state L) (s_piece_index s div of_nat PIECES_PER_STATE_BLOCK) = Some sb"
      "decode E (sloth L) (s_encoding s) (expand_iv E (digest_sha_256 E (public (keys L)))) ENCODING_LAYERS_TEST = Ok piece"
      "validate_merkle_proof E (digest_sha_256 E piece) (s_merkle_proof s) (piece_merkle_root sb)"
    using assms(2) unfolding solution_ok_def by blast
  note f = choose_refs_facts [OF assms(3)]
  define p where "p = solution_proof E L s"
  define cb where "cb = CoinbaseTx_new E BLOCK_REWARD (public (keys L)) (Proof_get_id E p)"
  define c where "c = signed_content E (keys L1) p ts parent (CoinbaseTx_get_id E cb # refs)"
  define b where "b = \<lparr>b_proof = p, b_coinbase_tx = cb, b_content = c, b_data = Some \<lparr>d_encoding = s_encoding s,
    d_merkle_proof = s_merkle_proof s, d_piece_hash = digest_sha_256 E piece\<rparr>\<rparr>"
  define L' where "L' = (if parent = None then L1\<lparr>unclaimed_tx_block_ids := insert (Content_get_id E c) (unclaimed_tx_block_ids L1)\<rparr> else L1)"
  have sort: "is_sortitioned b challenge"
    using f(5) s(2,3) by (simp add: is_sortitioned_def Let_def b_def c_def p_def)
  have sig: "public_key_ok E (public (keys L))" "signature_ok E (sign E (keys L) m)"
      "verify_strict E (public (keys L)) m (sign E (keys L) m)" for m
    using assms(1) by (simp_all add: ed25519_ok_def)
  have v: "Block_is_valid E b (state L) (s_randomness s) challenge (sloth L) = Ok True"
    unfolding Block_is_valid_iff Let_def using sort s(4-6) sig f(1) by (auto simp: b_def c_def cb_def p_def)
  have valid: "validate_block E M b = Ok True"
    if "epoch_tracker M = epoch_tracker L" "state M = state L" "sloth M = sloth L" for M
    using that v s(1) by (simp add: validate_block_def b_def p_def)
  have "create_and_apply_local_block E ts L s sibs = bindR (validate_block E L' b) (\<lambda>valid.
      if \<not> valid then Panic (AssertFailed ''Local block must always be valid'') else Ok (L', b))"
    unfolding create_and_apply_local_block_def Let_def b_def c_def cb_def p_def L'_def
    by (simp only: solution_proof_fields signed_content_fields(2) s(5) assms(3) bindR_simps prod.case)
  moreover have "validate_block E L' b = Ok True" by (rule valid) (use f in \<open>simp_all add: L'_def\<close>)
  ultimately have "create_and_apply_local_block E ts L s sibs = Ok (L', b)" by simp
  then show thesis using valid by (rule that) (simp_all add: b_def c_def p_def L'_def)
qed

section \<open>What staging leaves alone\<close>

text \<open>Clock, current range, early blocks, known proofs, genesis and identity of the node.\<close>

definition fixed_part :: "Ledger \<Rightarrow> u64 \<times> u64 \<times> (u64 \<rightharpoonup> Block list) \<times> ProofId set \<times> bytes \<times> bool \<times> Keypair \<times> Sloth" where
  "fixed_part L = (current_timeslot L, current_solution_range L, early_blocks_by_timeslot L, recent_proof_ids L,
     genesis_challenge L, timer_is_running L, keys L, sloth L)"

definition cache_of :: "Ledger \<Rightarrow> ContentId \<rightharpoonup> Block list" where
  "cache_of L = cached_proposer_blocks_by_parent_content_id L"

lemma applied_fixed:
  assumes "same_but_applied L L'"
  shows "fixed_part L' = fixed_part L" "cache_of L' = cache_of L" "epoch_tracker L' = epoch_tracker L"
  using assms by (auto elim!: sameE simp: fixed_part_def cache_of_def with_applied_def)

lemma pruned_fixed:
  assumes "same_but_pruned L L'"
  shows "fixed_part L' = fixed_part L" "cache_of L' = cache_of L" "epoch_tracker L' = epoch_tracker L"
  by (subst assms [unfolded same_but_pruned_def], simp add: fixed_part_def cache_of_def)+

lemma tx_blocks_same:
  assumes "foldR (apply_tx_block E) L ps = Ok L'"
  shows "same_but_applied L L'"
proof (rule foldR_invariant [OF assms])
  fix L1 p L2 assume L1: "same_but_applied L L1" and b: "apply_tx_block E L1 p = Ok L2"
  obtain m La Lb Lc where "fmlookup (blocks (metablocks L1)) p = Some m"
    and La: "foldR (apply_tx E) L1 (c_refs (b_content (mb_block m))) = Ok La"
    and Lb: "add_to_state E La (ser_proof E (b_proof (mb_block m))) = Ok Lb"
    and Lc: "add_to_state E Lb (ser_content E (b_content (mb_block m))) = Ok Lc"
    and L2: "L2 = Lc\<lparr>applied_tx_block_ids := insert (Content_get_id E (b_content (mb_block m))) (applied_tx_block_ids Lc)\<rparr>"
    using b by (rule apply_tx_block_Ok)
  have "same_but_applied L1 La"
    by (rule foldR_invariant [OF La same_refl]) (erule apply_tx_Ok, rule same_trans)
  moreover have "same_but_applied La Lb" "same_but_applied Lb Lc"
    by (rule add_to_state_frame [OF Lb], rule add_to_state_frame [OF Lc])
  moreover have "same_but_applied Lc L2" unfolding L2 same_but_applied_def with_applied_def by simp
  ultimately show "same_but_applied L L2" using L1 same_trans by blast
qed simp

lemma confirm_True_parts:
  assumes "confirm_block E L m = Ok (L', True)"
  obtains L4 where "same_but_applied (update_solution_range L (mb_height m)) L4"
    "prune_siblings (L4\<lparr>confirmed_blocks := insert (mb_proof_id m) (confirmed_blocks L4)\<rparr>) m = Ok L'"
proof -
  let ?L = "update_solution_range L (mb_height m)"
  obtain r refs tx where tx: "c_refs (b_content (mb_block m)) = r # refs" "txs L r = Some (Coinbase tx)"
      "refs_available L (c_refs (b_content (mb_block m)))" "mb_proof_id m \<notin> confirmed_blocks L" "apply_block E ?L m = Ok L'"
    using assms by (rule confirm_True)
  obtain ps L1 L2 L3 L4 where L1: "foldR (apply_tx_block E) ?L ps = Ok L1"
    and L2: "apply_proposer_coinbase E L1 (r # refs) = Ok L2"
    and L3: "add_to_state E L2 (ser_proof E (b_proof (mb_block m))) = Ok L3"
    and L4: "add_to_state E L3 (ser_content E (b_content (mb_block m))) = Ok L4"
    and p: "prune_siblings (L4\<lparr>confirmed_blocks := insert (mb_proof_id m) (confirmed_blocks L4)\<rparr>) m = Ok L'"
    using tx(5) unfolding apply_block_def Let_def tx(1) by (elim bindR_Ok_E) (rule that)
  have a1: "same_but_applied ?L L1" by (rule tx_blocks_same [OF L1])
  have t: "txs L1 r = Some (Coinbase tx)" using same_fields(1) [OF a1] tx(2) by simp
  have "same_but_applied L1 L2" by (rule apply_proposer_coinbase_Ok(1) [OF L2 t])
  then have "same_but_applied ?L L4"
    using a1 add_to_state_frame(1) [OF L3] add_to_state_frame(1) [OF L4] same_trans by blast
  then show thesis using p that by blast
qed

lemma prune_siblings_Ok:
  "prune_siblings L m = Ok L' \<Longrightarrow> L' = L \<or> (\<exists>ps. prune_blocks_recursive L ps = Ok L')"
  by (auto simp: prune_siblings_def bindR_Ok_iff split: if_splits)

lemma confirm_False: "confirm_block E L m = Ok (L', False) \<Longrightarrow> L' = L \<or> L' = update_solution_range L (mb_height m)"
  by (auto simp: confirm_block_def Let_def bindR_Ok_iff split: if_splits)

lemma confirm_fixed:
  assumes "confirm_block E L m = Ok (L', r)"
  shows "fixed_part L' = fixed_part L" "cache_of L' = cache_of L" "epoch_tracker L' = epoch_tracker L"
proof -
  have u: "fixed_part (update_solution_range L h) = fixed_part L" "cache_of (update_solution_range L h) = cache_of L"
      "epoch_tracker (update_solution_range L h) = epoch_tracker L" for h
    by (simp_all add: fixed_part_def cache_of_def update_solution_range_def close_eon_def Let_def)
  have c: "fixed_part (L4\<lparr>confirmed_blocks := x\<rparr>) = fixed_part L4" "cache_of (L4\<lparr>confirmed_blocks := x\<rparr>) = cache_of L4" for L4 x
    by (simp_all add: fixed_part_def cache_of_def)
  have "fixed_part L' = fixed_part L \<and> cache_of L' = cache_of L \<and> epoch_tracker L' = epoch_tracker L"
  proof (cases r)
    case True
    then have "confirm_block E L m = Ok (L', True)" using assms by simp
    then obtain L4 where L4: "same_but_applied (update_solution_range L (mb_height m)) L4"
        "prune_siblings (L4\<lparr>confirmed_blocks := insert (mb_proof_id m) (confirmed_blocks L4)\<rparr>) m = Ok L'"
      by (rule confirm_True_parts)
    have "same_but_pruned (L4\<lparr>confirmed_blocks := insert (mb_proof_id m) (confirmed_blocks L4)\<rparr>) L'"
      using prune_siblings_Ok [OF L4(2)] by (elim disjE exE) (simp, rule prune_same)
    then show ?thesis using applied_fixed [OF L4(1)] pruned_fixed u c by fastforce
  next
    case False
    then show ?thesis using assms confirm_False [of E L m L'] u by auto
  qed
  then show "fixed_part L' = fixed_part L" "cache_of L' = cache_of L" "epoch_tracker L' = epoch_tracker L" by blast+
qed

lemma claim_tx_blocks_with:
  "\<exists>a c. foldl claim_tx_block L ids = L\<lparr>unclaimed_tx_block_ids := a, unknown_tx_block_ids := c\<rparr>"
proof (induction ids arbitrary: L)
  case Nil
  have "foldl claim_tx_block L [] = L\<lparr>unclaimed_tx_block_ids := unclaimed_tx_block_ids L, unknown_tx_block_ids := unknown_tx_block_ids L\<rparr>"
    by simp
  then show ?case by blast
next
  case (Cons i ids)
  obtain a c where "foldl claim_tx_block (claim_tx_block L i) ids = (claim_tx_block L i)\<lparr>unclaimed_tx_block_ids := a, unknown_tx_block_ids := c\<rparr>"
    using Cons.IH [of "claim_tx_block L i"] by blast
  then have "foldl claim_tx_block L (i # ids) = L\<lparr>unclaimed_tx_block_ids := a, unknown_tx_block_ids := c\<rparr>"
    by (simp add: claim_tx_block_def split: if_splits)
  then show ?case by blast
qed

lemma drop_cached_with:
  obtains cache where "drop_cached_proposer E L p c = L\<lparr>cached_proposer_blocks_by_parent_content_id := cache\<rparr>"
    "\<And>x bs. cache x = Some bs \<Longrightarrow> set bs \<subseteq> set (the (cache_of L x)) \<and> cache_of L x \<noteq> None"
proof (cases "cache_of L p = None \<or> cache_of L c = None")
  case True
  then show thesis using that [of "cache_of L"] by (auto simp: drop_cached_proposer_def Let_def cache_of_def split: option.splits)
next
  case False
  then obtain bs0 where bs0: "cache_of L c = Some bs0" by auto
  let ?bs = "case position (\<lambda>b. Proof_get_id E (b_proof b) = p) bs0 of Some i \<Rightarrow> vec_remove i bs0 | None \<Rightarrow> bs0"
  let ?cache = "if ?bs = [] then (cache_of L)(c := None) else (cache_of L)(c \<mapsto> ?bs)"
  have sub: "set ?bs \<subseteq> set bs0" by (simp add: set_vec_remove_subset split: option.split)
  have "drop_cached_proposer E L p c = L\<lparr>cached_proposer_blocks_by_parent_content_id := ?cache\<rparr>"
    using False bs0 by (auto simp: drop_cached_proposer_def Let_def cache_of_def)
  moreover have "set bs \<subseteq> set (the (cache_of L x)) \<and> cache_of L x \<noteq> None" if "?cache x = Some bs" for x bs
    using that sub bs0 by (auto split: if_splits)
  ultimately show thesis using that by blast
qed

text \<open>The record after the block is stored and before anything is confirmed.\<close>

lemma record_proposer_Ok:
  assumes "record_proposer_block E L b pc = Ok L'"
  obtains ms mb where "save E (metablocks L) b = Ok (ms, mb)" "metablocks L' = ms"
    "heads L' = heads (update_heads L pc (mb_content_id mb) (mb_height mb))"
    "fixed_part L' = fixed_part L" "balances L' = balances L" "state L' = state L" "confirmed_blocks L' = confirmed_blocks L"
    "txs L' = (txs L)(CoinbaseTx_get_id E (b_coinbase_tx b) \<mapsto> Coinbase (b_coinbase_tx b))"
    "\<And>x bs. cache_of L' x = Some bs \<Longrightarrow> set bs \<subseteq> set (the (cache_of L x)) \<and> cache_of L x \<noteq> None"
proof -
  let ?L0 = "if genesis_timestamp L = 0 then L\<lparr>genesis_timestamp := c_timestamp (b_content b)\<rparr> else L"
  obtain ms mb where sv: "save E (metablocks ?L0) b = Ok (ms, mb)"
    using assms by (auto simp: record_proposer_block_def Let_def bindR_Ok_iff)
  let ?L1 = "add_block_to_timeslot (?L0\<lparr>metablocks := ms\<rparr>) (p_timeslot (b_proof b)) (mb_proof_id mb)"
  let ?L2 = "?L1\<lparr>txs := (txs ?L1)(CoinbaseTx_get_id E (b_coinbase_tx b) \<mapsto> Coinbase (b_coinbase_tx b))\<rparr>"
  obtain a c where c: "foldl claim_tx_block ?L2 (drop 1 (c_refs (b_content b))) = ?L2\<lparr>unclaimed_tx_block_ids := a, unknown_tx_block_ids := c\<rparr>"
    using claim_tx_blocks_with by blast
  let ?L3 = "?L2\<lparr>unclaimed_tx_block_ids := a, unknown_tx_block_ids := c\<rparr>"
  obtain cache where d: "drop_cached_proposer E ?L3 (Proof_get_id E (b_proof b)) pc = ?L3\<lparr>cached_proposer_blocks_by_parent_content_id := cache\<rparr>"
      and sub: "\<And>x bs. cache x = Some bs \<Longrightarrow> set bs \<subseteq> set (the (cache_of ?L3 x)) \<and> cache_of ?L3 x \<noteq> None"
    by (rule drop_cached_with) blast
  let ?L4 = "?L3\<lparr>cached_proposer_blocks_by_parent_content_id := cache\<rparr>"
  obtain h where h: "update_heads ?L4 pc (mb_content_id mb) (mb_height mb) = ?L4\<lparr>heads := h\<rparr>"
      "h = heads (update_heads L pc (mb_content_id mb) (mb_height mb))"
    by (auto simp: update_heads_def add_block_to_timeslot_def split: option.splits)
  obtain tracker where L': "L' = ?L4\<lparr>heads := h, epoch_tracker := tracker\<rparr>"
    using assms unfolding record_proposer_block_def Let_def sv bindR_simps prod.case c d h(1) by (auto simp: bindR_Ok_iff)
  have cache: "cache_of ?L3 = cache_of L" by (simp add: cache_of_def add_block_to_timeslot_def)
  show thesis
  proof (rule that [of ms mb])
    show "save E (metablocks L) b = Ok (ms, mb)" using sv by (simp split: if_splits)
    show "set bs \<subseteq> set (the (cache_of L x)) \<and> cache_of L x \<noteq> None" if "cache_of L' x = Some bs" for x bs
      using sub [of x bs] that unfolding cache by (simp add: L' cache_of_def)
  qed (simp_all add: L' h(2) fixed_part_def add_block_to_timeslot_def)
qed

lemma stage_proposer_Ok:
  assumes "stage_proposer_block E L b = Ok L'"
  obtains pc L1 r where "c_parent_id (b_content b) = Some pc" "record_proposer_block E L b pc = Ok L1"
    "kdeep_parent (metablocks L1) pc CONFIRMATION_DEPTH = Ok r"
    "r = None \<and> L' = L1 \<or> (\<exists>m v. r = Some m \<and> confirm_block E L1 m = Ok (L', v))"
proof -
  obtain pc L1 r where L1: "c_parent_id (b_content b) = Some pc" "record_proposer_block E L b pc = Ok L1"
      "kdeep_parent (metablocks L1) pc CONFIRMATION_DEPTH = Ok r"
    and e: "(case r of None \<Rightarrow> Ok L1 | Some m \<Rightarrow> bindR (confirm_block E L1 m) (\<lambda>(L, _). Ok L)) = Ok L'"
    using assms unfolding stage_proposer_block_def by (elim bindR_Ok_E) simp
  have "r = None \<and> L' = L1 \<or> (\<exists>m v. r = Some m \<and> confirm_block E L1 m = Ok (L', v))"
    using e by (cases r) (auto simp: bindR_Ok_iff)
  then show thesis using that L1 by blast
qed

lemma stage_proposer_fixed:
  assumes "stage_proposer_block E L b = Ok L'"
  shows "fixed_part L' = fixed_part L"
    "cache_of L' x = Some bs \<Longrightarrow> set bs \<subseteq> set (the (cache_of L x)) \<and> cache_of L x \<noteq> None"
proof -
  obtain pc L1 r where L1: "c_parent_id (b_content b) = Some pc" "record_proposer_block E L b pc = Ok L1"
      "kdeep_parent (metablocks L1) pc CONFIRMATION_DEPTH = Ok r"
      "r = None \<and> L' = L1 \<or> (\<exists>m v. r = Some m \<and> confirm_block E L1 m = Ok (L', v))"
    using assms by (rule stage_proposer_Ok)
  have e: "fixed_part L' = fixed_part L1" "cache_of L' = cache_of L1" using L1(4) confirm_fixed by metis+
  show "fixed_part L' = fixed_part L" using L1(2) e(1) by (elim record_proposer_Ok) simp
  show "set bs \<subseteq> set (the (cache_of L x)) \<and> cache_of L x \<noteq> None" if l: "cache_of L' x = Some bs"
    using L1(2) l e(2) by (elim record_proposer_Ok) metis
qed

section \<open>Heights along a chain\<close>

lemma kdeep_heights:
  assumes "heights_ok ms" and "metablocks_ok E ms" and "get_metablock_from_content_id_as_option ms (mbs_genesis_challenge ms) = None"
    and "get_metablock_from_content_id_as_option ms c = Some pm" and "kdeep_parent ms c n = Ok (Some m)"
  shows "mb_height pm = mb_height m + of_nat (n - 1)"
  using assms(4,5)
proof (induction n arbitrary: c pm)
  case (Suc n)
  obtain p where p: "c_parent_id (b_content (mb_block pm)) = Some p"
      "(if n = 0 then Ok (Some pm) else kdeep_parent ms p n) = Ok (Some m)"
    using Suc.prems by (auto simp: bindR_Ok_iff)
  show ?case
  proof (cases n)
    case (Suc k)
    then have k: "kdeep_parent ms p n = Ok (Some m)" using p(2) by simp
    then obtain qm where q: "get_metablock_from_content_id_as_option ms p = Some qm"
      using Suc by (auto split: option.splits)
    then have po: "parent_of ms (mb_block pm) = Some p" using p(1) assms(3) by (auto simp: parent_of_def)
    have "fmlookup (blocks ms) (mb_proof_id pm) = Some pm" using content_lookup(3) [OF assms(2) Suc.prems(1)] by simp
    then have "mb_height pm = mb_height qm + 1" using assms(1) po q unfolding heights_ok_def by fastforce
    moreover have "mb_height qm = mb_height m + of_nat (n - 1)" by (rule Suc.IH [OF q k])
    ultimately show ?thesis using Suc by (simp add: ac_simps)
  qed (use p in simp)
qed simp

text \<open>What storing a block does to the other entries.\<close>

lemma save_entries:
  assumes "metablocks_ok E ms" and "heights_ok ms" and "fresh_block E ms b" and "parent_known ms b"
  obtains ms' m where "save E ms b = Ok (ms', m)" "metablocks_ok E ms'" "heights_ok ms'" "mb_block m = b"
    "mb_content_id m = Content_get_id E (b_content b)" "mbs_genesis_challenge ms' = mbs_genesis_challenge ms"
    "get_metablock_from_content_id_as_option ms' (mb_content_id m) = Some m"
    "\<forall>c. c \<noteq> mb_content_id m \<longrightarrow> map_option mb_height (get_metablock_from_content_id_as_option ms' c) =
       map_option mb_height (get_metablock_from_content_id_as_option ms c)"
    "\<forall>p m'. fmlookup (blocks ms') p = Some m' \<longrightarrow> m' = m \<or> (\<exists>m0. fmlookup (blocks ms) p = Some m0 \<and>
       mb_block m' = mb_block m0 \<and> mb_height m' = mb_height m0 \<and> mb_content_id m' = mb_content_id m0)"
proof -
  obtain ms' m where s: "save E ms b = Ok (ms', m)" "metablocks_ok E ms'" "heights_ok ms'" "mb_block m = b"
      "metablock_ok E (mb_proof_id m) m" "get_metablock_from_content_id_as_option ms' (mb_content_id m) = Some m"
      "mbs_genesis_challenge ms' = mbs_genesis_challenge ms"
    using save_Ok [OF assms] by blast
  have cid: "mb_content_id m = Content_get_id E (b_content b)" using s(4,5) by (simp add: metablock_ok_def)
  have f: "fmlookup (blocks ms) (Proof_get_id E (b_proof b)) = None" "content_to_proof_map ms (Content_get_id E (b_content b)) = None"
    using assms(3) by (simp_all add: fresh_block_def)
  have "(\<forall>c. c \<noteq> mb_content_id m \<longrightarrow> map_option mb_height (get_metablock_from_content_id_as_option ms' c) =
       map_option mb_height (get_metablock_from_content_id_as_option ms c)) \<and>
     (\<forall>p m'. fmlookup (blocks ms') p = Some m' \<longrightarrow> m' = m \<or> (\<exists>m0. fmlookup (blocks ms) p = Some m0 \<and>
       mb_block m' = mb_block m0 \<and> mb_height m' = mb_height m0 \<and> mb_content_id m' = mb_content_id m0))"
  proof (cases "parent_of ms b")
    case None
    then have m: "m = new_metablock E b 0" "ms' = insert_block ms m"
      using save_no_parent [OF None assms(3)] s(1) by (auto simp: insert_block_def new_metablock_def)
    have fm: "fmlookup (blocks ms) (mb_proof_id m) = None" using f m by (simp add: new_metablock_def)
    show ?thesis using insert_block_lookup [OF assms(1) fm] unfolding m(2)
      by (auto simp: insert_block_def split: if_splits)
  next
    case (Some c)
    then have "contains_content_id ms c" using assms(4) by (simp add: parent_known_def)
    then obtain pm where pm: "get_metablock_from_content_id_as_option ms c = Some pm"
      using content_lookup(1,2) [OF assms(1)] by blast
    have pl: "fmlookup (blocks ms) (mb_proof_id pm) = Some pm" using content_lookup(3) [OF assms(1) pm] by simp
    let ?ms = "push_child ms pm (Proof_get_id E (b_proof b))"
    have m: "m = new_metablock E b (mb_height pm + 1)" "ms' = insert_block ?ms m"
      using save_with_parent [OF Some assms(3,1) pm] s(1) by (auto simp: insert_block_def push_child_def new_metablock_def)
    have fm: "fmlookup (blocks ?ms) (mb_proof_id m) = None" using f pl m by (auto simp: new_metablock_def push_child_def)
    have ok: "metablocks_ok E ?ms" by (rule push_child_ok [OF assms(1) pl])
    have "map_option mb_height (get_metablock_from_content_id_as_option ?ms x) =
        map_option mb_height (get_metablock_from_content_id_as_option ms x)" for x
      unfolding push_child_lookup [OF assms(1) pl] by (cases "get_metablock_from_content_id_as_option ms x") simp_all
    then show ?thesis using insert_block_lookup [OF ok fm] pl unfolding m(2)
      by (auto simp: insert_block_def push_child_def split: if_splits)
  qed
  then show thesis using that [OF s(1-4) cid s(7,6)] by blast
qed

section \<open>The heads follow the stored blocks\<close>

lemma less_succ_le:
  assumes "a < (b :: u64)"
  shows "a + 1 \<le> b" "a \<noteq> - 1"
proof -
  show n: "a \<noteq> - 1" using assms by (metis word_n1_ge leD)
  show "a + 1 \<le> b" using assms unat_succ_u64 [OF n] by (simp add: word_le_nat_alt word_less_nat_alt)
qed

definition heads_track :: "Ledger \<Rightarrow> bool" where
  "heads_track L \<longleftrightarrow> heads_ok L \<and>
     (\<forall>h \<in> set (heads L). h_block_height h \<noteq> - 1 \<and>
        map_option mb_height (get_metablock_from_content_id_as_option (metablocks L) (h_content_id h)) = Some (h_block_height h)) \<and>
     (\<forall>p m. fmlookup (blocks (metablocks L)) p = Some m \<longrightarrow> c_parent_id (b_content (mb_block m)) \<noteq> None \<longrightarrow>
        heads L \<noteq> [] \<and> (mb_height m < h_block_height (hd (heads L)) \<or> mb_content_id m \<in> h_content_id ` set (heads L)))"

lemma heads_track_head:
  assumes "heads_track L" and "h \<in> set (heads L)"
  shows "h_block_height h \<noteq> - 1"
    "map_option mb_height (get_metablock_from_content_id_as_option (metablocks L) (h_content_id h)) = Some (h_block_height h)"
    "h_block_height h \<le> h_block_height (hd (heads L))"
  using assms unfolding heads_track_def heads_ok_def by blast+

lemma heads_track_block:
  assumes "heads_track L" and "fmlookup (blocks (metablocks L)) p = Some m" and "c_parent_id (b_content (mb_block m)) \<noteq> None"
  shows "heads L \<noteq> []" "mb_height m < h_block_height (hd (heads L)) \<or> mb_content_id m \<in> h_content_id ` set (heads L)"
  using assms unfolding heads_track_def by blast+

lemma advance_head_facts:
  fixes c :: ContentId
  assumes "i < length hs"
  defines "x \<equiv> \<lparr>h_block_height = h_block_height (hs ! i) + 1, h_content_id = c\<rparr>"
  shows "set (advance_head hs i c) \<subseteq> insert x (set hs)" "x \<in> set (advance_head hs i c)"
    "h \<in> set hs \<Longrightarrow> h \<noteq> hs ! i \<Longrightarrow> h \<in> set (advance_head hs i c)" "advance_head hs i c \<noteq> []"
proof -
  let ?y = "(hs ! i)\<lparr>h_block_height := h_block_height (hs ! i) + 1, h_content_id := c\<rparr>"
  have y: "?y = x" by (cases "hs ! i") (simp add: x_def)
  have s: "set (advance_head hs i c) = set (hs[i := ?y])"
    using assms(1) by (auto simp del: length_greater_0_conv simp: advance_head_def Let_def set_vec_swap)
  show "set (advance_head hs i c) \<subseteq> insert x (set hs)" unfolding s y by (rule set_update_subset_insert)
  show "x \<in> set (advance_head hs i c)" unfolding s y using assms(1) by (rule set_update_memI)
  then show "advance_head hs i c \<noteq> []" by auto
  show "h \<in> set (advance_head hs i c)" if h: "h \<in> set hs" "h \<noteq> hs ! i"
  proof -
    obtain j where j: "j < length hs" "h = hs ! j" using h(1) by (auto simp: in_set_conv_nth)
    then have "hs[i := ?y] ! j = h" using h(2) by (cases "i = j") auto
    then show ?thesis unfolding s using j(1) by (metis length_list_update nth_mem)
  qed
qed

text \<open>What \<open>heads_track\<close> asks of a head and of a proposer block, by themselves.\<close>

definition head_tracked :: "MetaBlocks \<Rightarrow> Head \<Rightarrow> bool" where
  "head_tracked ms h \<longleftrightarrow> h_block_height h \<noteq> - 1 \<and>
     map_option mb_height (get_metablock_from_content_id_as_option ms (h_content_id h)) = Some (h_block_height h)"

definition block_covered :: "Head list \<Rightarrow> MetaBlock \<Rightarrow> bool" where
  "block_covered hs x \<longleftrightarrow> hs \<noteq> [] \<and> (mb_height x < h_block_height (hd hs) \<or> mb_content_id x \<in> h_content_id ` set hs)"

lemma heads_track_iff:
  "heads_track L \<longleftrightarrow> heads_ok L \<and> (\<forall>h \<in> set (heads L). head_tracked (metablocks L) h) \<and>
     (\<forall>p m. fmlookup (blocks (metablocks L)) p = Some m \<longrightarrow> c_parent_id (b_content (mb_block m)) \<noteq> None \<longrightarrow> block_covered (heads L) m)"
  unfolding heads_track_def head_tracked_def block_covered_def ..

text \<open>The height of a stored block follows that of its parent, in the store and among the heads.\<close>

lemma saved_height:
  assumes "metablocks_ok E ms" and "fresh_block E ms b" and "parent_known ms b" and "save E ms b = Ok (ms', mb)"
    and pc: "c_parent_id (b_content b) = Some pc"
  shows "mb_height mb = 0 \<or> (\<exists>pm. get_metablock_from_content_id_as_option ms pc = Some pm \<and> mb_height mb = mb_height pm + 1)"
proof (cases "parent_of ms b")
  case None
  then show ?thesis using save_no_parent [OF None assms(2)] assms(4) by (auto simp: new_metablock_def)
next
  case (Some c)
  then have c: "c = pc" using pc by (auto simp: parent_of_def split: if_splits)
  then obtain pm where "get_metablock_from_content_id_as_option ms pc = Some pm"
    using assms(3) Some content_lookup(1,2) [OF assms(1), of pc] by (auto simp: parent_known_def)
  then show ?thesis using save_with_parent [OF Some assms(2,1)] c assms(4) by (auto simp: new_metablock_def)
qed

lemma saved_above_head:
  assumes "heads_track L" and "metablocks_ok E (metablocks L)" and "fresh_block E (metablocks L) b"
    and "save E (metablocks L) b = Ok (ms, mb)" and pc: "c_parent_id (b_content b) = Some pc"
    and gen: "get_metablock_from_content_id_as_option (metablocks L) (mbs_genesis_challenge (metablocks L)) = None"
    and h: "h \<in> set (heads L)" "h_content_id h = pc"
  shows "mb_height mb = h_block_height h + 1"
proof -
  have l: "map_option mb_height (get_metablock_from_content_id_as_option (metablocks L) pc) = Some (h_block_height h)"
    using heads_track_head(2) [OF assms(1) h(1)] h(2) by simp
  then have "pc \<noteq> mbs_genesis_challenge (metablocks L)" using gen by auto
  then have po: "parent_of (metablocks L) b = Some pc" using pc by (simp add: parent_of_def)
  obtain pm where pm: "get_metablock_from_content_id_as_option (metablocks L) pc = Some pm" using l by auto
  show ?thesis using save_with_parent [OF po assms(3,2) pm] assms(4) l pm by (auto simp: new_metablock_def)
qed

lemma saved_below_first_head:
  assumes "heads_track L" and "metablocks_ok E (metablocks L)" and "fresh_block E (metablocks L) b" and "parent_known (metablocks L) b"
    and "save E (metablocks L) b = Ok (ms, mb)" and "c_parent_id (b_content b) = Some pc"
    and ppr: "\<And>pm. get_metablock_from_content_id_as_option (metablocks L) pc = Some pm \<Longrightarrow> c_parent_id (b_content (mb_block pm)) \<noteq> None"
    and n: "\<forall>h \<in> set (heads L). h_content_id h \<noteq> pc"
  shows "heads L = [] \<or> mb_height mb \<le> h_block_height (hd (heads L))"
  using saved_height [OF assms(2-6)]
proof
  assume "\<exists>pm. get_metablock_from_content_id_as_option (metablocks L) pc = Some pm \<and> mb_height mb = mb_height pm + 1"
  then obtain pm where p: "get_metablock_from_content_id_as_option (metablocks L) pc = Some pm" "mb_height mb = mb_height pm + 1" by blast
  have l: "fmlookup (blocks (metablocks L)) (mb_proof_id pm) = Some pm" "mb_content_id pm = pc"
    using content_lookup(3) [OF assms(2) p(1)] by auto
  have "mb_height pm < h_block_height (hd (heads L))"
    using heads_track_block(2) [OF assms(1) l(1) ppr [OF p(1)]] n l(2) by auto
  then show ?thesis using p(2) less_succ_le by simp
qed simp

text \<open>A head that moves up to a new block: what it covered before is below the first head.\<close>

lemma advance_covers:
  assumes ok: "metablocks_ok E ms" and hok: "heads_ok L'" and hs: "heads L' = advance_head hs i c" and i: "i < length hs"
    and tracked: "\<And>h. h \<in> set hs \<Longrightarrow> head_tracked ms h"
    and y: "fmlookup (blocks ms) p = Some y" "mb_content_id y = c \<or> block_covered hs y"
  shows "block_covered (heads L') y"
proof -
  let ?h = "hs ! i"
  have hi: "?h \<in> set hs" using i by simp
  note a = advance_head_facts [where c = c, OF i, folded hs]
  have le: "h_block_height h \<le> h_block_height (hd (heads L'))" if "h \<in> set (heads L')" for h
    using hok that unfolding heads_ok_def by blast
  have top: "h_block_height ?h \<noteq> - 1" using tracked [OF hi] by (simp add: head_tracked_def)
  have lt: "h_block_height ?h < h_block_height (hd (heads L'))"
    using le [OF a(2)] succ_le_u64(2) [OF top, of "h_block_height ?h"] by simp
  have hd_le: "h_block_height (hd hs) \<le> h_block_height (hd (heads L'))"
  proof (cases "hd hs = ?h")
    case False
    have "hd hs \<in> set hs" using i by (intro hd_in_set) auto
    then show ?thesis using le a(3) False by blast
  qed (use lt in simp)
  have "mb_height y < h_block_height (hd (heads L'))" if no: "mb_content_id y \<notin> h_content_id ` set (heads L')"
  proof -
    have "mb_content_id y \<noteq> c" using no a(2) by force
    then consider "mb_height y < h_block_height (hd hs)" | h where "h \<in> set hs" "h_content_id h = mb_content_id y"
      using y(2) by (auto simp: block_covered_def)
    then show ?thesis
    proof cases
      case (2 h)
      then have "h = ?h" using a(3) [of h] no by (metis image_eqI)
      moreover have "get_metablock_from_content_id_as_option ms (mb_content_id y) = Some y"
        using metablocks_okD [OF ok y(1)] y(1) by (simp add: get_metablock_from_content_id_as_option_def)
      ultimately have "mb_height y = h_block_height ?h" using tracked [OF 2(1)] 2(2) by (simp add: head_tracked_def)
      then show ?thesis using lt by simp
    qed (use hd_le in \<open>auto intro: less_le_trans\<close>)
  qed
  then show ?thesis using a(4) by (auto simp: block_covered_def)
qed

text \<open>Storing a proposer block and moving or adding its head keeps the heads and the store in step.\<close>

lemma record_heads_track:
  assumes tr: "heads_track L" and ok: "metablocks_ok E (metablocks L)" "heights_ok (metablocks L)"
    and fresh: "fresh_block E (metablocks L) b" and known: "parent_known (metablocks L) b"
    and sv: "save E (metablocks L) b = Ok (ms, mb)" and pc: "c_parent_id (b_content b) = Some pc"
    and gen: "get_metablock_from_content_id_as_option (metablocks L) (mbs_genesis_challenge (metablocks L)) = None"
    and ppr: "\<And>pm. get_metablock_from_content_id_as_option (metablocks L) pc = Some pm \<Longrightarrow> c_parent_id (b_content (mb_block pm)) \<noteq> None"
    and top: "mb_height mb \<noteq> - 1"
  shows "heads_track (update_heads (L\<lparr>metablocks := ms\<rparr>) pc (mb_content_id mb) (mb_height mb))" (is "heads_track ?L'")
proof -
  obtain ms' m' where s: "save E (metablocks L) b = Ok (ms', m')" and ok': "metablocks_ok E ms'"
    and cid: "mb_content_id m' = Content_get_id E (b_content b)"
    and look: "get_metablock_from_content_id_as_option ms' (mb_content_id m') = Some m'"
    and other: "\<forall>c. c \<noteq> mb_content_id m' \<longrightarrow> map_option mb_height (get_metablock_from_content_id_as_option ms' c) =
       map_option mb_height (get_metablock_from_content_id_as_option (metablocks L) c)"
    and old: "\<forall>p x. fmlookup (blocks ms') p = Some x \<longrightarrow> x = m' \<or> (\<exists>m0. fmlookup (blocks (metablocks L)) p = Some m0 \<and>
       mb_block x = mb_block m0 \<and> mb_height x = mb_height m0 \<and> mb_content_id x = mb_content_id m0)"
    by (rule save_entries [OF ok fresh known])
  have e: "ms' = ms" "m' = mb" using s sv by simp_all
  have nc: "get_metablock_from_content_id_as_option (metablocks L) (mb_content_id mb) = None"
    using fresh cid e by (simp add: fresh_block_def get_metablock_from_content_id_as_option_def)
  have keep: "head_tracked ms h" if "h \<in> set (heads L)" for h
    using heads_track_head [OF tr that] other [rule_format, of "h_content_id h"] nc e
    by (cases "h_content_id h = mb_content_id mb") (auto simp: head_tracked_def)
  have cover: "x = mb \<or> block_covered (heads L) x"
    if "fmlookup (blocks ms) p = Some x" "c_parent_id (b_content (mb_block x)) \<noteq> None" for p x
    using old [rule_format, of p x] that heads_track_block [OF tr, of p] e unfolding block_covered_def by metis
  have new: "head_tracked ms \<lparr>h_block_height = mb_height mb, h_content_id = mb_content_id mb\<rparr>"
    using look e top by (simp add: head_tracked_def)
  have par: "mb_height mb = h_block_height h + 1" if "h \<in> set (heads L)" "h_content_id h = pc" for h
    using that by (rule saved_above_head [OF tr ok(1) fresh sv pc gen])
  have hok: "heads_ok ?L'"
    by (rule update_heads_ok)
      (use tr saved_below_first_head [OF tr ok(1) fresh known sv pc ppr] heads_track_head(1) [OF tr] in \<open>auto simp: heads_track_def heads_ok_def\<close>)
  have ms': "metablocks ?L' = ms" by (simp add: update_heads_def split: option.splits)
  show ?thesis
  proof (cases "position (\<lambda>h. h_content_id h = pc) (heads L)")
    case None
    then have "heads ?L' = heads L @ [\<lparr>h_block_height = mb_height mb, h_content_id = mb_content_id mb\<rparr>]" by (simp add: update_heads_def)
    then show ?thesis using hok keep new cover unfolding heads_track_iff ms' by (fastforce simp: block_covered_def)
  next
    case (Some i)
    have i: "i < length (heads L)" "h_content_id (heads L ! i) = pc" using Some by (simp_all add: position_Some_iff)
    have hs: "heads ?L' = advance_head (heads L) i (mb_content_id mb)" using Some by (simp add: update_heads_def)
    have "head_tracked ms h" if "h \<in> set (heads ?L')" for h
      using that advance_head_facts(1) [OF i(1), of "mb_content_id mb"] keep new par [OF nth_mem [OF i(1)] i(2)] unfolding hs by auto
    then show ?thesis
      using hok cover advance_covers [OF ok' [unfolded e(1)] hok hs i(1) keep] unfolding heads_track_iff ms' by blast
  qed
qed

section \<open>Staging keeps the ledger consistent\<close>

lemma prune_one_ok:
  assumes "metablocks_ok E (metablocks L)" and "prune_one L p = Ok (L', m)"
  shows "metablocks_ok E (metablocks L')" "heads L' = heads L"
proof -
  obtain ms where r: "remove (metablocks L) p = Ok (ms, m)"
      and t: "remove_from_timeslot (L\<lparr>metablocks := ms\<rparr>) (p_timeslot (b_proof (mb_block m))) (mb_proof_id m) = Ok L'"
    using assms(2) by (auto simp: prune_one_def bindR_Ok_iff)
  have "metablocks L' = ms \<and> heads L' = heads L"
    using t by (auto simp: remove_from_timeslot_def bindR_Ok_iff split: option.splits)
  then show "metablocks_ok E (metablocks L')" "heads L' = heads L" using remove_ok [OF assms(1) r] by simp_all
qed

definition store_and_heads_ok :: "'z blocklib_scheme \<Rightarrow> Ledger \<Rightarrow> bool" where
  "store_and_heads_ok E L \<longleftrightarrow> metablocks_ok E (metablocks L) \<and> heads_ok L"

lemma prune_store_and_heads:
  assumes "prune_blocks_recursive L ps = Ok L'" and "store_and_heads_ok E L"
  shows "store_and_heads_ok E L'"
  using _ _ assms
proof (rule prune_invariant)
  show "store_and_heads_ok E L1" if "store_and_heads_ok E La" "prune_one La p = Ok (L1, m)" for La p L1 m
    using that prune_one_ok [of E La p L1 m] by (simp add: store_and_heads_ok_def heads_ok_def)
  show "store_and_heads_ok E L1" if "store_and_heads_ok E La" "prune_branch La c = Ok L1" for La c L1
    using that prune_branch_heads_ok [of La c L1] prune_branch_frame [of La c L1] by (simp add: store_and_heads_ok_def)
qed

lemma confirm_store_and_heads:
  assumes "confirm_block E L m = Ok (L', r)" and "store_and_heads_ok E L"
  shows "store_and_heads_ok E L'"
proof -
  have u: "store_and_heads_ok E (update_solution_range L (mb_height m))"
    using assms(2) by (simp add: store_and_heads_ok_def heads_ok_def)
  have f: "store_and_heads_ok E L2" if "same_but_applied L1 L2" "store_and_heads_ok E L1" for L1 L2
    using that same_fields(2,4) [of L1 L2] by (simp add: store_and_heads_ok_def heads_ok_def)
  show ?thesis
  proof (cases r)
    case True
    then have "confirm_block E L m = Ok (L', True)" using assms(1) by simp
    then obtain L4 where L4: "same_but_applied (update_solution_range L (mb_height m)) L4"
        "prune_siblings (L4\<lparr>confirmed_blocks := insert (mb_proof_id m) (confirmed_blocks L4)\<rparr>) m = Ok L'"
      by (rule confirm_True_parts)
    have st: "store_and_heads_ok E (L4\<lparr>confirmed_blocks := x\<rparr>)" for x
      using f [OF L4(1) u] by (simp add: store_and_heads_ok_def heads_ok_def)
    show ?thesis using prune_siblings_Ok [OF L4(2)]
      by (elim disjE exE) (simp add: st, erule prune_store_and_heads, rule st)
  next
    case False
    then show ?thesis using assms confirm_False [of E L m L'] u by auto
  qed
qed

lemma staged_parent_is_proposer:
  assumes ok: "metablocks_ok E ms" "heights_ok ms" and fresh: "fresh_block E ms b" and known: "parent_known ms b"
    and sv: "save E ms b = Ok (ms1, mb)" and k: "kdeep_parent ms1 pc (Suc n) = Ok r"
    and l: "get_metablock_from_content_id_as_option ms pc = Some pm"
  shows "c_parent_id (b_content (mb_block pm)) \<noteq> None"
proof -
  obtain ms' m where s: "save E ms b = Ok (ms', m)" and ok': "metablocks_ok E ms'" and "heights_ok ms'" "mb_block m = b"
    and cid: "mb_content_id m = Content_get_id E (b_content b)" and "mbs_genesis_challenge ms' = mbs_genesis_challenge ms"
      "get_metablock_from_content_id_as_option ms' (mb_content_id m) = Some m"
    and other: "\<forall>c. c \<noteq> mb_content_id m \<longrightarrow> map_option mb_height (get_metablock_from_content_id_as_option ms' c) =
       map_option mb_height (get_metablock_from_content_id_as_option ms c)"
    and old: "\<forall>p m'. fmlookup (blocks ms') p = Some m' \<longrightarrow> m' = m \<or> (\<exists>m0. fmlookup (blocks ms) p = Some m0 \<and>
       mb_block m' = mb_block m0 \<and> mb_height m' = mb_height m0 \<and> mb_content_id m' = mb_content_id m0)"
    by (rule save_entries [OF ok fresh known])
  have e: "ms1 = ms'" using s sv by simp
  have "get_metablock_from_content_id_as_option ms (mb_content_id m) = None"
    using fresh cid by (simp add: fresh_block_def get_metablock_from_content_id_as_option_def)
  then have ne: "pc \<noteq> mb_content_id m" using l by auto
  then have "map_option mb_height (get_metablock_from_content_id_as_option ms' pc) = Some (mb_height pm)" using other l by simp
  then obtain x where x: "get_metablock_from_content_id_as_option ms' pc = Some x" by auto
  then have px: "c_parent_id (b_content (mb_block x)) \<noteq> None" using k e by (auto simp: bindR_Ok_iff)
  have lx: "mb_content_id x = pc" "fmlookup (blocks ms') (mb_proof_id x) = Some x" using content_lookup(3) [OF ok' x] by auto
  then obtain m0 where m0: "fmlookup (blocks ms) (mb_proof_id x) = Some m0" "mb_block x = mb_block m0" "mb_content_id m0 = pc"
    using old ne by metis
  have "get_metablock_from_content_id_as_option ms pc = Some m0"
    using metablocks_okD(2) [OF ok(1) m0(1)] m0(1,3) by (simp add: get_metablock_from_content_id_as_option_def)
  then show ?thesis using px m0(2) l by simp
qed

definition heights_bounded :: "MetaBlocks \<Rightarrow> bool" where
  "heights_bounded ms \<longleftrightarrow> (\<forall>p m. fmlookup (blocks ms) p = Some m \<longrightarrow> mb_height m < - 2)"

lemma save_height:
  assumes "metablocks_ok E ms" and "fresh_block E ms b" and "parent_known ms b" and "heights_bounded ms"
    and "save E ms b = Ok (ms', mb)"
  shows "mb_height mb \<noteq> - 1"
proof (cases "parent_of ms b")
  case None
  then show ?thesis using save_no_parent [OF None assms(2)] assms(5) by (auto simp: new_metablock_def)
next
  case (Some c)
  then obtain pm where pm: "get_metablock_from_content_id_as_option ms c = Some pm"
    using assms(3) content_lookup(1,2) [OF assms(1), of c] by (auto simp: parent_known_def)
  then have "mb_height pm < - 2"
    using assms(4) content_lookup(3) [OF assms(1) pm] by (auto simp: heights_bounded_def)
  then have "mb_height pm + 1 \<le> - 2" by (rule less_succ_le)
  then have "mb_height pm + 1 < - 1" by (rule le_less_trans) simp
  then have "mb_height pm + 1 \<noteq> - 1" by (rule less_imp_neq)
  then show ?thesis using save_with_parent [OF Some assms(2,1) pm] assms(5) by (auto simp: new_metablock_def)
qed

section \<open>Ending of the cached rounds\<close>

text \<open>A rank that falls from a parent to its cached children: no block is its own descendant.\<close>

definition cache_ranked :: "'z blocklib_scheme \<Rightarrow> (ContentId \<Rightarrow> nat) \<Rightarrow> Ledger \<Rightarrow> bool" where
  "cache_ranked E rank L \<longleftrightarrow>
     (\<forall>c bs b. cache_of L c = Some bs \<longrightarrow> b \<in> set bs \<longrightarrow> rank (Content_get_id E (b_content b)) < rank c)"

lemma cache_ranked_stage:
  assumes "cache_ranked E rank L" and "stage_proposer_block E L b = Ok L'"
  shows "cache_ranked E rank L'"
  unfolding cache_ranked_def
proof (intro allI impI)
  fix c bs x assume c: "cache_of L' c = Some bs" and x: "x \<in> set bs"
  obtain bs0 where "cache_of L c = Some bs0" "x \<in> set bs0"
    using stage_proposer_fixed(2) [OF assms(2) c] x by auto
  then show "rank (Content_get_id E (b_content x)) < rank c" using assms(1) unfolding cache_ranked_def by blast
qed

lemma cached_children_ranked:
  assumes "cache_ranked E rank L" and "x \<in> set (cached_children L c)"
  shows "rank (Content_get_id E (b_content x)) < rank c"
proof (cases "cache_of L c")
  case None
  then show ?thesis using assms(2) by (simp add: cached_children_def cache_of_def)
next
  case (Some bs)
  then have "x \<in> set bs" using assms(2) by (simp add: cached_children_def cache_of_def)
  then show ?thesis using assms(1) Some unfolding cache_ranked_def by blast
qed

lemma stage_child_ranked:
  assumes "cache_ranked E rank L" and "\<forall>x \<in> set acc. rank (Content_get_id E (b_content x)) < n"
    and "rank (Content_get_id E (b_content b)) \<le> n" and "stage_child E (L, acc) b = Ok (L', acc')"
  shows "cache_ranked E rank L' \<and> (\<forall>x \<in> set acc'. rank (Content_get_id E (b_content x)) < n)"
proof -
  obtain v where v: "(if v then bindR (stage_proposer_block E L b) (\<lambda>L. Ok (L, acc @ cached_children L (Content_get_id E (b_content b))))
      else Ok (L, acc)) = Ok (L', acc')"
    using assms(4) by (auto simp: stage_child_def bindR_Ok_iff)
  show ?thesis
  proof (cases v)
    case True
    then have st: "stage_proposer_block E L b = Ok L'" "acc' = acc @ cached_children L' (Content_get_id E (b_content b))"
      using v by (auto simp: bindR_Ok_iff)
    have r: "cache_ranked E rank L'" by (rule cache_ranked_stage [OF assms(1) st(1)])
    show ?thesis using r st(2) assms(2,3) cached_children_ranked [OF r] by fastforce
  qed (use v assms(1,2) in simp)
qed

lemma stage_round_ranked:
  assumes "foldR (stage_child E) (L, acc) bs = Ok (L', acc')" and "cache_ranked E rank L"
    and "\<forall>x \<in> set acc. rank (Content_get_id E (b_content x)) < n" and "\<forall>b \<in> set bs. rank (Content_get_id E (b_content b)) \<le> n"
  shows "cache_ranked E rank L' \<and> (\<forall>x \<in> set acc'. rank (Content_get_id E (b_content x)) < n)"
proof -
  let ?P = "\<lambda>s. cache_ranked E rank (fst s) \<and> (\<forall>x \<in> set (snd s). rank (Content_get_id E (b_content x)) < n)"
  have "?P (L', acc')"
  proof (rule foldR_invariant [OF assms(1), where P = ?P])
    show "?P (L, acc)" using assms(2,3) by simp
    fix s b s' assume "b \<in> set bs" "?P s" "stage_child E s b = Ok s'"
    then show "?P s'" using stage_child_ranked [of E rank "fst s" "snd s" n b "fst s'" "snd s'"] assms(4) by auto
  qed
  then show ?thesis by simp
qed

lemma stage_rounds_end:
  assumes "cache_ranked E rank L" and "\<forall>b \<in> set bs. rank (Content_get_id E (b_content b)) < n"
  shows "stage_rounds E L bs \<noteq> None"
  using assms
proof (induction n arbitrary: L bs)
  case 0
  then have "bs = []" by (cases bs) auto
  then show ?case by (simp add: stage_rounds.simps)
next
  case (Suc n)
  show ?case
  proof (cases "foldR (stage_child E) (L, []) bs")
    case (Inl e)
    then show ?thesis by (subst stage_rounds.simps) auto
  next
    case (Inr s)
    obtain L' acc where s: "s = (L', acc)" by (cases s)
    have "\<forall>b \<in> set bs. rank (Content_get_id E (b_content b)) \<le> n" using Suc.prems(2) by auto
    then have "cache_ranked E rank L' \<and> (\<forall>x \<in> set acc. rank (Content_get_id E (b_content x)) < n)"
      using stage_round_ranked [OF Inr [unfolded s] Suc.prems(1), of n] by simp
    then have "stage_rounds E L' acc \<noteq> None" using Suc.IH by blast
    then show ?thesis using Inr s by (subst stage_rounds.simps) auto
  qed
qed

end
