(* ===== verification/Ledger_Properties.thy ===== *)
theory Ledger_Properties
  imports Ledger_Staging
begin

text \<open>
  What the ledger promises about blocks on their way in: local blocks pass validation everywhere,
  gossip is checked once and only sound blocks pass, staging keeps the block store and the heads
  consistent and confirms exactly the block that became \<open>k\<close> deep, cached descendants are staged in
  finitely many rounds, and a step of time does what it should.
\<close>

section \<open>Local blocks\<close>


section \<open>Gossip\<close>

lemma seen_frame [simp]:
  "proposer_parent (L\<lparr>recent_proof_ids := x\<rparr>) b = proposer_parent L b"
  "check_parent (L\<lparr>recent_proof_ids := x\<rparr>) b c = check_parent L b c"
  "check_known_parent (L\<lparr>recent_proof_ids := x\<rparr>) b = check_known_parent L b"
  "validate_block E (L\<lparr>recent_proof_ids := x\<rparr>) b = validate_block E L b"
proof -
  show p: "proposer_parent (L\<lparr>recent_proof_ids := x\<rparr>) b = proposer_parent L b"
    and c: "check_parent (L\<lparr>recent_proof_ids := x\<rparr>) b c = check_parent L b c" for c
    by (simp_all add: proposer_parent_def check_parent_def cong: if_cong split: option.split)
  show "check_known_parent (L\<lparr>recent_proof_ids := x\<rparr>) b = check_known_parent L b"
    by (simp add: check_known_parent_def p c split: option.split)
qed (simp add: validate_block_def)

text \<open>
  A proof is looked at once: after a block came in by gossip, every block with the same proof is
  refused by gossip and by sync, without any effect.
\<close>

theorem gossip_seen_once:
  assumes "validate_block_from_gossip E L b = Ok (L', r)" and "Proof_get_id E (b_proof b') = Proof_get_id E (b_proof b)"
  shows "validate_block_from_gossip E L' b' = Ok (L', False) \<and> validate_block_from_sync E L' b' t = Ok (L', False)"
proof -
  have "Proof_get_id E (b_proof b) \<in> recent_proof_ids L'"
    using assms(1) by (auto simp: validate_block_from_gossip_def Let_def cache_before_sync_def
        cache_remote_proposer_block_def bindR_Ok_iff split: if_splits)
  then show ?thesis using assms(2) by (simp add: validate_block_from_gossip_def validate_block_from_sync_def Let_def)
qed

text \<open>
  A block accepted from gossip is new, its timeslot has arrived, it is valid, and its parent, unless
  it is the genesis, is stored, from an earlier timeslot and at most \<open>CONFIRMATION_DEPTH\<close> below
  the longest chain's head; nothing but the set of known proofs has changed.
\<close>

theorem gossip_accepts:
  assumes "validate_block_from_gossip E L b = Ok (L', True)"
  shows "Proof_get_id E (b_proof b) \<notin> recent_proof_ids L \<and> timer_is_running L \<and>
    p_timeslot (b_proof b) \<le> current_timeslot L \<and> validate_block E L b = Ok True \<and>
    L' = L\<lparr>recent_proof_ids := insert (Proof_get_id E (b_proof b)) (recent_proof_ids L)\<rparr> \<and>
    (\<forall>c. proposer_parent L b = Some c \<longrightarrow> (\<exists>pm h hs. get_metablock_from_content_id (metablocks L) c = Ok pm \<and>
       p_timeslot (b_proof (mb_block pm)) < p_timeslot (b_proof b) \<and> heads L = h # hs \<and>
       h_block_height h \<le> mb_height pm + of_nat CONFIRMATION_DEPTH))"
proof -
  let ?L = "L\<lparr>recent_proof_ids := insert (Proof_get_id E (b_proof b)) (recent_proof_ids L)\<rparr>"
  have new: "Proof_get_id E (b_proof b) \<notin> recent_proof_ids L"
    using assms by (auto simp: validate_block_from_gossip_def Let_def split: if_splits)
  have run: "timer_is_running L" "p_timeslot (b_proof b) \<le> current_timeslot L"
    using assms new by (auto simp: validate_block_from_gossip_def Let_def bindR_Ok_iff split: if_splits)
  have acc: "check_known_parent L b = Ok True" "validate_block E L b = Ok True" "L' = ?L"
    using assms new run by (auto simp: validate_block_from_gossip_def Let_def bindR_Ok_iff split: if_splits)
  have "\<exists>pm h hs. get_metablock_from_content_id (metablocks L) c = Ok pm \<and>
       p_timeslot (b_proof (mb_block pm)) < p_timeslot (b_proof b) \<and> heads L = h # hs \<and>
       h_block_height h \<le> mb_height pm + of_nat CONFIRMATION_DEPTH" if "proposer_parent L b = Some c" for c
    using acc(1) that by (cases "heads L")
      (auto simp: check_known_parent_def check_parent_def bindR_Ok_iff index_def not_le not_less split: if_splits)
  then show ?thesis using new run acc by blast
qed

text \<open>
  The early window is not what \<open>MAX_EARLY_TIMESLOTS\<close> suggests: from timeslot 10 on, a block from any
  future timeslot is kept for later, however far ahead; before that, the subtraction wraps around
  and every early block below the wrapped bound is dropped.
\<close>

theorem gossip_early_window:
  assumes "Proof_get_id E (b_proof b) \<notin> recent_proof_ids L" and "timer_is_running L"
    and "current_timeslot L < p_timeslot (b_proof b)"
  shows "\<exists>L'. validate_block_from_gossip E L b = Ok (L', False) \<and>
    early_blocks_by_timeslot L' =
      (if MAX_EARLY_TIMESLOTS \<le> current_timeslot L \<or> current_timeslot L - MAX_EARLY_TIMESLOTS \<le> p_timeslot (b_proof b)
       then entry_push (early_blocks_by_timeslot L) (p_timeslot (b_proof b)) b
       else early_blocks_by_timeslot L)"
proof -
  have "current_timeslot L - MAX_EARLY_TIMESLOTS \<le> p_timeslot (b_proof b)" if "MAX_EARLY_TIMESLOTS \<le> current_timeslot L"
  proof -
    have "unat (current_timeslot L - MAX_EARLY_TIMESLOTS) \<le> unat (current_timeslot L)" using that by (simp add: unat_sub)
    then show ?thesis using assms(3) by (simp add: word_le_nat_alt word_less_nat_alt)
  qed
  then show ?thesis using assms by (auto simp: validate_block_from_gossip_def Let_def)
qed

text \<open>
  A peer can stop a node: a new block for the current or a past timeslot whose parent is unknown
  makes gossip validation panic.
\<close>

theorem gossip_unknown_parent_panics:
  assumes "Proof_get_id E (b_proof b) \<notin> recent_proof_ids L" and "timer_is_running L"
    and "p_timeslot (b_proof b) \<le> current_timeslot L" and "current_timeslot L < - MAX_LATE_TIMESLOTS"
    and "proposer_parent L b = Some c" and "\<not> contains_content_id (metablocks L) c"
  shows "\<exists>e. validate_block_from_gossip E L b = Panic e"
proof -
  have "unat (current_timeslot L) + 10 < 2 ^ 64"
    using assms(4) by (simp add: MAX_LATE_TIMESLOTS_def word_less_nat_alt)
  then have "unat (current_timeslot L + MAX_LATE_TIMESLOTS) = unat (current_timeslot L) + 10"
    by (simp add: MAX_LATE_TIMESLOTS_def unat_word_ariths)
  then have "\<not> current_timeslot L + MAX_LATE_TIMESLOTS < p_timeslot (b_proof b)"
    using assms(3) by (simp add: word_less_nat_alt word_le_nat_alt)
  then show ?thesis using assms by (simp add: validate_block_from_gossip_def check_known_parent_def Let_def not_less)
qed

section \<open>Staging\<close>

lemma staged_height:
  assumes "metablocks_ok E ms" and "heights_ok ms" and "fresh_block E ms b" and "parent_known ms b"
    and "get_metablock_from_content_id_as_option ms (mbs_genesis_challenge ms) = None"
    and "Content_get_id E (b_content b) \<noteq> mbs_genesis_challenge ms"
    and "save E ms b = Ok (ms1, mb)" and "c_parent_id (b_content b) = Some pc"
    and "kdeep_parent ms1 pc CONFIRMATION_DEPTH = Ok (Some m)"
  shows "mb_height mb = mb_height m + of_nat CONFIRMATION_DEPTH"
proof -
  obtain ms' m' where s: "save E ms b = Ok (ms', m')" and ok: "metablocks_ok E ms'" "heights_ok ms'" and b: "mb_block m' = b"
    and cid: "mb_content_id m' = Content_get_id E (b_content b)" and g: "mbs_genesis_challenge ms' = mbs_genesis_challenge ms"
    and look: "get_metablock_from_content_id_as_option ms' (mb_content_id m') = Some m'"
    and other: "\<forall>c. c \<noteq> mb_content_id m' \<longrightarrow> map_option mb_height (get_metablock_from_content_id_as_option ms' c) =
       map_option mb_height (get_metablock_from_content_id_as_option ms c)"
    and "\<forall>p x. fmlookup (blocks ms') p = Some x \<longrightarrow> x = m' \<or> (\<exists>m0. fmlookup (blocks ms) p = Some m0 \<and>
       mb_block x = mb_block m0 \<and> mb_height x = mb_height m0 \<and> mb_content_id x = mb_content_id m0)"
    by (rule save_entries [OF assms(1-4)])
  have e: "ms1 = ms'" "mb = m'" using s assms(7) by simp_all
  have gen: "get_metablock_from_content_id_as_option ms' (mbs_genesis_challenge ms') = None"
    using other [rule_format, of "mbs_genesis_challenge ms"] assms(5,6) cid g by simp
  obtain pm where pm: "get_metablock_from_content_id_as_option ms' pc = Some pm"
    using assms(9) e by (auto simp: CONFIRMATION_DEPTH_def numeral_eq_Suc split: option.splits)
  have h: "mb_height pm = mb_height m + of_nat (CONFIRMATION_DEPTH - 1)"
    using kdeep_heights [OF ok(2,1) gen pm] assms(9) e by simp
  have "parent_of ms' (mb_block mb) = Some pc" using assms(8) pm gen b e by (auto simp: parent_of_def)
  moreover have "fmlookup (blocks ms') (mb_proof_id mb) = Some mb" using content_lookup(3) [OF ok(1) look] e by simp
  ultimately have "mb_height mb = mb_height pm + 1" using ok(2) pm unfolding heights_ok_def by fastforce
  then show ?thesis using h by (simp add: CONFIRMATION_DEPTH_def ac_simps)
qed

lemma claim_txs_with:
  "foldl claim_tx L ids = L\<lparr>unclaimed_tx_ids := unclaimed_tx_ids L - {i \<in> set ids. txs L i \<noteq> None},
     unknown_tx_ids := unknown_tx_ids L \<union> {i \<in> set ids. txs L i = None}\<rparr>"
proof (induction ids arbitrary: L)
  case (Cons i ids)
  have t: "txs (claim_tx L i) = txs L" by (simp add: claim_tx_def)
  have "{j. (j = i \<or> j \<in> set ids) \<and> txs L j = None} = insert i {j \<in> set ids. txs L j = None}" if "txs L i = None"
    using that by auto
  moreover have "{j. (j = i \<or> j \<in> set ids) \<and> txs L j = None} = {j \<in> set ids. txs L j = None}" if "txs L i \<noteq> None"
    using that by auto
  moreover have "A - {i} - {j \<in> set ids. \<exists>y. txs L j = Some y} = A - {j. (j = i \<or> j \<in> set ids) \<and> (\<exists>y. txs L j = Some y)}"
    if "txs L i \<noteq> None" for A using that by auto
  moreover have "{j. (j = i \<or> j \<in> set ids) \<and> (\<exists>y. txs L j = Some y)} = {j \<in> set ids. \<exists>y. txs L j = Some y}" if "txs L i = None"
    using that by auto
  ultimately show ?case using Cons.IH [of "claim_tx L i"] unfolding t by (simp add: claim_tx_def)
qed simp

lemma stage_tx_fixed:
  assumes "stage_tx_block E L b = Ok L'"
  shows "fixed_part L' = fixed_part L"
  using assms
  by (auto simp: stage_tx_block_def Let_def bindR_Ok_iff claim_txs_with fixed_part_def add_block_to_timeslot_def split: if_splits)

text \<open>
  \<^bold>\<open>C36\<close>.  Staging a new proposer block with a known parent keeps the block store consistent and the head of a
  longest branch in front, also through the confirmation and pruning that it triggers.
\<close>

theorem stage_proposer_keeps:
  assumes "metablocks_ok E (metablocks L)" and "heights_ok (metablocks L)" and "heads_track L"
    and "fresh_block E (metablocks L) b" and "parent_known (metablocks L) b" and "heights_bounded (metablocks L)"
    and "get_metablock_from_content_id_as_option (metablocks L) (mbs_genesis_challenge (metablocks L)) = None"
    and "stage_proposer_block E L b = Ok L'"
  shows "metablocks_ok E (metablocks L') \<and> heads_ok L'"
proof -
  obtain pc L1 r where L1: "c_parent_id (b_content b) = Some pc" "record_proposer_block E L b pc = Ok L1"
      "kdeep_parent (metablocks L1) pc CONFIRMATION_DEPTH = Ok r"
      "r = None \<and> L' = L1 \<or> (\<exists>m v. r = Some m \<and> confirm_block E L1 m = Ok (L', v))"
    using assms(8) by (rule stage_proposer_Ok)
  obtain mb where mb: "save E (metablocks L) b = Ok (metablocks L1, mb)"
      "heads L1 = heads (update_heads L pc (mb_content_id mb) (mb_height mb))"
    using L1(2) by (rule record_proposer_Ok) blast
  have ok: "metablocks_ok E (metablocks L1)" using save_Ok [OF assms(1,2,4,5)] mb(1) by auto
  have k: "kdeep_parent (metablocks L1) pc (Suc 5) = Ok r" using L1(3) by (simp add: CONFIRMATION_DEPTH_def)
  have "heads_track (update_heads (L\<lparr>metablocks := metablocks L1\<rparr>) pc (mb_content_id mb) (mb_height mb))"
    by (rule record_heads_track [OF assms(3,1,2,4,5) mb(1) L1(1) assms(7)])
      (rule staged_parent_is_proposer [OF assms(1,2,4,5) mb(1) k], assumption,
        rule save_height [OF assms(1,4,5,6) mb(1)])
  then have "heads_ok L1"
    using mb(2) by (auto simp: heads_track_def heads_ok_def update_heads_def split: option.splits)
  then have "store_and_heads_ok E L1" using ok by (simp add: store_and_heads_ok_def)
  then have "store_and_heads_ok E L'" using L1(4) confirm_store_and_heads [of E L1 _ L'] by blast
  then show ?thesis by (simp add: store_and_heads_ok_def)
qed


text \<open>
  \<^bold>\<open>C38\<close>.  Staging cached descendants ends whenever no cached block is its own descendant.
\<close>

theorem cached_children_end:
  assumes "cache_ranked E rank L"
  shows "\<exists>r. stage_cached_children E L c = Some r"
proof -
  have "\<forall>b \<in> set (cached_children L c). rank (Content_get_id E (b_content b)) < rank c"
    using cached_children_ranked [OF assms] by blast
  then show ?thesis using stage_rounds_end [OF assms] by (auto simp: stage_cached_children_def)
qed

text \<open>
  A staged transaction block is stored and is either claimed already or available to the next
  proposer; each transaction it refers to is known and no longer offered, or noted as unknown.
\<close>

theorem stage_tx_block_tracks:
  assumes "metablocks_ok E (metablocks L)" and "heights_ok (metablocks L)" and "fresh_block E (metablocks L) b"
    and "c_parent_id (b_content b) = None"
  shows "\<exists>L'. stage_tx_block E L b = Ok L' \<and> metablocks_ok E (metablocks L') \<and> heights_ok (metablocks L') \<and>
    contains_content_id (metablocks L') (Content_get_id E (b_content b)) \<and>
    Content_get_id E (b_content b) \<notin> unknown_tx_block_ids L' \<and>
    (Content_get_id E (b_content b) \<in> unknown_tx_block_ids L \<or> Content_get_id E (b_content b) \<in> unclaimed_tx_block_ids L') \<and>
    (\<forall>i \<in> set (drop 1 (c_refs (b_content b))). txs L' i \<noteq> None \<and> i \<notin> unclaimed_tx_ids L' \<or> txs L' i = None \<and> i \<in> unknown_tx_ids L')"
proof -
  have "parent_known (metablocks L) b" using assms(4) by (simp add: parent_known_def parent_of_def)
  then obtain ms m where s: "save E (metablocks L) b = Ok (ms, m)" "metablocks_ok E ms" "heights_ok ms"
      "mb_block m = b" "metablock_ok E (mb_proof_id m) m" "get_metablock_from_content_id_as_option ms (mb_content_id m) = Some m"
    using save_Ok [OF assms(1-3)] by blast
  then have cid: "mb_content_id m = Content_get_id E (b_content b)" by (simp add: metablock_ok_def)
  let ?c = "mb_content_id m"
  have con: "contains_content_id ms ?c"
    using content_lookup(1,2) [OF s(2), of ?c] s(6) by blast
  show ?thesis using s(1-3) con by (auto simp: stage_tx_block_def Let_def claim_txs_with add_block_to_timeslot_def cid)
qed

section \<open>Time\<close>

lemma early_blocks_fixed:
  assumes "foldR (stage_early_block E) L bs = Ok L'"
  shows "fixed_part L' = fixed_part L"
proof (rule foldR_invariant [OF assms])
  fix L1 b L2 assume L1: "fixed_part L1 = fixed_part L" and "stage_early_block E L1 b = Ok L2"
  then have "L2 = L1 \<or> stage_proposer_block E L1 b = Ok L2 \<or> stage_tx_block E L1 b = Ok L2"
    by (auto simp: stage_early_block_def bindR_Ok_iff split: if_splits)
  then show "fixed_part L2 = fixed_part L" using L1 stage_proposer_fixed(1) [of E L1 b L2] stage_tx_fixed [of E L1 b L2] by auto
qed simp

text \<open>
  A step of time advances the clock by one, switches to the staged solution range exactly in the
  timeslot it was staged for, and forgets the early blocks of the new timeslot, whatever staging
  those blocks does.
\<close>

theorem next_timeslot_step:
  assumes "next_timeslot E L = Ok L'"
  shows "current_timeslot L' = current_timeslot L + 1 \<and>
    current_solution_range L' =
      (if current_timeslot L + 1 = sru_next_timeslot (solution_range_update L)
       then sru_solution_range (solution_range_update L) else current_solution_range L) \<and>
    early_blocks_by_timeslot L' = (early_blocks_by_timeslot L)(current_timeslot L + 1 := None)"
proof -
  let ?L = "apply_range_update (L\<lparr>current_timeslot := current_timeslot L + 1\<rparr>)"
  have f: "current_timeslot ?L = current_timeslot L + 1" "early_blocks_by_timeslot ?L = early_blocks_by_timeslot L"
      "current_solution_range ?L = (if current_timeslot L + 1 = sru_next_timeslot (solution_range_update L)
       then sru_solution_range (solution_range_update L) else current_solution_range L)"
    by (simp_all add: apply_range_update_def Let_def)
  show ?thesis
  proof (cases "early_blocks_by_timeslot L (current_timeslot L + 1)")
    case None
    then have "L' = ?L" using assms by (simp add: next_timeslot_def f)
    then show ?thesis using f None by (simp add: fun_upd_idem)
  next
    case (Some bs)
    then obtain L1 where L1: "foldR (stage_early_block E) ?L bs = Ok L1"
        "L' = L1\<lparr>early_blocks_by_timeslot := (early_blocks_by_timeslot L1)(current_timeslot L1 := None)\<rparr>"
      using assms by (auto simp: next_timeslot_def f Let_def bindR_Ok_iff)
    then show ?thesis using early_blocks_fixed [OF L1(1)] f by (simp add: fixed_part_def)
  qed
qed

section \<open>Concrete cases\<close>

lemma toy_ledger_fields [simp]:
  "recent_proof_ids toy_ledger = {}" "timer_is_running toy_ledger = False" "current_timeslot toy_ledger = 0"
  "metablocks toy_ledger = MetaBlocks_new (replicate 32 0)" "genesis_challenge toy_ledger = replicate 32 0"
  "early_blocks_by_timeslot toy_ledger = Map.empty" "heads toy_ledger = []" "txs toy_ledger = Map.empty"
  "keys toy_ledger = toy_keys" "state toy_ledger = toy_state" "sloth toy_ledger = small_sloth"
  "epoch_tracker toy_ledger = \<lparr>current_epoch = 0, epochs = [0 \<mapsto> Epoch_new toy_crypto 0]\<rparr>"
  "solution_range_update toy_ledger = \<lparr>sru_next_timeslot = 0, sru_block_height = 0, sru_solution_range = 0\<rparr>"
  by (simp_all add: toy_ledger_def initial_ledger_def Let_def)

lemma toy_block_fields [simp]:
  "p_timeslot (b_proof (toy_block parent rs)) = 1" "p_epoch (b_proof (toy_block parent rs)) = 0"
  "c_parent_id (b_content (toy_block parent rs)) = parent" "c_refs (b_content (toy_block parent rs)) = rs"
  by (simp_all add: toy_block_def)

lemma toy_content_id: "length (Content_get_id toy_blocklib c) = 32"
  by (simp add: Content_get_id_def digest_sha_256_def toy_blocklib_def blocklib.defs toy_defs)

theorem gossip_seen_once_witness:
  "\<exists>L'. validate_block_from_gossip toy_blocklib toy_ledger (toy_block None [[]]) = Ok (L', False) \<and>
     validate_block_from_gossip toy_blocklib L' (toy_block (Some [1]) []) = Ok (L', False)"
proof -
  obtain L' where L': "validate_block_from_gossip toy_blocklib toy_ledger (toy_block None [[]]) = Ok (L', False)"
    by (simp add: validate_block_from_gossip_def cache_before_sync_def Let_def)
  then show ?thesis using gossip_seen_once [OF L', of "toy_block (Some [1]) []"] by (simp add: toy_block_def)
qed

theorem gossip_early_window_witness:
  "\<exists>L'. validate_block_from_gossip toy_blocklib (toy_ledger\<lparr>timer_is_running := True\<rparr>) (toy_block None [[]]) = Ok (L', False) \<and>
     early_blocks_by_timeslot L' = Map.empty"
proof -
  have "\<not> (- 10 :: u64) \<le> 1" by (simp add: word_le_nat_alt)
  then show ?thesis
    using gossip_early_window [of toy_blocklib "toy_block None [[]]" "toy_ledger\<lparr>timer_is_running := True\<rparr>"]
    by (simp add: MAX_EARLY_TIMESLOTS_def cong: if_cong)
qed

theorem gossip_unknown_parent_panics_witness:
  "\<exists>e. validate_block_from_gossip toy_blocklib (toy_ledger\<lparr>timer_is_running := True, current_timeslot := 5\<rparr>)
     (toy_block (Some [1]) [[]]) = Panic e"
proof (rule gossip_unknown_parent_panics [where c = "[1]"])
  show "\<not> contains_content_id (metablocks (toy_ledger\<lparr>timer_is_running := True, current_timeslot := 5\<rparr>)) [1]"
    by (simp add: contains_content_id_def MetaBlocks_new_def)
  show "proposer_parent (toy_ledger\<lparr>timer_is_running := True, current_timeslot := 5\<rparr>) (toy_block (Some [1]) [[]]) = Some [1]"
    by (simp add: proposer_parent_def numeral_eq_Suc)
qed (simp_all add: MAX_LATE_TIMESLOTS_def)

theorem cached_children_end_witness:
  "\<exists>r. stage_cached_children toy_blocklib
     (toy_ledger\<lparr>cached_proposer_blocks_by_parent_content_id := [[1] \<mapsto> [toy_block (Some [1]) [[]]]]\<rparr>) [1] = Some r"
proof (rule cached_children_end [where rank = "\<lambda>c. of_bool (c = [1])"])
  have "Content_get_id toy_blocklib c \<noteq> [1]" for c using toy_content_id [of c] by auto
  then show "cache_ranked toy_blocklib (\<lambda>c. of_bool (c = [1]))
      (toy_ledger\<lparr>cached_proposer_blocks_by_parent_content_id := [[1] \<mapsto> [toy_block (Some [1]) [[]]]]\<rparr>)"
    by (auto simp: cache_ranked_def cache_of_def split: if_splits)
qed

theorem stage_tx_block_tracks_witness:
  "\<exists>L'. stage_tx_block toy_blocklib toy_ledger (toy_block None [[6], [7]]) = Ok L' \<and>
     contains_content_id (metablocks L') (Content_get_id toy_blocklib (b_content (toy_block None [[6], [7]])))"
  using stage_tx_block_tracks [of toy_blocklib toy_ledger "toy_block None [[6], [7]]"] metablocks_new_ok toy_fresh
  by (simp, blast)

theorem next_timeslot_step_witness:
  "\<exists>L'. next_timeslot toy_blocklib toy_ledger = Ok L' \<and> current_timeslot L' = 1"
proof -
  obtain L' where L': "next_timeslot toy_blocklib toy_ledger = Ok L'"
    by (simp add: next_timeslot_def apply_range_update_def Let_def)
  then show ?thesis using next_timeslot_step [OF L'] by simp
qed

definition toy_genesis_child :: Block where
  "toy_genesis_child = (let b = toy_block (Some (replicate 32 0)) [[5]] in b\<lparr>b_content := (b_content b)\<lparr>c_timestamp := 9\<rparr>\<rparr>)"

lemma toy_genesis_child_fresh:
  "fresh_block toy_blocklib (metablocks toy_ledger) toy_genesis_child" "parent_of (metablocks toy_ledger) toy_genesis_child = None"
  "c_parent_id (b_content toy_genesis_child) = Some (replicate 32 0)" "p_epoch (b_proof toy_genesis_child) = 0"
  "drop 1 (c_refs (b_content toy_genesis_child)) = []"
  using toy_fresh(1) by (simp_all add: toy_genesis_child_def parent_of_def MetaBlocks_new_def Let_def)

lemma toy_genesis_child_content:
  "Content_get_id toy_blocklib (b_content toy_genesis_child) \<noteq> replicate 32 0"
proof -
  have "nat_to_le_bytes 8 9 = 9 # nat_to_le_bytes 7 0" using nat_to_le_bytes.simps(2) [of 7 9] by simp
  then have "hd (Content_get_id toy_blocklib (b_content toy_genesis_child)) = 9"
    by (simp add: Content_get_id_def digest_sha_256_def toy_blocklib_def blocklib.defs toy_defs toy_ser_content_def
        toy_genesis_child_def toy_block_def toy_sha256_def u64_to_le_bytes_def Let_def)
  moreover have "hd (replicate 32 (0 :: byte)) = 0" by (rule hd_replicate) simp
  moreover have "(9 :: byte) \<noteq> 0" by simp
  ultimately show ?thesis by metis
qed

lemma toy_stage:
  obtains L' where "stage_proposer_block toy_blocklib toy_ledger toy_genesis_child = Ok L'"
proof -
  note f = toy_genesis_child_fresh
  let ?g = "replicate 32 0 :: bytes"
  have "\<exists>ms m. save toy_blocklib (metablocks toy_ledger) toy_genesis_child = Ok (ms, m) \<and>
      get_metablock_from_content_id_as_option ms ?g = None \<and> mb_block m = toy_genesis_child"
    using save_no_parent [OF f(2,1)] toy_genesis_child_content
    by (simp add: get_metablock_from_content_id_as_option_def MetaBlocks_new_def new_metablock_def)
  then obtain ms m where s: "save toy_blocklib (metablocks toy_ledger) toy_genesis_child = Ok (ms, m)"
      "get_metablock_from_content_id_as_option ms ?g = None" "mb_block m = toy_genesis_child" by blast
  have "\<exists>L1. record_proposer_block toy_blocklib toy_ledger toy_genesis_child ?g = Ok L1 \<and> metablocks L1 = ms"
    using s f by (simp add: record_proposer_block_def Let_def drop_cached_proposer_def add_block_to_timeslot_def
        update_heads_def add_proof_to_epoch_def toy_ledger_def initial_ledger_def)
  then obtain L1 where "record_proposer_block toy_blocklib toy_ledger toy_genesis_child ?g = Ok L1" "metablocks L1 = ms" by blast
  then have "stage_proposer_block toy_blocklib toy_ledger toy_genesis_child = Ok L1"
    using s(2) f(3) by (simp add: stage_proposer_block_def CONFIRMATION_DEPTH_def numeral_eq_Suc)
  then show thesis by (rule that)
qed

lemma toy_ledger_tracks: "heads_track toy_ledger" "heights_bounded (metablocks toy_ledger)"
  by (simp_all add: heads_track_def heads_ok_def heights_bounded_def MetaBlocks_new_def)

lemma toy_no_genesis:
  "get_metablock_from_content_id_as_option (metablocks toy_ledger) (mbs_genesis_challenge (metablocks toy_ledger)) = None"
  "parent_known (metablocks toy_ledger) toy_genesis_child"
  "metablocks_ok toy_blocklib (metablocks toy_ledger)" "heights_ok (metablocks toy_ledger)"
  using toy_genesis_child_fresh(2) metablocks_new_ok
  by (simp_all add: get_metablock_from_content_id_as_option_def MetaBlocks_new_def parent_known_def)

theorem stage_proposer_keeps_witness:
  "\<exists>L'. stage_proposer_block toy_blocklib toy_ledger toy_genesis_child = Ok L' \<and>
     metablocks_ok toy_blocklib (metablocks L') \<and> heads_ok L'"
proof -
  obtain L' where L': "stage_proposer_block toy_blocklib toy_ledger toy_genesis_child = Ok L'" by (rule toy_stage)
  then show ?thesis
    using stage_proposer_keeps [OF toy_no_genesis(3,4) toy_ledger_tracks(1) toy_genesis_child_fresh(1) toy_no_genesis(2)
        toy_ledger_tracks(2) toy_no_genesis(1) L'] by blast
qed


text \<open>A solution on the concrete state: the proof lists the root and the piece's hash.\<close>

lemma toy_sloth_size: "0 < block_size_bytes small_sloth" "2 * block_size_bytes small_sloth \<le> 4096"
  by (simp_all add: small_sloth_def)

lemma toy_solution:
  obtains s where "solution_ok toy_blocklib toy_ledger s" "s_timeslot s = 1" "s_solution_range s = 0"
proof -
  let ?c = "digest_sha_256 toy_blocklib (replicate 32 0 @ u64_to_le_bytes 1)"
  obtain piece where p: "decode toy_blocklib small_sloth (replicate 4096 0)
      (expand_iv toy_blocklib (digest_sha_256 toy_blocklib (public toy_keys))) ENCODING_LAYERS_TEST = Ok piece"
    using decode_total [of "replicate 4096 0" small_sloth toy_blocklib] unfolding PIECE_SIZE_def
    by (metis length_replicate order_refl toy_sloth_size)
  let ?h = "digest_sha_256 toy_blocklib piece"
  define s where "s = \<lparr>s_epoch_index = 0, s_timeslot = 1, s_randomness = replicate 32 0, s_piece_index = 0,
    s_tag = take 8 ?c, s_encoding = replicate 4096 0, s_merkle_proof = replicate 32 0 @ ?h, s_solution_range = 0,
    s_target = take 8 ?c\<rparr>"
  have h: "length ?h = 32" by (simp add: digest_sha_256_def toy_blocklib_def blocklib.defs toy_defs)
  have "chunks_exact 32 (replicate 32 0 @ ?h) = [replicate 32 0, ?h]"
    using chunks_exact_concat [of 32 "[replicate 32 0, ?h]"] h by simp
  then have m: "validate_merkle_proof toy_blocklib ?h (replicate 32 0 @ ?h) (replicate 32 0)"
    by (simp add: validate_merkle_proof_def toy_blocklib_def blocklib.defs toy_defs digest_sha_256_def digest_sha_256_simple_def toy_sha256_def)
  have "solution_ok toy_blocklib toy_ledger s"
    unfolding solution_ok_def
  proof (intro exI conjI)
    show "get_slot_challenge toy_blocklib (epoch_tracker toy_ledger) (s_epoch_index s) (s_timeslot s) = Ok (s_randomness s, ?c)"
      by (simp add: slot_challenge_closed s_def)
    show "within_solution_range (u64_from_be_bytes (s_target s)) (s_solution_range s) (u64_from_be_bytes (s_tag s))"
      by (simp add: s_def within_solution_range_def overflowing_sub_def overflowing_add_def Let_def)
    show "get_state_block_by_height (state toy_ledger) (s_piece_index s div of_nat PIECES_PER_STATE_BLOCK) =
        Some \<lparr>previous_state_block_id = replicate 32 0, piece_merkle_root = replicate 32 0, sb_height = 0\<rparr>"
      by (simp add: s_def toy_state_def save_state_block_def get_state_block_by_height_def get_state_block_by_id_def Let_def)
  qed (use p m in \<open>simp_all add: s_def\<close>)
  then show thesis by (rule that) (simp_all add: s_def)
qed

lemma toy_choose: "s_solution_range s = 0 \<Longrightarrow> \<exists>L1 parent refs. choose_refs toy_ledger s [] = Ok (L1, parent, refs) \<and>
    (parent = None \<or> parent = Some (replicate 32 0))"
  by (simp add: choose_refs_def choose_parent_def get_head_def Let_def)


theorem gossip_accepts_witness:
  "\<exists>b L'. validate_block_from_gossip toy_blocklib (toy_ledger\<lparr>timer_is_running := True, current_timeslot := 5\<rparr>) b = Ok (L', True) \<and>
     validate_block toy_blocklib (toy_ledger\<lparr>timer_is_running := True, current_timeslot := 5\<rparr>) b = Ok True"
  (is "\<exists>b L'. validate_block_from_gossip _ ?L b = _ \<and> _")
proof -
  obtain s where s: "solution_ok toy_blocklib toy_ledger s" "s_timeslot s = 1" "s_solution_range s = 0" by (rule toy_solution)
  obtain L1 parent refs where r: "choose_refs toy_ledger s [] = Ok (L1, parent, refs)" "parent = None \<or> parent = Some (replicate 32 0)"
    using toy_choose [OF s(3)] by blast
  have k: "ed25519_ok toy_blocklib (keys toy_ledger)"
    by (simp add: toy_laws(3) toy_blocklib_def blocklib.defs toy_defs toy_keys_def)
  obtain L' b where b: "create_and_apply_local_block toy_blocklib 7 toy_ledger s [] = Ok (L', b)"
    and v: "\<And>M. epoch_tracker M = epoch_tracker toy_ledger \<Longrightarrow> state M = state toy_ledger \<Longrightarrow> sloth M = sloth toy_ledger \<Longrightarrow>
        validate_block toy_blocklib M b = Ok True"
    and p: "b_proof b = solution_proof toy_blocklib toy_ledger s" "c_parent_id (b_content b) = parent"
    using local_block [OF k s(1) r(1), where ts = 7] by metis
  have "proposer_parent ?L b = None" using p(2) r(2) by (auto simp: proposer_parent_def)
  then have "validate_block_from_gossip toy_blocklib ?L b =
      Ok (?L\<lparr>recent_proof_ids := {Proof_get_id toy_blocklib (b_proof b)}\<rparr>, True)"
    using v [of ?L] p(1) s(2) by (simp add: validate_block_from_gossip_def check_known_parent_def Let_def MAX_LATE_TIMESLOTS_def)
  then show ?thesis using gossip_accepts by blast
qed

end
