(* ===== verification/Plotter.thy ===== *)
theory Plotter
  imports Plot Ledger_Properties "HOL-Library.Multiset"
begin

text \<open>
  The plotter (\<^verbatim>\<open>src/plotter.rs\<close>) and what plotting achieves.  The pieces are encoded in parallel and
  each write is a task of its own, so the writes happen in any order: the order is an argument.

  Main results: after plotting, in whatever order, every piece can be read back and decoded, and every piece behind
  a tag is provable against the state chain.
\<close>

section \<open>Definitions\<close>

text \<open>
  \<open>scheduled\<close> are the bundles in the order in which their writes run; an existing plot is used as it is.
\<close>

definition plotter_plot ::
  "'e crypto_scheme \<Rightarrow> ('d, 'z) storage_scheme \<Rightarrow> PlotCreationError + 'd PlotState \<Rightarrow> NodeID \<Rightarrow> PieceBundle list \<Rightarrow>
     'd PlotState res option" where
  "plotter_plot E D opened node_id scheduled =
     (case opened of
        Inl _ \<Rightarrow> Some (Panic Unwrap)
      | Inr p \<Rightarrow> if is_empty_request D p then plot_pieces E D p node_id scheduled else Some (Ok p))"

section \<open>Provable pieces\<close>

text \<open>Every piece behind a tag is in the state and is proved by its Merkle proof.\<close>

definition plot_provable :: "'e blocklib_scheme \<Rightarrow> ('d, 'z) storage_scheme \<Rightarrow> Ledger \<Rightarrow> 'd PlotState \<Rightarrow> bool" where
  "plot_provable E D L p \<longleftrightarrow>
     (\<forall>tag i. map_of (db_entries D (tags_db p)) tag = Some (u64_to_le_bytes i) \<longrightarrow>
        (\<exists>encoding merkle_proof sb piece. read_encoding D p i = Ok (Inr (encoding, merkle_proof)) \<and>
           get_state_block_by_height (state L) (i div of_nat PIECES_PER_STATE_BLOCK) = Some sb \<and>
           decode E (sloth L) encoding (expand_iv E (digest_sha_256 E (public (keys L)))) ENCODING_LAYERS_TEST = Ok piece \<and>
           validate_merkle_proof E (digest_sha_256 E piece) merkle_proof (piece_merkle_root sb)))"

section \<open>Plotting\<close>

text \<open>A bundle that the state chain proves, whose piece the cipher encodes and decodes.\<close>

definition bundle_good :: "'e blocklib_scheme \<Rightarrow> Ledger \<Rightarrow> PieceBundle \<Rightarrow> bool" where
  "bundle_good E L b \<longleftrightarrow> length (pb_piece b) = PIECE_SIZE \<and>
     (let iv = expand_iv E (digest_sha_256 E (public (keys L)))
      in (\<exists>e. encode E (sloth L) (pb_piece b) (from_digits iv) ENCODING_LAYERS_TEST = Ok e) \<and>
         layers_good (sqrt_permutation E (sloth L)) (\<lambda>c. c \<noteq> prime (sloth L)) ENCODING_LAYERS_TEST (from_digits iv)
           (map from_digits (chunks_exact (block_size_bytes (sloth L)) (pb_piece b)))) \<and>
     (\<exists>sb. get_state_block_by_height (state L) (pb_piece_index b div of_nat PIECES_PER_STATE_BLOCK) = Some sb \<and>
        validate_merkle_proof E (digest_sha_256 E (pb_piece b)) (pb_piece_proof b) (piece_merkle_root sb))"

definition sloth_fits :: "'e gmp_scheme \<Rightarrow> Sloth \<Rightarrow> bool" where
  "sloth_fits E s \<longleftrightarrow> sloth_ok E s \<and> block_size_bytes s dvd PIECE_SIZE \<and> 2 * block_size_bytes s \<le> PIECE_SIZE"

text \<open>The plot holds an encoding of the bundle's piece under the bundle's index.\<close>

definition holds_piece :: "'e blocklib_scheme \<Rightarrow> ('d, 'z) storage_scheme \<Rightarrow> Ledger \<Rightarrow> 'd PlotState \<Rightarrow> PieceBundle \<Rightarrow> bool" where
  "holds_piece E D L p b \<longleftrightarrow>
     (\<exists>encoding. read_encoding D p (pb_piece_index b) = Ok (Inr (encoding, pb_piece_proof b)) \<and>
        decode E (sloth L) encoding (expand_iv E (digest_sha_256 E (public (keys L)))) ENCODING_LAYERS_TEST = Ok (pb_piece b))"

lemma plot_piece_facts:
  assumes "storage_ok D" and "hmac_ok E" and "plot_ok D p" and "plot_provable E D L p" and "sloth_fits E (sloth L)"
    and b: "bundle_good E L b" and "length (plot_file p) + PIECE_SIZE < 2 ^ 64"
  shows "\<exists>p'. plot_piece E D (sloth L) (from_digits (expand_iv E (digest_sha_256 E (public (keys L))))) p b = Ok p' \<and>
    plot_ok D p' \<and> plot_provable E D L p' \<and> length (plot_file p') = length (plot_file p) + PIECE_SIZE \<and>
    holds_piece E D L p' b \<and> (\<forall>j. j \<noteq> pb_piece_index b \<longrightarrow> read_encoding D p' j = read_encoding D p j)"
proof -
  let ?iv = "expand_iv E (digest_sha_256 E (public (keys L)))" and ?i = "pb_piece_index b"
  obtain e where e: "encode E (sloth L) (pb_piece b) (from_digits ?iv) ENCODING_LAYERS_TEST = Ok e"
    using b by (auto simp: bundle_good_def Let_def)
  have dec: "decode E (sloth L) e ?iv ENCODING_LAYERS_TEST = Ok (pb_piece b) \<and> length e = PIECE_SIZE"
    using b assms(5) by (intro encode_decode [OF _ _ _ _ _ e]) (auto simp: bundle_good_def sloth_fits_def Let_def ENCODING_LAYERS_TEST_def)
  obtain sb where sb: "get_state_block_by_height (state L) (?i div of_nat PIECES_PER_STATE_BLOCK) = Some sb"
      "validate_merkle_proof E (digest_sha_256 E (pb_piece b)) (pb_piece_proof b) (piece_merkle_root sb)"
    using b by (auto simp: bundle_good_def)
  let ?n = "encoding_nonce E e"
  obtain p' where w: "write_encoding E D p e ?n ?i (pb_piece_proof b) = Ok (p', Inr ())" "plot_ok D p'"
      "length (plot_file p') = length (plot_file p) + PIECE_SIZE"
      "map_of (db_entries D (tags_db p')) = (map_of (db_entries D (tags_db p)))(piece_tag E e ?n \<mapsto> u64_to_le_bytes ?i)"
      "read_encoding D p' ?i = Ok (Inr (e, pb_piece_proof b))" "\<forall>j. j \<noteq> ?i \<longrightarrow> read_encoding D p' j = read_encoding D p j"
    using write_encoding_reads [OF assms(1-3) conjunct2 [OF dec] assms(7)] by blast
  have new: "\<exists>encoding merkle_proof sb piece. read_encoding D p' ?i = Ok (Inr (encoding, merkle_proof)) \<and>
      get_state_block_by_height (state L) (?i div of_nat PIECES_PER_STATE_BLOCK) = Some sb \<and>
      decode E (sloth L) encoding ?iv ENCODING_LAYERS_TEST = Ok piece \<and>
      validate_merkle_proof E (digest_sha_256 E piece) merkle_proof (piece_merkle_root sb)"
    using w(5) sb dec by blast
  have "plot_provable E D L p'"
    unfolding plot_provable_def
  proof (intro allI impI)
    fix tag j assume t: "map_of (db_entries D (tags_db p')) tag = Some (u64_to_le_bytes j)"
    show "\<exists>encoding merkle_proof sb piece. read_encoding D p' j = Ok (Inr (encoding, merkle_proof)) \<and>
      get_state_block_by_height (state L) (j div of_nat PIECES_PER_STATE_BLOCK) = Some sb \<and>
      decode E (sloth L) encoding ?iv ENCODING_LAYERS_TEST = Ok piece \<and>
      validate_merkle_proof E (digest_sha_256 E piece) merkle_proof (piece_merkle_root sb)"
    proof (cases "j = ?i")
      case False
      then have "map_of (db_entries D (tags_db p)) tag = Some (u64_to_le_bytes j)"
        using t unfolding w(4) by (simp add: le_bytes_u64_inj split: if_splits)
      then show ?thesis using assms(4) w(6) False unfolding plot_provable_def by simp
    qed (use new in simp)
  qed
  moreover have "holds_piece E D L p' b" using w(5) dec by (simp add: holds_piece_def)
  ultimately show ?thesis using w(1-3,6) e by (simp add: plot_piece_def unwrap_sloth_def)
qed

lemma plot_run:
  assumes "storage_ok D" and "hmac_ok E" and "sloth_fits E (sloth L)" and "plot_ok D p" and "plot_provable E D L p"
    and "\<forall>b \<in> set bs. bundle_good E L b" and "distinct (map pb_piece_index bs)"
    and "length (plot_file p) + length bs * PIECE_SIZE < 2 ^ 64"
  shows "\<exists>p'. foldR (plot_piece E D (sloth L) (from_digits (expand_iv E (digest_sha_256 E (public (keys L)))))) p bs = Ok p' \<and>
    plot_ok D p' \<and> plot_provable E D L p' \<and> (\<forall>b \<in> set bs. holds_piece E D L p' b) \<and>
    (\<forall>j. j \<notin> pb_piece_index ` set bs \<longrightarrow> read_encoding D p' j = read_encoding D p j)"
  using assms(4-)
proof (induction bs arbitrary: p)
  case (Cons b bs)
  obtain p1 where p1: "plot_piece E D (sloth L) (from_digits (expand_iv E (digest_sha_256 E (public (keys L))))) p b = Ok p1"
      "plot_ok D p1" "plot_provable E D L p1" "length (plot_file p1) = length (plot_file p) + PIECE_SIZE" "holds_piece E D L p1 b"
      "\<forall>j. j \<noteq> pb_piece_index b \<longrightarrow> read_encoding D p1 j = read_encoding D p j"
    using plot_piece_facts [OF assms(1,2) Cons.prems(1,2) assms(3), of b] Cons.prems(3,5) by auto
  obtain p' where p': "foldR (plot_piece E D (sloth L) (from_digits (expand_iv E (digest_sha_256 E (public (keys L)))))) p1 bs = Ok p'"
      "plot_ok D p'" "plot_provable E D L p'" "\<forall>b \<in> set bs. holds_piece E D L p' b"
      "\<forall>j. j \<notin> pb_piece_index ` set bs \<longrightarrow> read_encoding D p' j = read_encoding D p1 j"
    using Cons.IH [OF p1(2,3)] Cons.prems(3-5) p1(4) by auto
  have "read_encoding D p' (pb_piece_index b) = read_encoding D p1 (pb_piece_index b)" using p'(5) Cons.prems(4) by simp
  then have "holds_piece E D L p' b" using p1(5) by (simp add: holds_piece_def)
  then show ?case using p1(1,6) p' by auto
qed simp

section \<open>A concrete case\<close>

definition zero_keys :: Keypair where
  "zero_keys = \<lparr>public = replicate 32 0, secret = []\<rparr>"

definition plot_ledger :: Ledger where
  "plot_ledger = toy_ledger\<lparr>keys := zero_keys\<rparr>"

definition small_bundle :: PieceBundle where
  "small_bundle = \<lparr>pb_piece = small_piece, pb_piece_id = [], pb_piece_index = 0,
     pb_piece_proof = replicate 32 0 @ digest_sha_256 toy_blocklib small_piece\<rparr>"

lemma toy_gmp:
  "sqrt_permutation toy_blocklib small_sloth = sqrt_permutation small_gmp small_sloth"
  "encode toy_blocklib small_sloth = encode small_gmp small_sloth" "sloth_ok toy_blocklib small_sloth"
proof -
  show p: "sqrt_permutation toy_blocklib small_sloth = sqrt_permutation small_gmp small_sloth"
    by (simp add: sqrt_permutation_def fun_eq_iff toy_blocklib_def blocklib.defs toy_defs)
  show "encode toy_blocklib small_sloth = encode small_gmp small_sloth" by (simp add: encode_def fun_eq_iff p)
  show "sloth_ok toy_blocklib small_sloth"
    using small_sloth_ok by (simp add: sloth_ok_def pow_mod_ok_def jacobi_ok_def toy_blocklib_def blocklib.defs toy_defs)
qed

lemma toy_sha256_zero [simp]: "toy_sha256 (replicate 32 0) = replicate 32 0"
  by (simp add: toy_sha256_def)

lemma toy_digest_zero: "digest_sha_256 toy_blocklib (replicate 32 0) = replicate 32 0"
  by (simp add: digest_sha_256_def toy_blocklib_def blocklib.defs toy_defs)

lemma toy_iv_zero: "expand_iv toy_blocklib (replicate 32 0) = replicate 32 0"
proof -
  have "PRIME_SIZE_BYTES div IV_SIZE = Suc 0" by (simp add: PRIME_SIZE_BYTES_def PRIME_SIZE_BITS_def IV_SIZE_def)
  then show ?thesis
    by (simp add: expand_iv_def Let_def toy_digest_zero write_at_def PRIME_SIZE_BYTES_def PRIME_SIZE_BITS_def)
qed

lemma toy_merkle:
  assumes "length h = 32"
  shows "validate_merkle_proof toy_blocklib h (replicate 32 0 @ h) (replicate 32 0)"
proof -
  have "chunks_exact 32 (replicate 32 0 @ h) = [replicate 32 0, h]"
    using chunks_exact_concat [of 32 "[replicate 32 0, h]"] assms by simp
  then show ?thesis
    by (simp add: validate_merkle_proof_def toy_blocklib_def blocklib.defs toy_defs digest_sha_256_simple_def toy_sha256_def)
qed

lemma toy_state_block:
  "get_state_block_by_height toy_state 0 = Some \<lparr>previous_state_block_id = replicate 32 0, piece_merkle_root = replicate 32 0, sb_height = 0\<rparr>"
  by (simp add: toy_state_def save_state_block_def get_state_block_by_height_def get_state_block_by_id_def Let_def)

lemma plot_ledger_fields [simp]:
  "state plot_ledger = toy_state" "sloth plot_ledger = small_sloth" "keys plot_ledger = zero_keys"
  "public zero_keys = replicate 32 0" "epoch_tracker plot_ledger = epoch_tracker toy_ledger"
  by (simp_all add: plot_ledger_def zero_keys_def)

lemma small_bundle_good: "bundle_good toy_blocklib plot_ledger small_bundle"
proof -
  have "length (digest_sha_256 toy_blocklib small_piece) = 32" by (simp add: digest_sha_256_def toy_blocklib_def blocklib.defs toy_defs)
  then show ?thesis
    using small_encode small_layers_good toy_merkle
    by (simp add: bundle_good_def Let_def small_bundle_def small_length toy_digest_zero toy_iv_zero toy_gmp ENCODING_LAYERS_TEST_def
        toy_state_block)
qed

lemma small_sloth_fits: "sloth_fits toy_blocklib small_sloth"
  by (simp add: sloth_fits_def toy_gmp(3) PIECE_SIZE_def small_sloth_def [THEN arg_cong [where f = block_size_bytes]])

lemma toy_block_hmac: "hmac_ok toy_blocklib"
  by (simp add: hmac_ok_def toy_blocklib_def blocklib.defs toy_defs)

lemma empty_plot_provable: "plot_provable E log_storage L empty_plot"
  by (simp add: plot_provable_def empty_plot_def log_storage_def)

section \<open>Properties\<close>

text \<open>
  \<^bold>\<open>C10\<close>: plotting bundles of the state chain succeeds in whatever order the writes are
  scheduled, every bundle's piece can then be read and decoded, and every piece behind a tag is
  still provable.
\<close>

theorem plotting_any_order:
  assumes "storage_ok D" and "hmac_ok E" and "sloth_fits E (sloth L)" and "plot_ok D p" and "plot_provable E D L p"
    and "\<forall>b \<in> set bundles. bundle_good E L b" and "distinct (map pb_piece_index bundles)"
    and "length (plot_file p) + length bundles * PIECE_SIZE < 2 ^ 64" and "mset scheduled = mset bundles"
  shows "\<exists>p'. foldR (plot_piece E D (sloth L) (from_digits (expand_iv E (digest_sha_256 E (public (keys L)))))) p scheduled = Ok p' \<and>
    plot_ok D p' \<and> plot_provable E D L p' \<and> (\<forall>b \<in> set bundles. holds_piece E D L p' b)"
proof -
  have "set scheduled = set bundles" "length scheduled = length bundles" using assms(9) mset_eq_setD mset_eq_length by blast+
  moreover have "distinct (map pb_piece_index scheduled)" using assms(7,9) by (metis mset_eq_imp_distinct_iff mset_map)
  ultimately show ?thesis using plot_run [OF assms(1-5), of scheduled] assms(6,8) by auto
qed

theorem plotting_any_order_witness:
  "\<exists>p'. foldR (plot_piece toy_blocklib log_storage small_sloth (from_digits (replicate 32 0))) empty_plot [small_bundle] = Ok p' \<and>
     plot_provable toy_blocklib log_storage plot_ledger p' \<and> holds_piece toy_blocklib log_storage plot_ledger p' small_bundle"
  using plotting_any_order [OF log_storage_ok toy_block_hmac _ empty_plot_ok empty_plot_provable, of plot_ledger "[small_bundle]" "[small_bundle]"]
    small_sloth_fits small_bundle_good
  by (auto simp: empty_plot_def [THEN arg_cong [where f = plot_file]] PIECE_SIZE_def toy_digest_zero toy_iv_zero)

end
