(* ===== verification/Farmer.thy ===== *)
theory Farmer
  imports Plotter
begin

text \<open>
  The farmer (\<^verbatim>\<open>src/farmer.rs\<close>) and how plot, farmer and ledger fit together.  The farmer looks
  up the tags near a challenge and reads the pieces behind them; while it works on a message the plot does not
  change.

  Main results: every solution it sends is one that the ledger turns into a block that every node
  with the same state accepts; a tag whose piece was
  removed makes the farmer panic.
\<close>

section \<open>Definitions\<close>

datatype FarmerMessage = SlotChallenge u64 u64 bytes bytes u64 | StartFarming | StopFarming

definition solve_tag ::
  "('d, 'z) storage_scheme \<Rightarrow> 'd PlotState \<Rightarrow> u64 \<Rightarrow> u64 \<Rightarrow> bytes \<Rightarrow> u64 \<Rightarrow> Tag \<Rightarrow> Solution list \<Rightarrow> Tag \<times> u64 \<Rightarrow> Solution list res" where
  "solve_tag D p epoch_index timeslot randomness solution_range target solutions ti =
     (let (tag, piece_index) = ti
      in bindR (read_encoding D p piece_index) (\<lambda>r.
         case r of
           Inl _ \<Rightarrow> Panic Unwrap
         | Inr (encoding, merkle_proof) \<Rightarrow>
             Ok (solutions @ [\<lparr>s_epoch_index = epoch_index, s_timeslot = timeslot, s_randomness = randomness,
               s_piece_index = piece_index, s_tag = tag, s_encoding = encoding, s_merkle_proof = merkle_proof,
               s_solution_range = solution_range, s_target = target\<rparr>])))"

definition solve ::
  "('d, 'z) storage_scheme \<Rightarrow> 'd PlotState \<Rightarrow> u64 \<Rightarrow> u64 \<Rightarrow> bytes \<Rightarrow> bytes \<Rightarrow> u64 \<Rightarrow> Solution list res" where
  "solve D p epoch_index timeslot randomness slot_challenge solution_range =
     (let target = take 8 slot_challenge
      in bindR (find_by_range D p target solution_range) (\<lambda>tags.
         foldR (solve_tag D p epoch_index timeslot randomness solution_range target) [] tags))"

text \<open>One turn of the loop: whether the farmer farms afterwards, and the solutions it sends.\<close>

fun farmer_step ::
  "('d, 'z) storage_scheme \<Rightarrow> 'd PlotState \<Rightarrow> bool \<Rightarrow> FarmerMessage \<Rightarrow> (bool \<times> Solution list option) res" where
  "farmer_step D p is_farming (SlotChallenge epoch_index timeslot randomness slot_challenge solution_range) =
     (if is_farming then
        bindR (solve D p epoch_index timeslot randomness slot_challenge solution_range) (\<lambda>solutions. Ok (is_farming, Some solutions))
      else Ok (is_farming, None))"
| "farmer_step D p is_farming StartFarming = Ok (True, None)"
| "farmer_step D p is_farming StopFarming = Ok (False, None)"

section \<open>Solutions\<close>

definition solution_of :: "('d, 'z) storage_scheme \<Rightarrow> 'd PlotState \<Rightarrow> Solution \<Rightarrow> bool" where
  "solution_of D p s \<longleftrightarrow> read_encoding D p (s_piece_index s) = Ok (Inr (s_encoding s, s_merkle_proof s))"

lemma solve_tags:
  assumes "\<forall>(tag, i) \<in> set tags. \<exists>e m. read_encoding D p i = Ok (Inr (e, m))"
  shows "\<exists>more. foldR (solve_tag D p ei ts rnd r target) sols tags = Ok (sols @ more) \<and>
    map (\<lambda>s. (s_tag s, s_piece_index s)) more = tags \<and>
    (\<forall>s \<in> set more. solution_of D p s \<and> s_epoch_index s = ei \<and> s_timeslot s = ts \<and> s_randomness s = rnd \<and>
       s_solution_range s = r \<and> s_target s = target)"
  using assms
proof (induction tags arbitrary: sols)
  case (Cons ti tags)
  obtain tag i where ti: "ti = (tag, i)" by force
  obtain e m where r: "read_encoding D p i = Ok (Inr (e, m))" using Cons.prems ti by auto
  let ?s = "\<lparr>s_epoch_index = ei, s_timeslot = ts, s_randomness = rnd, s_piece_index = i, s_tag = tag, s_encoding = e,
    s_merkle_proof = m, s_solution_range = r, s_target = target\<rparr>"
  obtain rest where rest: "foldR (solve_tag D p ei ts rnd r target) (sols @ [?s]) tags = Ok ((sols @ [?s]) @ rest)"
      "map (\<lambda>s. (s_tag s, s_piece_index s)) rest = tags"
      "\<forall>s \<in> set rest. solution_of D p s \<and> s_epoch_index s = ei \<and> s_timeslot s = ts \<and> s_randomness s = rnd \<and>
         s_solution_range s = r \<and> s_target s = target"
    using Cons.IH [of "sols @ [?s]"] Cons.prems by auto
  have "solve_tag D p ei ts rnd r target sols ti = Ok (sols @ [?s])" by (simp add: solve_tag_def ti r)
  then show ?case using rest r ti by (intro exI [of _ "?s # rest"]) (simp add: solution_of_def)
qed simp

lemma near_within:
  assumes "circular_near t (r div 2) g"
  shows "within_solution_range t r g"
proof (cases "unat t < unat (r div 2) \<or> 2 ^ 64 \<le> unat t + unat (r div 2)")
  case False
  define h where "h = r div 2"
  have f: "unat h \<le> unat t" "unat t + unat h < 2 ^ 64" using False unfolding h_def by linarith+
  have "unat (t + h) = unat t + unat h" "unat (t - h) = unat t - unat h"
    using f by (simp_all add: unat_word_ariths unat_sub_cases)
  moreover have "t - h \<le> g \<and> g \<le> t + h" using arc_plain [OF f] assms unfolding h_def by blast
  ultimately have "unat t \<le> unat g + unat h \<and> unat g \<le> unat t + unat h" by (auto simp: word_le_nat_alt)
  then show ?thesis using within_solution_range_plain [of r t g] f unfolding h_def by blast
qed (rule within_solution_range_wrapped)

lemma solve_facts:
  assumes "storage_ok D" and "plot_ok D p" and "plot_provable E D L p"
  shows "\<exists>sols. solve D p ei ts rnd challenge r = Ok sols \<and> distinct (map s_tag sols) \<and>
    (\<forall>s \<in> set sols. solution_of D p s \<and> s_epoch_index s = ei \<and> s_timeslot s = ts \<and> s_randomness s = rnd \<and>
       s_solution_range s = r \<and> s_target s = take 8 challenge) \<and>
    (\<forall>tag i. (\<exists>s \<in> set sols. s_tag s = tag \<and> s_piece_index s = i) \<longleftrightarrow>
       map_of (db_entries D (tags_db p)) tag = Some (u64_to_le_bytes i) \<and>
       circular_near (u64_from_be_bytes (take 8 challenge)) (r div 2) (u64_from_be_bytes tag))"
proof -
  have "entries8 (db_entries D (tags_db p))" using assms(2) by (simp add: plot_ok_def)
  from find_by_range_facts [OF storage_okD(1) [OF assms(1)] this, of "take 8 challenge" r]
  obtain tags where tags: "find_by_range D p (take 8 challenge) r = Ok tags" "distinct (map fst tags)"
      "\<And>tag i. (tag, i) \<in> set tags \<longleftrightarrow> map_of (db_entries D (tags_db p)) tag = Some (u64_to_le_bytes i) \<and>
         circular_near (u64_from_be_bytes (take 8 challenge)) (r div 2) (u64_from_be_bytes tag)"
    by blast
  have "\<forall>(tag, i) \<in> set tags. \<exists>e m. read_encoding D p i = Ok (Inr (e, m))"
    using tags(3) assms(3) unfolding plot_provable_def by blast
  from solve_tags [OF this, of ei ts rnd r "take 8 challenge" "[]"]
  obtain sols where s: "foldR (solve_tag D p ei ts rnd r (take 8 challenge)) [] tags = Ok sols"
      "map (\<lambda>s. (s_tag s, s_piece_index s)) sols = tags"
      "\<forall>s \<in> set sols. solution_of D p s \<and> s_epoch_index s = ei \<and> s_timeslot s = ts \<and> s_randomness s = rnd \<and>
         s_solution_range s = r \<and> s_target s = take 8 challenge"
    by auto
  have "solve D p ei ts rnd challenge r = Ok sols" using tags(1) s(1) by (simp add: solve_def Let_def)
  moreover have "distinct (map s_tag sols)" using tags(2) unfolding s(2) [symmetric] by (simp add: comp_def)
  moreover have "(\<exists>s \<in> set sols. s_tag s = tag \<and> s_piece_index s = i) \<longleftrightarrow> (tag, i) \<in> set tags" for tag i
    unfolding s(2) [symmetric] by auto
  ultimately show ?thesis using s(3) tags(3) by blast
qed

lemma solve_solution_ok:
  assumes "plot_provable E D L p" and "get_slot_challenge E (epoch_tracker L) (s_epoch_index s) (s_timeslot s) = Ok (s_randomness s, challenge)"
    and "solution_of D p s" and "s_target s = take 8 challenge"
    and "map_of (db_entries D (tags_db p)) (s_tag s) = Some (u64_to_le_bytes (s_piece_index s))"
    and "circular_near (u64_from_be_bytes (take 8 challenge)) (s_solution_range s div 2) (u64_from_be_bytes (s_tag s))"
  shows "solution_ok E L s"
proof -
  obtain sb piece where "get_state_block_by_height (state L) (s_piece_index s div of_nat PIECES_PER_STATE_BLOCK) = Some sb"
      "decode E (sloth L) (s_encoding s) (expand_iv E (digest_sha_256 E (public (keys L)))) ENCODING_LAYERS_TEST = Ok piece"
      "validate_merkle_proof E (digest_sha_256 E piece) (s_merkle_proof s) (piece_merkle_root sb)"
    using assms(1,3,5) unfolding plot_provable_def solution_of_def by force
  then show ?thesis using assms(2,4) near_within [OF assms(6)] unfolding solution_ok_def by auto
qed

section \<open>Stale tags\<close>

lemma solve_tags_stale:
  assumes "\<forall>(tag, i) \<in> set tags. \<exists>r. read_encoding D p i = Ok r" and "\<exists>(tag, i) \<in> set tags. \<exists>e. read_encoding D p i = Ok (Inl e)"
  shows "foldR (solve_tag D p ei ts rnd r target) sols tags = Panic Unwrap"
  using assms
proof (induction tags arbitrary: sols)
  case (Cons ti tags)
  obtain tag i where ti: "ti = (tag, i)" by force
  obtain x where x: "read_encoding D p i = Ok x" using Cons.prems(1) ti by auto
  show ?case
  proof (cases x)
    case (Inr em)
    then have "\<exists>(tag, i) \<in> set tags. \<exists>e. read_encoding D p i = Ok (Inl e)" using Cons.prems(2) x ti by auto
    then show ?thesis using Cons.IH Cons.prems(1) x Inr ti by (simp add: solve_tag_def split_def)
  qed (use x ti in \<open>simp add: solve_tag_def\<close>)
qed simp

text \<open>Every solution found in a provable plot gives a valid block.\<close>

lemma solutions_give_blocks:
  assumes "storage_ok D" and "plot_ok D p" and "plot_provable E D L p" and "ed25519_ok E (keys L)"
    and "get_slot_challenge E (epoch_tracker L) ei ts = Ok (rnd, challenge)"
  shows "\<exists>sols. solve D p ei ts rnd challenge r = Ok sols \<and>
    (\<forall>s \<in> set sols. \<forall>sibs L1 parent refs. choose_refs L s sibs = Ok (L1, parent, refs) \<longrightarrow>
       (\<exists>L' b. create_and_apply_local_block E now L s sibs = Ok (L', b) \<and> validate_block E L b = Ok True))"
proof -
  obtain sols where s: "solve D p ei ts rnd challenge r = Ok sols"
      "\<And>s. s \<in> set sols \<Longrightarrow> solution_of D p s \<and> s_epoch_index s = ei \<and> s_timeslot s = ts \<and> s_randomness s = rnd \<and>
         s_solution_range s = r \<and> s_target s = take 8 challenge"
      "\<And>tag i. (\<exists>s \<in> set sols. s_tag s = tag \<and> s_piece_index s = i) \<longleftrightarrow>
         map_of (db_entries D (tags_db p)) tag = Some (u64_to_le_bytes i) \<and>
         circular_near (u64_from_be_bytes (take 8 challenge)) (r div 2) (u64_from_be_bytes tag)"
    using solve_facts [OF assms(1-3), of ei ts rnd challenge r] by blast
  have "\<exists>L' b. create_and_apply_local_block E now L s sibs = Ok (L', b) \<and> validate_block E L b = Ok True"
    if m: "s \<in> set sols" and c: "choose_refs L s sibs = Ok (L1, parent, refs)" for s sibs L1 parent refs
  proof -
    have "map_of (db_entries D (tags_db p)) (s_tag s) = Some (u64_to_le_bytes (s_piece_index s)) \<and>
        circular_near (u64_from_be_bytes (take 8 challenge)) (r div 2) (u64_from_be_bytes (s_tag s))"
      using s(3) m by blast
    then have "solution_ok E L s"
      using s(2) [OF m] assms(5) by (intro solve_solution_ok [OF assms(3), where challenge = challenge]) simp_all
    then show ?thesis by (rule local_block [OF assms(4) _ c, where ts = now]) blast
  qed
  then show ?thesis using s(1) by blast
qed

section \<open>Properties\<close>

text \<open>
  \<^bold>\<open>C3\<close>: from disk to block.  For a challenge of the ledger's own epoch tracker, a farmer with
  a provable plot returns solutions, and each of them is turned by the ledger into a block that
  passes validation.
\<close>

theorem farmed_blocks_valid:
  assumes "storage_ok D" and "plot_ok D p" and "plot_provable E D L p" and "ed25519_ok E (keys L)"
    and "get_slot_challenge E (epoch_tracker L) ei ts = Ok (rnd, challenge)"
  shows "\<exists>sols. farmer_step D p True (SlotChallenge ei ts rnd challenge r) = Ok (True, Some sols) \<and>
    (\<forall>s \<in> set sols. \<forall>sibs L1 parent refs. choose_refs L s sibs = Ok (L1, parent, refs) \<longrightarrow>
       (\<exists>L' b. create_and_apply_local_block E now L s sibs = Ok (L', b) \<and> validate_block E L b = Ok True))"
  using solutions_give_blocks [OF assms, of r now] by auto

text \<open>
  While it farms, the farmer finds exactly the stored tags near the challenge, each
  once, and sends with each the encoding and proof that the plot holds under its index.
\<close>

theorem farmer_solutions_exact:
  assumes "storage_ok D" and "plot_ok D p" and "plot_provable E D L p"
  shows "\<exists>sols. farmer_step D p True (SlotChallenge ei ts rnd challenge r) = Ok (True, Some sols) \<and> distinct (map s_tag sols) \<and>
    (\<forall>s \<in> set sols. read_encoding D p (s_piece_index s) = Ok (Inr (s_encoding s, s_merkle_proof s))) \<and>
    (\<forall>tag i. (\<exists>s \<in> set sols. s_tag s = tag \<and> s_piece_index s = i) \<longleftrightarrow>
       map_of (db_entries D (tags_db p)) tag = Some (u64_to_le_bytes i) \<and>
       circular_near (u64_from_be_bytes (take 8 challenge)) (r div 2) (u64_from_be_bytes tag))"
proof -
  obtain sols where "solve D p ei ts rnd challenge r = Ok sols" "distinct (map s_tag sols)" "\<forall>s \<in> set sols. solution_of D p s"
      "\<forall>tag i. (\<exists>s \<in> set sols. s_tag s = tag \<and> s_piece_index s = i) \<longleftrightarrow>
         map_of (db_entries D (tags_db p)) tag = Some (u64_to_le_bytes i) \<and>
         circular_near (u64_from_be_bytes (take 8 challenge)) (r div 2) (u64_from_be_bytes tag)"
    using solve_facts [OF assms, of ei ts rnd challenge r] by blast
  then show ?thesis unfolding solution_of_def by simp
qed

text \<open>
  Removing a piece leaves its tag behind, and the next challenge near that tag panics the
  farmer.
\<close>

theorem farmer_panics_after_remove:
  assumes "storage_ok D" and "plot_ok D p" and "map_of (db_entries D (tags_db p)) tag = Some (u64_to_le_bytes i)"
    and "circular_near (u64_from_be_bytes (take 8 challenge)) (r div 2) (u64_from_be_bytes tag)"
    and "serve_write E D p (RemoveEncoding i) = Ok (p', Inr ())"
  shows "farmer_step D p' True (SlotChallenge ei ts rnd challenge r) = Panic Unwrap"
proof -
  have f: "plot_file p' = plot_file p" "tags_db p' = tags_db p"
      "map_of (db_entries D (map_db p')) = (map_of (db_entries D (map_db p)))(u64_to_le_bytes i := None)"
    using remove_encoding_facts [OF assms(1), of p i] assms(5) by auto
  have ok: "plot_ok D p'" using assms(2) unfolding plot_ok_def f by simp
  have reads: "\<exists>x. read_encoding D p' j = Ok x" for j by (simp add: read_encoding_eq [OF assms(1) ok] split: option.split)
  have "read_encoding D p' i = Ok (Inl NotFound)" by (simp add: read_encoding_eq [OF assms(1) ok] f(3))
  have "entries8 (db_entries D (tags_db p'))" using ok by (simp add: plot_ok_def)
  from find_by_range_facts [OF storage_okD(1) [OF assms(1)] this, of "take 8 challenge" r]
  obtain tags where tags: "find_by_range D p' (take 8 challenge) r = Ok tags" "(tag, i) \<in> set tags"
    using assms(3,4) unfolding f(2) by blast
  have "foldR (solve_tag D p' ei ts rnd r (take 8 challenge)) [] tags = Panic Unwrap"
    by (rule solve_tags_stale) (use reads tags(2) \<open>read_encoding D p' i = Ok (Inl NotFound)\<close> in auto)
  then show ?thesis using tags(1) by (simp add: solve_def Let_def)
qed

section \<open>A concrete case\<close>

text \<open>A plot with one piece, whose tag is the target of the first challenge.\<close>

definition first_challenge :: bytes where
  "first_challenge = digest_sha_256 toy_blocklib (replicate 32 0 @ u64_to_le_bytes 1)"

definition small_encoding :: Piece where
  "small_encoding = write_integers_to_array [5, 2] small_piece 2048"

definition one_piece_plot :: "(bytes \<times> bytes option) list PlotState" where
  "one_piece_plot = \<lparr>plot_file = small_encoding, map_db = [(u64_to_le_bytes 0, Some (u64_to_le_bytes 0 @ pb_piece_proof small_bundle))],
     tags_db = [(take 8 first_challenge, Some (u64_to_le_bytes 0))]\<rparr>"

lemma first_challenge_length: "length first_challenge = 32"
  by (simp add: first_challenge_def digest_sha_256_def toy_blocklib_def blocklib.defs toy_defs)

lemma small_decode:
  "decode toy_blocklib small_sloth small_encoding (replicate 32 0) ENCODING_LAYERS_TEST = Ok small_piece \<and> length small_encoding = PIECE_SIZE"
  unfolding small_encoding_def
proof (rule encode_decode)
  show "block_size_bytes small_sloth dvd PIECE_SIZE" "2 * block_size_bytes small_sloth \<le> PIECE_SIZE"
    using small_sloth_fits by (simp_all add: sloth_fits_def)
qed (use small_encode small_layers_good small_length toy_gmp in \<open>simp_all add: ENCODING_LAYERS_TEST_def\<close>)

lemma one_piece_plot_maps:
  "map_of (db_entries log_storage (tags_db one_piece_plot)) = [take 8 first_challenge \<mapsto> u64_to_le_bytes 0]"
  "map_of (db_entries log_storage (map_db one_piece_plot)) = [u64_to_le_bytes 0 \<mapsto> u64_to_le_bytes 0 @ pb_piece_proof small_bundle]"
  "plot_file one_piece_plot = small_encoding"
  by (simp_all add: one_piece_plot_def log_storage_def)

lemma one_piece_plot_ok: "plot_ok log_storage one_piece_plot"
proof -
  have "entries8 (db_entries log_storage (tags_db one_piece_plot))"
    unfolding entries8_map_of [OF storage_okD(1) [OF log_storage_ok]] one_piece_plot_maps by (simp add: first_challenge_length)
  then show ?thesis
    using small_decode unfolding plot_ok_def one_piece_plot_maps by (auto simp: PIECE_SIZE_def)
qed

lemma one_piece_plot_read: "read_encoding log_storage one_piece_plot 0 = Ok (Inr (small_encoding, pb_piece_proof small_bundle))"
  using small_decode by (simp add: read_encoding_eq [OF log_storage_ok one_piece_plot_ok] one_piece_plot_maps)

lemma one_piece_plot_provable: "plot_provable toy_blocklib log_storage plot_ledger one_piece_plot"
proof -
  obtain sb where "get_state_block_by_height toy_state 0 = Some sb"
      "validate_merkle_proof toy_blocklib (digest_sha_256 toy_blocklib small_piece) (pb_piece_proof small_bundle) (piece_merkle_root sb)"
    using small_bundle_good by (auto simp: bundle_good_def small_bundle_def)
  then show ?thesis
    unfolding plot_provable_def one_piece_plot_maps using one_piece_plot_read small_decode
    by (auto simp: le_bytes_u64_inj toy_digest_zero toy_iv_zero)
qed

lemma first_challenge_eq:
  "get_slot_challenge toy_blocklib (epoch_tracker plot_ledger) 0 1 = Ok (replicate 32 0, first_challenge)"
  by (simp add: slot_challenge_closed first_challenge_def)

lemma near_self [simp]: "circular_near t h t"
  by (simp add: circular_near_def)

theorem farmer_solutions_exact_witness:
  "\<exists>sols. farmer_step log_storage one_piece_plot True (SlotChallenge 0 1 (replicate 32 0) first_challenge 0) = Ok (True, Some sols) \<and>
     (\<exists>s \<in> set sols. s_tag s = take 8 first_challenge \<and> s_piece_index s = 0)"
  using farmer_solutions_exact [OF log_storage_ok one_piece_plot_ok one_piece_plot_provable, of 0 1 "replicate 32 0" first_challenge 0]
  by (auto simp: one_piece_plot_maps)

lemma plot_ledger_choose: "s_solution_range s = 0 \<Longrightarrow> \<exists>L1 parent refs. choose_refs plot_ledger s [] = Ok (L1, parent, refs)"
  by (simp add: choose_refs_def choose_parent_def get_head_def Let_def plot_ledger_def)

theorem farmed_blocks_valid_witness:
  "\<exists>sols s L' b. farmer_step log_storage one_piece_plot True (SlotChallenge 0 1 (replicate 32 0) first_challenge 0) = Ok (True, Some sols) \<and>
     s \<in> set sols \<and> create_and_apply_local_block toy_blocklib 7 plot_ledger s [] = Ok (L', b) \<and> validate_block toy_blocklib plot_ledger b = Ok True"
proof -
  have k: "ed25519_ok toy_blocklib (keys plot_ledger)"
    by (simp add: toy_laws(3) toy_blocklib_def blocklib.defs toy_defs)
  obtain sols where s: "farmer_step log_storage one_piece_plot True (SlotChallenge 0 1 (replicate 32 0) first_challenge 0) = Ok (True, Some sols)"
      "\<forall>s \<in> set sols. \<forall>sibs L1 parent refs. choose_refs plot_ledger s sibs = Ok (L1, parent, refs) \<longrightarrow>
       (\<exists>L' b. create_and_apply_local_block toy_blocklib 7 plot_ledger s sibs = Ok (L', b) \<and> validate_block toy_blocklib plot_ledger b = Ok True)"
    using farmed_blocks_valid [OF log_storage_ok one_piece_plot_ok one_piece_plot_provable k first_challenge_eq, of 0 7] by blast
  have "solve log_storage one_piece_plot 0 1 (replicate 32 0) first_challenge 0 = Ok sols" using s(1) by (auto elim!: bindR_Ok_E)
  then obtain r: "\<forall>s \<in> set sols. s_solution_range s = 0"
      and "(\<exists>s \<in> set sols. s_tag s = take 8 first_challenge \<and> s_piece_index s = 0) \<longleftrightarrow>
         map_of (db_entries log_storage (tags_db one_piece_plot)) (take 8 first_challenge) = Some (u64_to_le_bytes 0) \<and>
         circular_near (u64_from_be_bytes (take 8 first_challenge)) (0 div 2) (u64_from_be_bytes (take 8 first_challenge))"
    using solve_facts [OF log_storage_ok one_piece_plot_ok one_piece_plot_provable, of 0 1 "replicate 32 0" first_challenge 0] by auto
  then obtain s where m: "s \<in> set sols" "s_solution_range s = 0" by (auto simp: one_piece_plot_maps)
  obtain L1 parent refs where "choose_refs plot_ledger s [] = Ok (L1, parent, refs)" using plot_ledger_choose [OF m(2)] by blast
  then show ?thesis using s m(1) by blast
qed

theorem farmer_panics_after_remove_witness:
  "\<exists>p'. serve_write toy_crypto log_storage one_piece_plot (RemoveEncoding 0) = Ok (p', Inr ()) \<and>
     farmer_step log_storage p' True (SlotChallenge 0 1 (replicate 32 0) first_challenge 0) = Panic Unwrap"
proof -
  obtain p' where "serve_write toy_crypto log_storage one_piece_plot (RemoveEncoding 0) = Ok (p', Inr ())"
    using remove_encoding_facts [OF log_storage_ok, of one_piece_plot 0] by auto
  then show ?thesis
    using farmer_panics_after_remove [OF log_storage_ok one_piece_plot_ok, of "take 8 first_challenge" 0 first_challenge 0 toy_crypto p' 0 1 "replicate 32 0"]
    by (auto simp: one_piece_plot_maps)
qed

end
