(* ===== verification/Timer.thy ===== *)
theory Timer
  imports Farmer
begin

text \<open>
  The timer (\<^verbatim>\<open>src/timer.rs\<close>).  The epoch tracker is shared with the ledger, so the timer advances the
  one inside the ledger; the clock is an argument.

  Main results: the timer can always compute the challenge it sends, the challenge is for the epoch
  of its timeslot, and it is the one that validation will compute.
\<close>

section \<open>Definitions\<close>

record TimerState =
  current_epoch_index :: u64
  t_next_timeslot :: u64

definition timer_start :: "Ledger \<Rightarrow> u64 \<Rightarrow> TimerState" where
  "timer_start L timeslot = \<lparr>current_epoch_index = get_current_epoch (epoch_tracker L), t_next_timeslot = timeslot\<rparr>"

text \<open>
  How long the timer sleeps, in milliseconds, \<open>elapsed\<close> being the time since genesis.  The timeslot is cast to 32
  bits before it is multiplied.
\<close>

definition sleep_time :: "u64 \<Rightarrow> nat \<Rightarrow> nat" where
  "sleep_time timeslot elapsed = unat (ucast timeslot :: u32) * unat TIMESLOT_DURATION - elapsed"

text \<open>The test for a new epoch, and one turn of the loop after the sleep.\<close>

definition epoch_boundary :: "TimerState \<Rightarrow> bool" where
  "epoch_boundary t \<longleftrightarrow> t_next_timeslot t mod TIMESLOTS_PER_EPOCH = 0 \<and>
     current_epoch_index t < t_next_timeslot t div TIMESLOTS_PER_EPOCH"

definition timer_step ::
  "'z blocklib_scheme \<Rightarrow> bool \<Rightarrow> TimerState \<times> Ledger \<Rightarrow> (TimerState \<times> Ledger \<times> FarmerMessage option) res" where
  "timer_step E is_farming s =
     (case s of (t, L) \<Rightarrow>
        bindR (next_timeslot E L) (\<lambda>L.
        bindR (if epoch_boundary t then
                 bindR (advance_epoch E (epoch_tracker L)) (\<lambda>(tracker, e). Ok (L\<lparr>epoch_tracker := tracker\<rparr>, e))
               else Ok (L, current_epoch_index t)) (\<lambda>(L, e).
        bindR (get_slot_challenge E (epoch_tracker L) e (t_next_timeslot t)) (\<lambda>(randomness, slot_challenge).
        Ok (\<lparr>current_epoch_index = e, t_next_timeslot = t_next_timeslot t + 1\<rparr>, L,
            if is_farming then
              Some (SlotChallenge e (t_next_timeslot t) randomness slot_challenge (current_solution_range L))
            else None)))))"

section \<open>Staging only adds proofs to the tracker\<close>

definition same_epoch :: "Inner \<Rightarrow> Inner \<Rightarrow> bool" where
  "same_epoch t t' \<longleftrightarrow> (tracker_ok t \<longrightarrow> tracker_ok t') \<and> current_epoch t' = current_epoch t"

lemma same_epoch_refl [simp]: "same_epoch t t"
  by (simp add: same_epoch_def)

lemma same_epoch_trans: "same_epoch t t' \<Longrightarrow> same_epoch t' t'' \<Longrightarrow> same_epoch t t''"
  by (simp add: same_epoch_def)

lemma add_proof_same_epoch: "add_proof_to_epoch t e a p = Ok t' \<Longrightarrow> same_epoch t t'"
  using tracker_ok_add_proof [of t e a p t'] by (auto simp: same_epoch_def add_proof_to_epoch_def bindR_Ok_iff)

lemma claim_tracker [simp]: "epoch_tracker (foldl claim_tx_block L ids) = epoch_tracker L"
  using claim_tx_blocks_with [of L ids] by auto

lemma claim_txs_tracker [simp]: "epoch_tracker (foldl claim_tx L ids) = epoch_tracker L"
  by (induction ids arbitrary: L) (simp_all add: claim_tx_def)

lemma staging_tracker [simp]:
  "epoch_tracker (drop_cached_proposer E L p c) = epoch_tracker L"
  "epoch_tracker (update_heads L a c h) = epoch_tracker L"
  "epoch_tracker (add_block_to_timeslot L ts p) = epoch_tracker L"
  by (simp_all add: drop_cached_proposer_def Let_def update_heads_def add_block_to_timeslot_def split: option.split)

lemma genesis_timestamp_tracker [simp]: "epoch_tracker (if c then L\<lparr>genesis_timestamp := x\<rparr> else L) = epoch_tracker L"
  by simp

lemma record_same_epoch:
  assumes "record_proposer_block E L b pc = Ok L'"
  shows "same_epoch (epoch_tracker L) (epoch_tracker L')"
proof -
  have "\<exists>e a p. add_proof_to_epoch (epoch_tracker L) e a p = Ok (epoch_tracker L')"
    using assms unfolding record_proposer_block_def Let_def by (elim bindR_Ok_E case_prodE) (clarsimp elim!: bindR_Ok_E, blast)
  then show ?thesis using add_proof_same_epoch by blast
qed

lemma stage_proposer_same_epoch:
  assumes "stage_proposer_block E L b = Ok L'"
  shows "same_epoch (epoch_tracker L) (epoch_tracker L')"
proof -
  obtain pc L1 r where L1: "record_proposer_block E L b pc = Ok L1"
      "r = None \<and> L' = L1 \<or> (\<exists>m v. r = Some m \<and> confirm_block E L1 m = Ok (L', v))"
    using assms by (rule stage_proposer_Ok)
  have "epoch_tracker L' = epoch_tracker L1" using L1(2) confirm_fixed(3) [of E L1 _ L'] by auto
  then show ?thesis using record_same_epoch [OF L1(1)] by simp
qed

lemma stage_tx_same_epoch: "stage_tx_block E L b = Ok L' \<Longrightarrow> epoch_tracker L' = epoch_tracker L"
  by (auto simp: stage_tx_block_def Let_def bindR_Ok_iff)

lemma next_timeslot_same_epoch:
  assumes "next_timeslot E L = Ok L'"
  shows "same_epoch (epoch_tracker L) (epoch_tracker L')"
proof -
  let ?L = "apply_range_update (L\<lparr>current_timeslot := current_timeslot L + 1\<rparr>)"
  have t: "epoch_tracker ?L = epoch_tracker L" by (simp add: apply_range_update_def Let_def)
  show ?thesis
  proof (cases "early_blocks_by_timeslot ?L (current_timeslot ?L)")
    case None
    then show ?thesis using assms t by (simp add: next_timeslot_def Let_def)
  next
    case (Some bs)
    then obtain L1 where L1: "foldR (stage_early_block E) ?L bs = Ok L1" "epoch_tracker L' = epoch_tracker L1"
      using assms by (auto simp: next_timeslot_def Let_def bindR_Ok_iff)
    have "same_epoch (epoch_tracker ?L) (epoch_tracker L1)"
    proof (rule foldR_invariant [OF L1(1)])
      fix M b M' assume i: "same_epoch (epoch_tracker ?L) (epoch_tracker M)" and s: "stage_early_block E M b = Ok M'"
      have "same_epoch (epoch_tracker M) (epoch_tracker M')"
        using s stage_proposer_same_epoch [of E M b M'] stage_tx_same_epoch [of E M b M']
        by (auto simp: stage_early_block_def bindR_Ok_iff split: if_splits)
      then show "same_epoch (epoch_tracker ?L) (epoch_tracker M')" using i same_epoch_trans by blast
    qed simp
    then show ?thesis using t L1(2) by simp
  qed
qed

section \<open>Alignment of timeslots and epochs\<close>

text \<open>
  The epoch is the one of the timeslot to come, or the one before when that timeslot starts an epoch.
\<close>

definition aligned :: "u64 \<Rightarrow> u64 \<Rightarrow> bool" where
  "aligned e n \<longleftrightarrow> e = n div TIMESLOTS_PER_EPOCH \<or> (n mod TIMESLOTS_PER_EPOCH = 0 \<and> e + 1 = n div TIMESLOTS_PER_EPOCH \<and> e \<noteq> - 1)"

definition timer_ok :: "TimerState \<times> Ledger \<Rightarrow> bool" where
  "timer_ok s \<longleftrightarrow> (case s of (t, L) \<Rightarrow> tracker_ok (epoch_tracker L) \<and> current_epoch (epoch_tracker L) = current_epoch_index t \<and>
     aligned (current_epoch_index t) (t_next_timeslot t))"

lemma unat_epoch: "unat (n div TIMESLOTS_PER_EPOCH) = unat n div 32" "unat (n mod TIMESLOTS_PER_EPOCH) = unat n mod 32"
  by (simp_all add: TIMESLOTS_PER_EPOCH_def unat_div unat_mod)

lemma epoch_next:
  assumes "n \<noteq> - 1"
  shows "n div TIMESLOTS_PER_EPOCH \<noteq> - 1"
    "(n + 1) div TIMESLOTS_PER_EPOCH = n div TIMESLOTS_PER_EPOCH + (if (n + 1) mod TIMESLOTS_PER_EPOCH = 0 then 1 else 0)"
proof -
  have u: "unat (n + 1) = unat n + 1" by (rule unat_succ_u64 [OF assms])
  have b: "unat n div 32 < 2 ^ 64 - 1" using unat_bound [of n] by simp
  show m: "n div TIMESLOTS_PER_EPOCH \<noteq> - 1"
  proof
    assume "n div TIMESLOTS_PER_EPOCH = - 1"
    then have "unat n div 32 = unat (- 1 :: u64)" using unat_epoch(1) [of n] by simp
    then show False using b by (simp add: unsigned_minus_1_eq_mask mask_eq_exp_minus_1)
  qed
  have z: "(n + 1) mod TIMESLOTS_PER_EPOCH = 0 \<longleftrightarrow> unat (n + 1) mod 32 = 0"
    using unat_epoch(2) [of "n + 1"] by (simp add: word_unat_eq_iff)
  show "(n + 1) div TIMESLOTS_PER_EPOCH = n div TIMESLOTS_PER_EPOCH + (if (n + 1) mod TIMESLOTS_PER_EPOCH = 0 then 1 else 0)"
  proof (cases "unat (n + 1) mod 32 = 0")
    case True
    then have "unat (n + 1) div 32 = unat n div 32 + 1" unfolding u by (simp add: div_Suc)
    then have "(n + 1) div TIMESLOTS_PER_EPOCH = n div TIMESLOTS_PER_EPOCH + 1"
      unfolding word_unat_eq_iff unat_succ_u64 [OF m] unat_epoch by simp
    then show ?thesis using True z by simp
  next
    case False
    then have "unat (n + 1) div 32 = unat n div 32" unfolding u by (simp add: div_Suc)
    then have "(n + 1) div TIMESLOTS_PER_EPOCH = n div TIMESLOTS_PER_EPOCH" unfolding word_unat_eq_iff unat_epoch by simp
    then show ?thesis using False z by simp
  qed
qed

lemma aligned_next: "n \<noteq> - 1 \<Longrightarrow> aligned (n div TIMESLOTS_PER_EPOCH) (n + 1)"
  using epoch_next [of n] by (simp add: aligned_def split: if_splits)

lemma boundary_cases:
  assumes "aligned (current_epoch_index t) (t_next_timeslot t)"
  shows "if epoch_boundary t then current_epoch_index t \<noteq> - 1 \<and> current_epoch_index t + 1 = t_next_timeslot t div TIMESLOTS_PER_EPOCH
    else current_epoch_index t = t_next_timeslot t div TIMESLOTS_PER_EPOCH"
proof (cases "current_epoch_index t = t_next_timeslot t div TIMESLOTS_PER_EPOCH")
  case False
  then have f: "t_next_timeslot t mod TIMESLOTS_PER_EPOCH = 0" "current_epoch_index t + 1 = t_next_timeslot t div TIMESLOTS_PER_EPOCH"
      "current_epoch_index t \<noteq> - 1"
    using assms by (auto simp: aligned_def)
  then have "current_epoch_index t < t_next_timeslot t div TIMESLOTS_PER_EPOCH" using succ_le_u64(2) [OF f(3)] by (metis order_refl)
  then show ?thesis using f by (simp add: epoch_boundary_def)
qed (simp add: epoch_boundary_def)

text \<open>A turn of the timer, given that the ledger's part of it returns.\<close>

lemma timer_turn:
  assumes "timer_ok (t, L)" and "next_timeslot E L = Ok L1"
  shows "\<exists>L' r c. timer_step E is_farming (t, L) =
      Ok (\<lparr>current_epoch_index = t_next_timeslot t div TIMESLOTS_PER_EPOCH, t_next_timeslot = t_next_timeslot t + 1\<rparr>, L',
        if is_farming then Some (SlotChallenge (t_next_timeslot t div TIMESLOTS_PER_EPOCH) (t_next_timeslot t) r c (current_solution_range L'))
        else None) \<and>
    tracker_ok (epoch_tracker L') \<and> current_epoch (epoch_tracker L') = t_next_timeslot t div TIMESLOTS_PER_EPOCH \<and>
    get_slot_challenge E (epoch_tracker L') (t_next_timeslot t div TIMESLOTS_PER_EPOCH) (t_next_timeslot t) = Ok (r, c)"
proof -
  let ?n = "t_next_timeslot t"
  have L1: "tracker_ok (epoch_tracker L1)" "current_epoch (epoch_tracker L1) = current_epoch_index t"
    using next_timeslot_same_epoch [OF assms(2)] assms(1) by (simp_all add: same_epoch_def timer_ok_def)
  have b: "if epoch_boundary t then current_epoch_index t \<noteq> - 1 \<and> current_epoch_index t + 1 = ?n div TIMESLOTS_PER_EPOCH
      else current_epoch_index t = ?n div TIMESLOTS_PER_EPOCH"
    using assms(1) by (intro boundary_cases) (simp add: timer_ok_def)
  obtain L' where L': "(if epoch_boundary t then
        bindR (advance_epoch E (epoch_tracker L1)) (\<lambda>(tracker, e). Ok (L1\<lparr>epoch_tracker := tracker\<rparr>, e))
      else Ok (L1, current_epoch_index t)) = Ok (L', ?n div TIMESLOTS_PER_EPOCH)"
      "tracker_ok (epoch_tracker L')" "current_epoch (epoch_tracker L') = ?n div TIMESLOTS_PER_EPOCH"
  proof (cases "epoch_boundary t")
    case True
    then have c: "current_epoch (epoch_tracker L1) \<noteq> - 1" "current_epoch (epoch_tracker L1) + 1 = ?n div TIMESLOTS_PER_EPOCH"
      using b L1(2) by simp_all
    obtain tr where tr: "advance_epoch E (epoch_tracker L1) = Ok (tr, ?n div TIMESLOTS_PER_EPOCH)"
        "current_epoch tr = ?n div TIMESLOTS_PER_EPOCH"
      using advance_epoch_Ok [OF L1(1) c(1), of E] c(2) by auto
    then show thesis using True that [of "L1\<lparr>epoch_tracker := tr\<rparr>"] tracker_ok_advance [OF L1(1) c(1) tr(1)] by simp
  qed (use that [of L1] L1 b in simp)
  obtain r c where rc: "get_slot_challenge E (epoch_tracker L') (?n div TIMESLOTS_PER_EPOCH) ?n = Ok (r, c)"
    using slot_challenge_Ok_iff [OF L'(2), of E "?n div TIMESLOTS_PER_EPOCH" ?n] L'(3) by auto
  have "timer_step E is_farming (t, L) = Ok (\<lparr>current_epoch_index = ?n div TIMESLOTS_PER_EPOCH, t_next_timeslot = ?n + 1\<rparr>, L',
      if is_farming then Some (SlotChallenge (?n div TIMESLOTS_PER_EPOCH) ?n r c (current_solution_range L')) else None)"
    unfolding timer_step_def prod.case assms(2) bindR_simps L'(1) rc by (rule refl)
  then show ?thesis using L'(2,3) rc by blast
qed

section \<open>Properties\<close>

text \<open>
  \<^bold>\<open>C11\<close>: a turn of the timer that returns sends a challenge for its own timeslot and for the epoch the
  timeslot is in, the same challenge that block validation computes from the ledger's tracker,
  and leaves timer, tracker and clock aligned for the next turn.
\<close>

theorem timer_challenge_current:
  assumes "timer_ok (t, L)" and "t_next_timeslot t \<noteq> - 1" and "timer_step E True (t, L) = Ok (t', L', m)"
  shows "timer_ok (t', L') \<and> t_next_timeslot t' = t_next_timeslot t + 1 \<and>
    (\<exists>r c. m = Some (SlotChallenge (t_next_timeslot t div TIMESLOTS_PER_EPOCH) (t_next_timeslot t) r c (current_solution_range L')) \<and>
       get_slot_challenge E (epoch_tracker L') (t_next_timeslot t div TIMESLOTS_PER_EPOCH) (t_next_timeslot t) = Ok (r, c))"
proof -
  obtain L1 where "next_timeslot E L = Ok L1" using assms(3) by (auto simp: timer_step_def elim!: bindR_Ok_E)
  from timer_turn [OF assms(1) this, of True] show ?thesis
    using assms(3) aligned_next [OF assms(2)] by (auto simp: timer_ok_def)
qed

text \<open>
  In an aligned state the timer panics exactly when the ledger's own step of time
  does; advancing the epoch and computing the challenge cannot fail.
\<close>

theorem timer_panics_iff:
  assumes "timer_ok (t, L)"
  shows "timer_step E is_farming (t, L) = Panic e \<longleftrightarrow> next_timeslot E L = Panic e"
proof (cases "next_timeslot E L")
  case (Inr L1)
  then show ?thesis using timer_turn [OF assms Inr, of is_farming] by auto
qed (simp add: timer_step_def)

section \<open>A concrete case\<close>

lemma toy_timer_ok: "timer_ok (timer_start toy_ledger 1, toy_ledger)"
proof -
  have "tracker_ok (epoch_tracker toy_ledger)" using tracker_new(2) [of toy_crypto] by simp
  then show ?thesis by (simp add: timer_ok_def timer_start_def get_current_epoch_def aligned_def TIMESLOTS_PER_EPOCH_def)
qed

lemma toy_next_timeslot: "\<exists>L1. next_timeslot toy_blocklib toy_ledger = Ok L1"
  by (simp add: next_timeslot_def Let_def apply_range_update_def)

theorem timer_challenge_current_witness:
  "\<exists>t' L' r c. timer_step toy_blocklib True (timer_start toy_ledger 1, toy_ledger) =
       Ok (t', L', Some (SlotChallenge 0 1 r c (current_solution_range L'))) \<and> timer_ok (t', L')"
proof -
  obtain L1 where "next_timeslot toy_blocklib toy_ledger = Ok L1" using toy_next_timeslot by blast
  then obtain t' L' m where s: "timer_step toy_blocklib True (timer_start toy_ledger 1, toy_ledger) = Ok (t', L', m)"
    using timer_turn [OF toy_timer_ok, of toy_blocklib L1 True] by blast
  show ?thesis using timer_challenge_current [OF toy_timer_ok _ s] s by (auto simp: timer_start_def TIMESLOTS_PER_EPOCH_def)
qed

theorem timer_panics_iff_witness:
  "timer_step toy_blocklib True (timer_start toy_ledger 1, toy_ledger) \<noteq> Panic Unwrap"
  using timer_panics_iff [OF toy_timer_ok, of toy_blocklib True Unwrap] toy_next_timeslot by auto

end
