(* ===== verification/Nodes_Container.thy ===== *)
theory Nodes_Container
  imports Prelude "HOL-Library.Finite_Map"
begin

text \<open>
  Bookkeeping of peers (\<^verbatim>\<open>src/network/nodes_container.rs\<close>): contacts, pending peers, connected peers and
  the block list.  The LRU cache that holds the block list is a third-party structure and a
  parameter, with its documented behaviour as \<open>lru_ok\<close>; the random choice of a contact is an
  argument; a TCP stream is the number of its handle.

  Main results: after any sequence of operations each address is in at most one of the three tables,
  no address on the block list is in any of them, and the number of contacts stays within its limit;
  seen from outside the container is a state machine over the status of each address.
\<close>

section \<open>Data\<close>

datatype SocketAddr = V4 u32 u16 | V6 "128 word" u16 u32 u32

record Contact =
  ct_node_addr :: SocketAddr
  currently_checking :: bool

record PendingPeer =
  pp_node_addr :: SocketAddr

record Peer =
  pe_node_addr :: SocketAddr
  pe_stream :: nat

record ContactsLevel =
  cl_min_contacts :: bool
  cl_max_contacts :: bool

record PeersLevel =
  pl_min_peers :: bool
  pl_max_peers :: bool

text \<open>\<^verbatim>\<open>LruCache\<close>: a new cache of a capacity, \<^verbatim>\<open>put\<close>, \<^verbatim>\<open>get\<close> (which reorders), and the keys it holds.\<close>

record 'l lru =
  lru_new :: "nat \<Rightarrow> 'l"
  lru_put :: "'l \<Rightarrow> SocketAddr \<Rightarrow> 'l"
  lru_get :: "'l \<Rightarrow> SocketAddr \<Rightarrow> 'l \<times> bool"
  lru_keys :: "'l \<Rightarrow> SocketAddr list"

text \<open>\<^verbatim>\<open>put\<close> can only evict other keys, \<^verbatim>\<open>get\<close> tells membership and evicts nothing.\<close>

definition lru_ok :: "('l, 'z) lru_scheme \<Rightarrow> bool" where
  "lru_ok R \<longleftrightarrow> (\<forall>n. lru_keys R (lru_new R n) = []) \<and>
     (\<forall>c a. set (lru_keys R (lru_put R c a)) \<subseteq> insert a (set (lru_keys R c))) \<and>
     (\<forall>c a. snd (lru_get R c a) \<longleftrightarrow> a \<in> set (lru_keys R c)) \<and>
     (\<forall>c a. set (lru_keys R (fst (lru_get R c a))) = set (lru_keys R c))"

record 'l NodesContainer =
  min_contacts :: nat
  max_contacts :: nat
  min_peers :: nat
  max_peers :: nat
  block_list :: 'l
  contacts :: "(SocketAddr, Contact) fmap"
  pending_peers :: "(SocketAddr, PendingPeer) fmap"
  peers :: "(SocketAddr, Peer) fmap"

section \<open>Operations\<close>

definition PendingPeer_from_contact :: "Contact \<Rightarrow> PendingPeer" where
  "PendingPeer_from_contact c = \<lparr>pp_node_addr = ct_node_addr c\<rparr>"

definition PendingPeer_from_peer :: "Peer \<Rightarrow> PendingPeer" where
  "PendingPeer_from_peer p = \<lparr>pp_node_addr = pe_node_addr p\<rparr>"

definition NodesContainer_new :: "('l, 'z) lru_scheme \<Rightarrow> nat \<Rightarrow> nat \<Rightarrow> nat \<Rightarrow> nat \<Rightarrow> nat \<Rightarrow> 'l NodesContainer" where
  "NodesContainer_new R min_c max_c min_p max_p block_list_size =
     \<lparr>min_contacts = min_c, max_contacts = max_c, min_peers = min_p, max_peers = max_p,
      block_list = lru_new R block_list_size, contacts = fmempty, pending_peers = fmempty, peers = fmempty\<rparr>"

definition add_to_block_list :: "('l, 'z) lru_scheme \<Rightarrow> 'l NodesContainer \<Rightarrow> SocketAddr \<Rightarrow> 'l NodesContainer" where
  "add_to_block_list R nc node_addr =
     nc\<lparr>block_list := lru_put R (block_list nc) node_addr, contacts := fmdrop node_addr (contacts nc),
        pending_peers := fmdrop node_addr (pending_peers nc), peers := fmdrop node_addr (peers nc)\<rparr>"

definition check_is_in_block_list ::
  "('l, 'z) lru_scheme \<Rightarrow> 'l NodesContainer \<Rightarrow> SocketAddr \<Rightarrow> 'l NodesContainer \<times> bool" where
  "check_is_in_block_list R nc node_addr =
     (let (l, found) = lru_get R (block_list nc) node_addr in (nc\<lparr>block_list := l\<rparr>, found))"

text \<open>Iterators over hash maps have no fixed order, so their contents are sets.\<close>

definition get_contacts :: "'l NodesContainer \<Rightarrow> SocketAddr fset" where
  "get_contacts nc = fmdom (peers nc) |\<union>| fmdom (pending_peers nc) |\<union>| fmdom (contacts nc)"

record PersistedNodes =
  pn_contacts :: "SocketAddr fset"
  pn_peers :: "SocketAddr fset"
  pn_blocklist :: "SocketAddr list"

definition get_persisted_nodes :: "('l, 'z) lru_scheme \<Rightarrow> 'l NodesContainer \<Rightarrow> PersistedNodes" where
  "get_persisted_nodes R nc =
     \<lparr>pn_contacts = fmdom (contacts nc) |\<union>| fmdom (pending_peers nc), pn_peers = fmdom (peers nc),
      pn_blocklist = lru_keys R (block_list nc)\<rparr>"

definition get_contacts_to_check :: "'l NodesContainer \<Rightarrow> 'l NodesContainer \<times> SocketAddr fset" where
  "get_contacts_to_check nc =
     (nc\<lparr>contacts := fmmap (\<lambda>c. c\<lparr>currently_checking := True\<rparr>) (contacts nc)\<rparr>,
      fmdom (fmfilter (\<lambda>a. \<not> currently_checking (the (fmlookup (contacts nc) a))) (contacts nc)))"

definition add_contact :: "('l, 'z) lru_scheme \<Rightarrow> 'l NodesContainer \<Rightarrow> SocketAddr \<Rightarrow> 'l NodesContainer" where
  "add_contact R nc node_addr =
     (if fmlookup (pending_peers nc) node_addr \<noteq> None \<or> fmlookup (peers nc) node_addr \<noteq> None then nc
      else
        (let (nc, blocked) = check_is_in_block_list R nc node_addr
         in if blocked then nc
            else nc\<lparr>contacts := fmupd node_addr \<lparr>ct_node_addr = node_addr, currently_checking = False\<rparr> (contacts nc)\<rparr>))"

text \<open>The subtraction of two \<^verbatim>\<open>usize\<close> wraps.\<close>

definition add_contacts :: "('l, 'z) lru_scheme \<Rightarrow> 'l NodesContainer \<Rightarrow> SocketAddr list \<Rightarrow> 'l NodesContainer" where
  "add_contacts R nc addrs =
     (let contacts_until_max = (max_contacts nc + 2 ^ 64 - fcard (fmdom (contacts nc))) mod 2 ^ 64
      in foldl (add_contact R) nc (take contacts_until_max addrs))"

definition finish_successful_contact_check :: "'l NodesContainer \<Rightarrow> SocketAddr \<Rightarrow> 'l NodesContainer" where
  "finish_successful_contact_check nc addr =
     (case fmlookup (contacts nc) addr of
        Some contact \<Rightarrow> nc\<lparr>contacts := fmupd addr (contact\<lparr>currently_checking := False\<rparr>) (contacts nc)\<rparr>
      | None \<Rightarrow> nc)"

definition finish_failed_contact_check :: "'l NodesContainer \<Rightarrow> SocketAddr \<Rightarrow> 'l NodesContainer" where
  "finish_failed_contact_check nc addr = nc\<lparr>contacts := fmdrop addr (contacts nc)\<rparr>"

definition connect_to_specific_contact ::
  "'l NodesContainer \<Rightarrow> SocketAddr \<Rightarrow> 'l NodesContainer \<times> PendingPeer option" where
  "connect_to_specific_contact nc node_addr =
     (case fmlookup (contacts nc) node_addr of
        Some contact \<Rightarrow>
          (let pending_peer = PendingPeer_from_contact contact
           in (nc\<lparr>contacts := fmdrop node_addr (contacts nc),
                  pending_peers := fmupd (pp_node_addr pending_peer) pending_peer (pending_peers nc)\<rparr>,
               Some pending_peer))
      | None \<Rightarrow> (nc, None))"

text \<open>\<open>chosen\<close> is what the random choice from the keys returned.\<close>

definition connect_to_random_contact ::
  "'l NodesContainer \<Rightarrow> SocketAddr option \<Rightarrow> ('l NodesContainer \<times> PendingPeer option) res" where
  "connect_to_random_contact nc chosen =
     (case chosen of
        Some node_addr \<Rightarrow>
          bindR (unwrap (fmlookup (contacts nc) node_addr)) (\<lambda>contact.
          let pending_peer = PendingPeer_from_contact contact
          in Ok (nc\<lparr>contacts := fmdrop node_addr (contacts nc),
                    pending_peers := fmupd (pp_node_addr pending_peer) pending_peer (pending_peers nc)\<rparr>,
                 Some pending_peer))
      | None \<Rightarrow> Ok (nc, None))"

definition start_peer_reconnection ::
  "'l NodesContainer \<Rightarrow> SocketAddr \<Rightarrow> 'l NodesContainer \<times> PendingPeer option" where
  "start_peer_reconnection nc node_addr =
     (case fmlookup (peers nc) node_addr of
        Some peer \<Rightarrow>
          (let pending_peer = PendingPeer_from_peer peer
           in (nc\<lparr>peers := fmdrop node_addr (peers nc),
                  pending_peers := fmupd (pp_node_addr pending_peer) pending_peer (pending_peers nc)\<rparr>,
               Some pending_peer))
      | None \<Rightarrow> (nc, None))"

definition remove_peer :: "'l NodesContainer \<Rightarrow> SocketAddr \<Rightarrow> 'l NodesContainer" where
  "remove_peer nc node_addr = nc\<lparr>peers := fmdrop node_addr (peers nc)\<rparr>"

definition finish_successful_connection_attempt ::
  "'l NodesContainer \<Rightarrow> PendingPeer \<Rightarrow> nat \<Rightarrow> 'l NodesContainer \<times> Peer option" where
  "finish_successful_connection_attempt nc pending_peer stream =
     (case fmlookup (pending_peers nc) (pp_node_addr pending_peer) of
        Some p \<Rightarrow>
          (let peer = \<lparr>pe_node_addr = pp_node_addr p, pe_stream = stream\<rparr>
           in (nc\<lparr>pending_peers := fmdrop (pp_node_addr pending_peer) (pending_peers nc),
                  peers := fmupd (pp_node_addr p) peer (peers nc)\<rparr>,
               Some peer))
      | None \<Rightarrow> (nc, None))"

definition is_peer_connected :: "'l NodesContainer \<Rightarrow> SocketAddr \<Rightarrow> bool" where
  "is_peer_connected nc addr \<longleftrightarrow> fmlookup (peers nc) addr \<noteq> None"

definition finish_failed_connection_attempt :: "'l NodesContainer \<Rightarrow> PendingPeer \<Rightarrow> 'l NodesContainer" where
  "finish_failed_connection_attempt nc pending_peer =
     nc\<lparr>pending_peers := fmdrop (pp_node_addr pending_peer) (pending_peers nc)\<rparr>"

definition get_peers :: "'l NodesContainer \<Rightarrow> Peer fset" where
  "get_peers nc = fmran (peers nc)"

definition contacts_level :: "'l NodesContainer \<Rightarrow> ContactsLevel" where
  "contacts_level nc =
     \<lparr>cl_min_contacts = min_contacts nc \<le> fcard (fmdom (contacts nc)),
      cl_max_contacts = max_contacts nc \<le> fcard (fmdom (contacts nc))\<rparr>"

definition peers_level :: "'l NodesContainer \<Rightarrow> PeersLevel" where
  "peers_level nc =
     \<lparr>pl_min_peers = min_peers nc \<le> fcard (fmdom (peers nc)),
      pl_max_peers = max_peers nc \<le> fcard (fmdom (peers nc))\<rparr>"

section \<open>The container as a state machine\<close>

datatype node_op = Block_node SocketAddr | Check_blocked SocketAddr | Add_contacts "SocketAddr list" | Contacts_to_check
  | Contact_ok SocketAddr | Contact_failed SocketAddr | Connect_random "SocketAddr option" | Connect_to SocketAddr
  | Reconnect SocketAddr | Remove_peer SocketAddr | Connected PendingPeer nat | Connect_failed PendingPeer

fun nodes_step :: "('l, 'z) lru_scheme \<Rightarrow> 'l NodesContainer \<Rightarrow> node_op \<Rightarrow> 'l NodesContainer res" where
  "nodes_step R nc (Block_node a) = Ok (add_to_block_list R nc a)"
| "nodes_step R nc (Check_blocked a) = Ok (fst (check_is_in_block_list R nc a))"
| "nodes_step R nc (Add_contacts as) = Ok (add_contacts R nc as)"
| "nodes_step R nc Contacts_to_check = Ok (fst (get_contacts_to_check nc))"
| "nodes_step R nc (Contact_ok a) = Ok (finish_successful_contact_check nc a)"
| "nodes_step R nc (Contact_failed a) = Ok (finish_failed_contact_check nc a)"
| "nodes_step R nc (Connect_random chosen) = bindR (connect_to_random_contact nc chosen) (\<lambda>(nc, _). Ok nc)"
| "nodes_step R nc (Connect_to a) = Ok (fst (connect_to_specific_contact nc a))"
| "nodes_step R nc (Reconnect a) = Ok (fst (start_peer_reconnection nc a))"
| "nodes_step R nc (Remove_peer a) = Ok (remove_peer nc a)"
| "nodes_step R nc (Connected p stream) = Ok (fst (finish_successful_connection_attempt nc p stream))"
| "nodes_step R nc (Connect_failed p) = Ok (finish_failed_connection_attempt nc p)"

text \<open>What an outside observer sees of an address.\<close>

datatype status = Unknown | Known | Pending | Online

definition node_status :: "'l NodesContainer \<Rightarrow> SocketAddr \<Rightarrow> status" where
  "node_status nc a =
     (case fmlookup (peers nc) a of Some _ \<Rightarrow> Online
      | None \<Rightarrow> (case fmlookup (pending_peers nc) a of Some _ \<Rightarrow> Pending
          | None \<Rightarrow> (case fmlookup (contacts nc) a of Some _ \<Rightarrow> Known | None \<Rightarrow> Unknown)))"

definition move :: "status \<Rightarrow> status \<Rightarrow> SocketAddr \<Rightarrow> (SocketAddr \<Rightarrow> status) \<Rightarrow> (SocketAddr \<Rightarrow> status)" where
  "move from_status to_status a s = (if s a = from_status then s(a := to_status) else s)"

text \<open>The specification, with the blocked addresses and the room for contacts as parameters.\<close>

fun spec_step :: "SocketAddr set \<Rightarrow> nat \<Rightarrow> (SocketAddr \<Rightarrow> status) \<Rightarrow> node_op \<Rightarrow> (SocketAddr \<Rightarrow> status)" where
  "spec_step B room s (Block_node a) = s(a := Unknown)"
| "spec_step B room s (Add_contacts as) =
     (\<lambda>a. if a \<in> set (take room as) \<and> a \<notin> B \<and> s a = Unknown then Known else s a)"
| "spec_step B room s (Contact_failed a) = move Known Unknown a s"
| "spec_step B room s (Connect_random (Some a)) = move Known Pending a s"
| "spec_step B room s (Connect_to a) = move Known Pending a s"
| "spec_step B room s (Reconnect a) = move Online Pending a s"
| "spec_step B room s (Remove_peer a) = move Online Unknown a s"
| "spec_step B room s (Connected p _) = move Pending Online (pp_node_addr p) s"
| "spec_step B room s (Connect_failed p) = move Pending Unknown (pp_node_addr p) s"
| "spec_step B room s _ = s"

section \<open>Invariant\<close>

definition tables_ok :: "(SocketAddr, Contact) fmap \<Rightarrow> (SocketAddr, PendingPeer) fmap \<Rightarrow> (SocketAddr, Peer) fmap \<Rightarrow> bool" where
  "tables_ok c pp pe \<longleftrightarrow>
     (\<forall>a x. fmlookup c a = Some x \<longrightarrow> ct_node_addr x = a \<and> fmlookup pp a = None \<and> fmlookup pe a = None) \<and>
     (\<forall>a x. fmlookup pp a = Some x \<longrightarrow> pp_node_addr x = a \<and> fmlookup pe a = None) \<and>
     (\<forall>a x. fmlookup pe a = Some x \<longrightarrow> pe_node_addr x = a)"

definition nodes_ok :: "('l, 'z) lru_scheme \<Rightarrow> 'l NodesContainer \<Rightarrow> bool" where
  "nodes_ok R nc \<longleftrightarrow> tables_ok (contacts nc) (pending_peers nc) (peers nc) \<and>
     (\<forall>a \<in> set (lru_keys R (block_list nc)). node_status nc a = Unknown) \<and>
     fcard (fmdom (contacts nc)) \<le> max_contacts nc \<and> max_contacts nc < 2 ^ 64"

lemma nodes_okD:
  assumes "nodes_ok R nc"
  shows "tables_ok (contacts nc) (pending_peers nc) (peers nc)" "a \<in> set (lru_keys R (block_list nc)) \<Longrightarrow> node_status nc a = Unknown"
    "fcard (fmdom (contacts nc)) \<le> max_contacts nc" "max_contacts nc < 2 ^ 64"
  using assms by (auto simp: nodes_ok_def)

lemma tables_okD:
  assumes "tables_ok c pp pe"
  shows "fmlookup c a = Some x \<Longrightarrow> ct_node_addr x = a" "fmlookup c a = Some x \<Longrightarrow> fmlookup pp a = None"
    "fmlookup c a = Some x \<Longrightarrow> fmlookup pe a = None" "fmlookup pp a = Some y \<Longrightarrow> pp_node_addr y = a"
    "fmlookup pp a = Some y \<Longrightarrow> fmlookup pe a = None" "fmlookup pe a = Some z \<Longrightarrow> pe_node_addr z = a"
  using assms unfolding tables_ok_def by blast+

lemma tables_ok_drop:
  assumes "tables_ok c pp pe"
  shows "tables_ok (fmdrop a c) pp pe" "tables_ok c (fmdrop a pp) pe" "tables_ok c pp (fmdrop a pe)"
  using assms unfolding tables_ok_def fmlookup_drop by auto

lemma tables_ok_upd:
  assumes "tables_ok c pp pe"
  shows "ct_node_addr x = a \<Longrightarrow> fmlookup pp a = None \<Longrightarrow> fmlookup pe a = None \<Longrightarrow> tables_ok (fmupd a x c) pp pe"
    "pp_node_addr y = a \<Longrightarrow> fmlookup c a = None \<Longrightarrow> fmlookup pe a = None \<Longrightarrow> tables_ok c (fmupd a y pp) pe"
    "pe_node_addr z = a \<Longrightarrow> fmlookup c a = None \<Longrightarrow> fmlookup pp a = None \<Longrightarrow> tables_ok c pp (fmupd a z pe)"
  using assms unfolding tables_ok_def fmupd_lookup by auto

lemma tables_ok_disjoint:
  assumes "tables_ok c pp pe"
  shows "fmlookup pe a = Some z \<Longrightarrow> fmlookup pp a = None" "fmlookup pe a = Some z \<Longrightarrow> fmlookup c a = None"
    "fmlookup pp a = Some y \<Longrightarrow> fmlookup c a = None"
  using tables_okD(2,3,5) [OF assms, of a] by (cases "fmlookup pp a"; cases "fmlookup c a"; simp)+

lemma fcard_drop: "fcard (fmdom (fmdrop a m)) \<le> fcard (fmdom m)"
  by (intro fcard_mono) auto

lemma fcard_upd: "fcard (fmdom (fmupd a x m)) \<le> Suc (fcard (fmdom m))"
  by (simp add: fcard_finsert_if)

lemma fcard_upd_present: "fmlookup m a = Some y \<Longrightarrow> fcard (finsert a (fmdom m)) = fcard (fmdom m)"
  by (simp add: fcard_finsert_if fmdomI)

section \<open>Every operation refines its specification\<close>

definition refines :: "('l, 'z) lru_scheme \<Rightarrow> 'l NodesContainer \<Rightarrow> 'l NodesContainer \<Rightarrow> (SocketAddr \<Rightarrow> status) \<Rightarrow> bool" where
  "refines R nc nc' s \<longleftrightarrow> nodes_ok R nc' \<and> node_status nc' = s"

lemma refinesI:
  assumes "tables_ok (contacts nc') (pending_peers nc') (peers nc')" and "node_status nc' = s"
    and "\<And>a. a \<in> set (lru_keys R (block_list nc')) \<Longrightarrow> s a = Unknown"
    and "fcard (fmdom (contacts nc')) \<le> max_contacts nc'" and "max_contacts nc' < 2 ^ 64"
  shows "refines R nc nc' s"
  using assms by (simp add: refines_def nodes_ok_def)

lemma move_apply: "move f t a s b = (if b = a \<and> s a = f then t else s b)"
  by (simp add: move_def)

lemma status_move:
  assumes "\<And>b. b \<noteq> a \<Longrightarrow> node_status nc' b = node_status nc b"
    and "node_status nc a = f \<Longrightarrow> node_status nc' a = t" and "node_status nc a \<noteq> f \<Longrightarrow> node_status nc' a = node_status nc a"
  shows "node_status nc' = move f t a (node_status nc)"
proof
  fix b
  show "node_status nc' b = move f t a (node_status nc) b"
    using assms(1) [of b] assms(2,3) by (cases "b = a"; cases "node_status nc a = f") (simp_all add: move_apply)
qed

lemma move_Unknown: "s b = Unknown \<Longrightarrow> f \<noteq> Unknown \<Longrightarrow> move f t a s b = Unknown"
  by (auto simp: move_apply)

lemma block_refines:
  assumes ok: "nodes_ok R nc" and "lru_ok R"
  shows "refines R nc (add_to_block_list R nc a) ((node_status nc)(a := Unknown))"
proof (rule refinesI)
  show "tables_ok (contacts (add_to_block_list R nc a)) (pending_peers (add_to_block_list R nc a)) (peers (add_to_block_list R nc a))"
    using nodes_okD(1) [OF ok] by (simp add: add_to_block_list_def tables_ok_drop)
  show "node_status (add_to_block_list R nc a) = (node_status nc)(a := Unknown)"
    by (simp add: node_status_def add_to_block_list_def fun_eq_iff split: option.split)
  show "((node_status nc)(a := Unknown)) b = Unknown" if "b \<in> set (lru_keys R (block_list (add_to_block_list R nc a)))" for b
  proof -
    have "set (lru_keys R (lru_put R (block_list nc) a)) \<subseteq> insert a (set (lru_keys R (block_list nc)))"
      using assms(2) unfolding lru_ok_def by blast
    then have "b = a \<or> b \<in> set (lru_keys R (block_list nc))" using that by (auto simp: add_to_block_list_def)
    then show ?thesis using nodes_okD(2) [OF ok] by auto
  qed
  show "fcard (fmdom (contacts (add_to_block_list R nc a))) \<le> max_contacts (add_to_block_list R nc a)"
    using nodes_okD(3) [OF ok] fcard_drop [of a "contacts nc"] by (simp add: add_to_block_list_def)
qed (use nodes_okD(4) [OF ok] in \<open>simp add: add_to_block_list_def\<close>)

lemma check_refines:
  assumes "nodes_ok R nc" and "lru_ok R"
  shows "refines R nc (fst (check_is_in_block_list R nc a)) (node_status nc)"
    "snd (check_is_in_block_list R nc a) \<longleftrightarrow> a \<in> set (lru_keys R (block_list nc))"
    "set (lru_keys R (block_list (fst (check_is_in_block_list R nc a)))) = set (lru_keys R (block_list nc))"
    "contacts (fst (check_is_in_block_list R nc a)) = contacts nc" "pending_peers (fst (check_is_in_block_list R nc a)) = pending_peers nc"
    "peers (fst (check_is_in_block_list R nc a)) = peers nc" "max_contacts (fst (check_is_in_block_list R nc a)) = max_contacts nc"
proof -
  obtain l f where g: "lru_get R (block_list nc) a = (l, f)" by force
  have "snd (lru_get R (block_list nc) a) \<longleftrightarrow> a \<in> set (lru_keys R (block_list nc))"
      "set (lru_keys R (fst (lru_get R (block_list nc) a))) = set (lru_keys R (block_list nc))"
    using assms(2) unfolding lru_ok_def by blast+
  then have k: "f \<longleftrightarrow> a \<in> set (lru_keys R (block_list nc))" "set (lru_keys R l) = set (lru_keys R (block_list nc))"
    by (simp_all add: g)
  then show "snd (check_is_in_block_list R nc a) \<longleftrightarrow> a \<in> set (lru_keys R (block_list nc))"
    "set (lru_keys R (block_list (fst (check_is_in_block_list R nc a)))) = set (lru_keys R (block_list nc))"
    "contacts (fst (check_is_in_block_list R nc a)) = contacts nc" "pending_peers (fst (check_is_in_block_list R nc a)) = pending_peers nc"
    "peers (fst (check_is_in_block_list R nc a)) = peers nc" "max_contacts (fst (check_is_in_block_list R nc a)) = max_contacts nc"
    by (simp_all add: check_is_in_block_list_def g)
  show "refines R nc (fst (check_is_in_block_list R nc a)) (node_status nc)"
  proof -
    have "node_status (nc\<lparr>block_list := l\<rparr>) = node_status nc" by (simp add: node_status_def fun_eq_iff split: option.split)
    then show ?thesis using assms(1) k by (simp add: refines_def nodes_ok_def check_is_in_block_list_def g)
  qed
qed

lemma to_check_refines:
  assumes ok: "nodes_ok R nc"
  shows "refines R nc (fst (get_contacts_to_check nc)) (node_status nc)"
proof (rule refinesI)
  let ?nc = "fst (get_contacts_to_check nc)"
  have f: "contacts ?nc = fmmap (\<lambda>c. c\<lparr>currently_checking := True\<rparr>) (contacts nc)" "pending_peers ?nc = pending_peers nc"
      "peers ?nc = peers nc" "block_list ?nc = block_list nc" "max_contacts ?nc = max_contacts nc"
    by (simp_all add: get_contacts_to_check_def)
  show "tables_ok (contacts ?nc) (pending_peers ?nc) (peers ?nc)"
    using nodes_okD(1) [OF ok] unfolding f tables_ok_def by auto
  show "node_status ?nc = node_status nc" by (rule ext) (simp add: node_status_def f split: option.split)
  show "fcard (fmdom (contacts ?nc)) \<le> max_contacts ?nc" "max_contacts ?nc < 2 ^ 64"
    using nodes_okD(3,4) [OF ok] by (simp_all add: f)
  show "node_status nc a = Unknown" if "a \<in> set (lru_keys R (block_list ?nc))" for a
    using that nodes_okD(2) [OF ok] by (simp add: f)
qed

lemma contact_ok_refines:
  assumes ok: "nodes_ok R nc"
  shows "refines R nc (finish_successful_contact_check nc a) (node_status nc)"
proof (cases "fmlookup (contacts nc) a")
  case None
  then show ?thesis using ok by (simp add: finish_successful_contact_check_def refines_def)
next
  case (Some c)
  note t = nodes_okD(1) [OF ok]
  let ?nc = "nc\<lparr>contacts := fmupd a (c\<lparr>currently_checking := False\<rparr>) (contacts nc)\<rparr>"
  have "refines R nc ?nc (node_status nc)"
  proof (rule refinesI)
    show "tables_ok (contacts ?nc) (pending_peers ?nc) (peers ?nc)"
      using tables_ok_upd(1) [OF t, of "c\<lparr>currently_checking := False\<rparr>" a] tables_okD(1-3) [OF t Some] by simp
    show "node_status ?nc = node_status nc" using Some by (intro ext) (auto simp: node_status_def split: option.split)
  qed (use nodes_okD(2-4) [OF ok] in \<open>simp_all add: fcard_upd_present [OF Some]\<close>)
  then show ?thesis using Some by (simp add: finish_successful_contact_check_def)
qed

lemma contact_failed_refines:
  assumes ok: "nodes_ok R nc"
  shows "refines R nc (finish_failed_contact_check nc a) (move Known Unknown a (node_status nc))"
proof (rule refinesI)
  let ?nc = "finish_failed_contact_check nc a"
  show "tables_ok (contacts ?nc) (pending_peers ?nc) (peers ?nc)"
    using tables_ok_drop(1) [OF nodes_okD(1) [OF ok]] by (simp add: finish_failed_contact_check_def)
  show "node_status ?nc = move Known Unknown a (node_status nc)"
    by (rule status_move) (simp_all add: finish_failed_contact_check_def node_status_def split: option.splits)
qed (use nodes_okD(2-4) [OF ok] fcard_drop [of a "contacts nc"] in \<open>simp_all add: finish_failed_contact_check_def move_Unknown\<close>)

lemma connect_specific_refines:
  assumes ok: "nodes_ok R nc"
  shows "refines R nc (fst (connect_to_specific_contact nc a)) (move Known Pending a (node_status nc))"
proof (cases "fmlookup (contacts nc) a")
  case None
  then have "node_status nc a \<noteq> Known" by (simp add: node_status_def split: option.split)
  then show ?thesis using None ok by (simp add: connect_to_specific_contact_def refines_def move_def)
next
  case (Some c)
  note t = nodes_okD(1) [OF ok]
  note d = tables_okD(1-3) [OF t Some]
  let ?nc = "nc\<lparr>contacts := fmdrop a (contacts nc), pending_peers := fmupd a \<lparr>pp_node_addr = a\<rparr> (pending_peers nc)\<rparr>"
  have e: "fst (connect_to_specific_contact nc a) = ?nc"
    using Some d(1) by (simp add: Let_def connect_to_specific_contact_def PendingPeer_from_contact_def)
  have "refines R nc ?nc (move Known Pending a (node_status nc))"
  proof (rule refinesI)
    show "tables_ok (contacts ?nc) (pending_peers ?nc) (peers ?nc)"
      using tables_ok_upd(2) [OF tables_ok_drop(1) [OF t, of a], of "\<lparr>pp_node_addr = a\<rparr>" a] d by simp
    show "node_status ?nc = move Known Pending a (node_status nc)"
      using d Some by (intro status_move) (simp_all add: node_status_def split: option.split)
  qed (use nodes_okD(2-4) [OF ok] fcard_drop [of a "contacts nc"] in \<open>simp_all add: move_Unknown\<close>)
  then show ?thesis by (simp only: e)
qed

lemma connect_random_eq:
  "connect_to_random_contact nc chosen = (case chosen of None \<Rightarrow> Ok (nc, None)
     | Some a \<Rightarrow> if fmlookup (contacts nc) a = None then Panic Unwrap else Ok (connect_to_specific_contact nc a))"
  by (auto simp: connect_to_random_contact_def connect_to_specific_contact_def Let_def split: option.split)

lemma connect_random_cases:
  assumes "nodes_step R nc (Connect_random chosen) = Ok nc'"
  shows "(chosen = None \<and> nc' = nc) \<or> (\<exists>a. chosen = Some a \<and> nc' = fst (connect_to_specific_contact nc a))"
  using assms by (auto simp: connect_random_eq split_def bindR_def split: option.splits if_splits)

lemma reconnect_refines:
  assumes ok: "nodes_ok R nc"
  shows "refines R nc (fst (start_peer_reconnection nc a)) (move Online Pending a (node_status nc))"
proof (cases "fmlookup (peers nc) a")
  case None
  then have "node_status nc a \<noteq> Online" by (simp add: node_status_def split: option.split)
  then show ?thesis using None ok by (simp add: start_peer_reconnection_def refines_def move_def)
next
  case (Some p)
  note t = nodes_okD(1) [OF ok]
  note d = tables_okD(6) [OF t Some] tables_ok_disjoint(1,2) [OF t Some]
  let ?nc = "nc\<lparr>peers := fmdrop a (peers nc), pending_peers := fmupd a \<lparr>pp_node_addr = a\<rparr> (pending_peers nc)\<rparr>"
  have e: "fst (start_peer_reconnection nc a) = ?nc"
    using Some d(1) by (simp add: Let_def start_peer_reconnection_def PendingPeer_from_peer_def)
  have "refines R nc ?nc (move Online Pending a (node_status nc))"
  proof (rule refinesI)
    show "tables_ok (contacts ?nc) (pending_peers ?nc) (peers ?nc)"
      using tables_ok_upd(2) [OF tables_ok_drop(3) [OF t, of a], of "\<lparr>pp_node_addr = a\<rparr>" a] d by simp
    show "node_status ?nc = move Online Pending a (node_status nc)"
      using d Some by (intro status_move) (simp_all add: node_status_def split: option.split)
  qed (use nodes_okD(2-4) [OF ok] in \<open>simp_all add: move_Unknown\<close>)
  then show ?thesis by (simp only: e)
qed

lemma remove_refines:
  assumes ok: "nodes_ok R nc"
  shows "refines R nc (remove_peer nc a) (move Online Unknown a (node_status nc))"
proof (rule refinesI)
  note t = nodes_okD(1) [OF ok]
  show "tables_ok (contacts (remove_peer nc a)) (pending_peers (remove_peer nc a)) (peers (remove_peer nc a))"
    using tables_ok_drop(3) [OF t] by (simp add: remove_peer_def)
  show "node_status (remove_peer nc a) = move Online Unknown a (node_status nc)"
    using tables_ok_disjoint(1,2) [OF t, of a]
    by (intro status_move; cases "fmlookup (peers nc) a") (simp_all add: remove_peer_def node_status_def split: option.splits)
qed (use nodes_okD(2-4) [OF ok] in \<open>simp_all add: remove_peer_def move_Unknown\<close>)

lemma connected_refines:
  assumes ok: "nodes_ok R nc"
  shows "refines R nc (fst (finish_successful_connection_attempt nc p stream)) (move Pending Online (pp_node_addr p) (node_status nc))"
proof (cases "fmlookup (pending_peers nc) (pp_node_addr p)")
  case None
  then have "node_status nc (pp_node_addr p) \<noteq> Pending" by (simp add: node_status_def split: option.split)
  then show ?thesis using None ok by (simp add: finish_successful_connection_attempt_def refines_def move_def)
next
  case (Some q)
  note t = nodes_okD(1) [OF ok]
  note d = tables_okD(4,5) [OF t Some] tables_ok_disjoint(3) [OF t Some]
  let ?a = "pp_node_addr p"
  let ?nc = "nc\<lparr>pending_peers := fmdrop ?a (pending_peers nc), peers := fmupd ?a \<lparr>pe_node_addr = ?a, pe_stream = stream\<rparr> (peers nc)\<rparr>"
  have e: "fst (finish_successful_connection_attempt nc p stream) = ?nc"
    using Some d(1) by (simp add: finish_successful_connection_attempt_def Let_def)
  have "refines R nc ?nc (move Pending Online ?a (node_status nc))"
  proof (rule refinesI)
    show "tables_ok (contacts ?nc) (pending_peers ?nc) (peers ?nc)"
      using tables_ok_upd(3) [OF tables_ok_drop(2) [OF t, of ?a], of "\<lparr>pe_node_addr = ?a, pe_stream = stream\<rparr>" ?a] d by simp
    show "node_status ?nc = move Pending Online ?a (node_status nc)"
      using d Some by (intro status_move) (simp_all add: node_status_def split: option.split)
  qed (use nodes_okD(2-4) [OF ok] in \<open>simp_all add: move_Unknown\<close>)
  then show ?thesis by (simp only: e)
qed

lemma connect_failed_refines:
  assumes ok: "nodes_ok R nc"
  shows "refines R nc (finish_failed_connection_attempt nc p) (move Pending Unknown (pp_node_addr p) (node_status nc))"
proof (rule refinesI)
  let ?nc = "finish_failed_connection_attempt nc p"
  note t = nodes_okD(1) [OF ok]
  show "tables_ok (contacts ?nc) (pending_peers ?nc) (peers ?nc)"
    using tables_ok_drop(2) [OF t] by (simp add: finish_failed_connection_attempt_def)
  show "node_status ?nc = move Pending Unknown (pp_node_addr p) (node_status nc)"
    using tables_ok_disjoint(3) [OF t, of "pp_node_addr p"] tables_okD(5) [OF t, of "pp_node_addr p"]
    by (intro status_move; cases "fmlookup (pending_peers nc) (pp_node_addr p)")
      (simp_all add: finish_failed_connection_attempt_def node_status_def split: option.splits)
qed (use nodes_okD(2-4) [OF ok] in \<open>simp_all add: finish_failed_connection_attempt_def move_Unknown\<close>)

text \<open>Adding contacts: each one that is unknown and not blocked becomes known, the rest stays.\<close>

lemma add_contact_facts:
  assumes ok: "nodes_ok R nc" and "lru_ok R" and room: "fcard (fmdom (contacts nc)) < max_contacts nc"
  shows "nodes_ok R (add_contact R nc a) \<and>
    node_status (add_contact R nc a) =
      (if a \<notin> set (lru_keys R (block_list nc)) \<and> node_status nc a = Unknown then (node_status nc)(a := Known) else node_status nc) \<and>
    set (lru_keys R (block_list (add_contact R nc a))) = set (lru_keys R (block_list nc)) \<and>
    max_contacts (add_contact R nc a) = max_contacts nc \<and>
    fcard (fmdom (contacts (add_contact R nc a))) \<le> Suc (fcard (fmdom (contacts nc)))"
proof (cases "fmlookup (pending_peers nc) a \<noteq> None \<or> fmlookup (peers nc) a \<noteq> None")
  case True
  then have "add_contact R nc a = nc" "node_status nc a \<noteq> Unknown" by (auto simp: add_contact_def node_status_def split: option.splits)
  then show ?thesis using ok by simp
next
  case False
  note c = check_refines [OF assms(1,2), of a]
  let ?nc = "fst (check_is_in_block_list R nc a)"
  have st: "node_status ?nc = node_status nc" "nodes_ok R ?nc" using c(1) by (simp_all add: refines_def)
  show ?thesis
  proof (cases "a \<in> set (lru_keys R (block_list nc))")
    case True
    then have "add_contact R nc a = ?nc" using False c(2) by (auto simp: add_contact_def split_def Let_def)
    then show ?thesis using st c(3,4,7) True by simp
  next
    case nb: False
    let ?x = "\<lparr>ct_node_addr = a, currently_checking = False\<rparr>"
    let ?nc' = "?nc\<lparr>contacts := fmupd a ?x (contacts nc)\<rparr>"
    have e: "add_contact R nc a = ?nc'" using False nb c(2,4) by (auto simp: add_contact_def split_def Let_def)
    have f: "contacts ?nc' = fmupd a ?x (contacts nc)" "pending_peers ?nc' = pending_peers nc" "peers ?nc' = peers nc"
        "block_list ?nc' = block_list ?nc" "max_contacts ?nc' = max_contacts nc"
      by (simp_all add: c(5,6,7))
    have n: "fmlookup (pending_peers nc) a = None" "fmlookup (peers nc) a = None" using False by simp_all
    have tab: "tables_ok (contacts ?nc') (pending_peers ?nc') (peers ?nc')"
      unfolding f using tables_ok_upd(1) [OF nodes_okD(1) [OF ok], of ?x a] n by simp
    have s: "node_status ?nc' = (if node_status nc a = Unknown then (node_status nc)(a := Known) else node_status nc)"
      unfolding node_status_def f using n by (auto simp: fun_eq_iff split: option.splits)
    have "node_status ?nc' b = Unknown" if "b \<in> set (lru_keys R (block_list ?nc'))" for b
      using that nb nodes_okD(2) [OF ok, of b] unfolding s f c(3) by auto
    moreover have l: "fcard (fmdom (contacts ?nc')) \<le> Suc (fcard (fmdom (contacts nc)))" unfolding f by (rule fcard_upd)
    ultimately have "nodes_ok R ?nc'"
      unfolding nodes_ok_def using tab room nodes_okD(4) [OF ok] by (simp only: f(5)) simp
    then show ?thesis unfolding e s using nb l by (simp only: f(4,5) c(3)) simp
  qed
qed

lemma add_contact_list:
  assumes "nodes_ok R nc" and "lru_ok R" and "fcard (fmdom (contacts nc)) + length as \<le> max_contacts nc"
  shows "nodes_ok R (foldl (add_contact R) nc as) \<and>
    node_status (foldl (add_contact R) nc as) =
      (\<lambda>a. if a \<in> set as \<and> a \<notin> set (lru_keys R (block_list nc)) \<and> node_status nc a = Unknown then Known else node_status nc a)"
  using assms
proof (induction as arbitrary: nc)
  case (Cons b as)
  have "fcard (fmdom (contacts nc)) < max_contacts nc" using Cons.prems(3) by simp
  then obtain f: "nodes_ok R (add_contact R nc b)" "node_status (add_contact R nc b) =
      (if b \<notin> set (lru_keys R (block_list nc)) \<and> node_status nc b = Unknown then (node_status nc)(b := Known) else node_status nc)"
    "set (lru_keys R (block_list (add_contact R nc b))) = set (lru_keys R (block_list nc))"
    "max_contacts (add_contact R nc b) = max_contacts nc"
    "fcard (fmdom (contacts (add_contact R nc b))) \<le> Suc (fcard (fmdom (contacts nc)))"
    using add_contact_facts [OF Cons.prems(1,2), of b] by blast
  have "fcard (fmdom (contacts (add_contact R nc b))) + length as \<le> max_contacts (add_contact R nc b)"
    using f(4,5) Cons.prems(3) by simp
  note ih = Cons.IH [OF f(1) Cons.prems(2) this]
  show ?case using ih by (auto simp: f(2,3) fun_eq_iff)
qed auto

text \<open>The room for contacts is computed with wrap-around, which does not happen in a consistent table.\<close>

lemma add_contacts_room:
  assumes "nodes_ok R nc"
  shows "add_contacts R nc as = foldl (add_contact R) nc (take (max_contacts nc - fcard (fmdom (contacts nc))) as)"
proof -
  let ?room = "max_contacts nc - fcard (fmdom (contacts nc))"
  have "max_contacts nc + 2 ^ 64 - fcard (fmdom (contacts nc)) = ?room + 2 ^ 64" using nodes_okD(3) [OF assms] by linarith
  moreover have "?room < 2 ^ 64" using nodes_okD(4) [OF assms] by linarith
  ultimately have "(max_contacts nc + 2 ^ 64 - fcard (fmdom (contacts nc))) mod 2 ^ 64 = ?room" by (simp only: mod_add_self2 mod_less)
  then show ?thesis unfolding add_contacts_def Let_def by (rule arg_cong)
qed

lemma add_contacts_refines:
  assumes "nodes_ok R nc" and "lru_ok R"
  shows "refines R nc (add_contacts R nc as)
    (spec_step (set (lru_keys R (block_list nc))) (max_contacts nc - fcard (fmdom (contacts nc))) (node_status nc) (Add_contacts as))"
proof -
  let ?room = "max_contacts nc - fcard (fmdom (contacts nc))"
  have "fcard (fmdom (contacts nc)) + length (take ?room as) \<le> max_contacts nc" using nodes_okD(3) [OF assms(1)] by simp
  note add_contact_list [OF assms this]
  then show ?thesis by (simp only: add_contacts_room [OF assms(1)] refines_def spec_step.simps simp_thms)
qed

lemma step_refines:
  assumes "nodes_ok R nc" and "lru_ok R" and "nodes_step R nc op = Ok nc'"
  shows "refines R nc nc'
    (spec_step (set (lru_keys R (block_list nc))) (max_contacts nc - fcard (fmdom (contacts nc))) (node_status nc) op)"
proof (cases op)
  case (Add_contacts as)
  then show ?thesis using assms(3) add_contacts_refines [OF assms(1,2), of as] by simp
next
  case (Connect_random chosen)
  from connect_random_cases [OF assms(3) [unfolded Connect_random]] show ?thesis
  proof (elim disjE exE conjE)
    assume "chosen = None" and nc': "nc' = nc"
    then show ?thesis using assms(1) unfolding refines_def nc' Connect_random by simp
  next
    fix a assume "chosen = Some a" and nc': "nc' = fst (connect_to_specific_contact nc a)"
    then show ?thesis using connect_specific_refines [OF assms(1), of a] unfolding nc' Connect_random by simp
  qed
next
  case (Block_node a)
  then show ?thesis using assms(3) block_refines [OF assms(1,2), of a] by simp
next
  case (Check_blocked a)
  then show ?thesis using assms(3) check_refines(1) [OF assms(1,2), of a] by simp
next
  case Contacts_to_check
  then show ?thesis using assms(3) to_check_refines [OF assms(1)] by simp
next
  case (Contact_ok a)
  then show ?thesis using assms(3) contact_ok_refines [OF assms(1), of a] by simp
next
  case (Contact_failed a)
  then show ?thesis using assms(3) contact_failed_refines [OF assms(1), of a] by simp
next
  case (Connect_to a)
  then show ?thesis using assms(3) connect_specific_refines [OF assms(1), of a] by simp
next
  case (Reconnect a)
  then show ?thesis using assms(3) reconnect_refines [OF assms(1), of a] by simp
next
  case (Remove_peer a)
  then show ?thesis using assms(3) remove_refines [OF assms(1), of a] by simp
next
  case (Connected p stream)
  then show ?thesis using assms(3) connected_refines [OF assms(1), of p stream] by simp
next
  case (Connect_failed p)
  then show ?thesis using assms(3) connect_failed_refines [OF assms(1), of p] by simp
qed

interpretation nodes_run: invariant_operation "nodes_step R" "nodes_ok R" "\<lambda>_. lru_ok R"
proof
  fix nc op nc' assume "nodes_ok R nc" "lru_ok R" "nodes_step R nc op = Ok nc'"
  then show "nodes_ok R nc'" using step_refines [of R nc op nc'] by (simp add: refines_def)
qed

lemma step_panics:
  assumes "nodes_step R nc op = Panic e"
  shows "\<exists>a. op = Connect_random (Some a) \<and> fmlookup (contacts nc) a = None"
  using assms by (cases op) (auto simp: connect_random_eq bindR_def split_def split: option.splits if_splits sum.splits)

lemma NodesContainer_new_ok:
  assumes "lru_ok R" and "max_c < 2 ^ 64"
  shows "nodes_ok R (NodesContainer_new R min_c max_c min_p max_p cap)"
  using assms by (simp add: NodesContainer_new_def nodes_ok_def tables_ok_def lru_ok_def fcard_fempty)

section \<open>A cache\<close>

text \<open>A list of keys, the most recently used first, never longer than the capacity.\<close>

definition list_lru :: "(nat \<times> SocketAddr list) lru" where
  "list_lru = \<lparr>lru_new = (\<lambda>n. (n, [])), lru_put = (\<lambda>(n, l) a. (n, take n (a # removeAll a l))),
     lru_get = (\<lambda>(n, l) a. if a \<in> set l then ((n, a # removeAll a l), True) else ((n, l), False)),
     lru_keys = snd\<rparr>"

lemma list_lru_ok [simp]: "lru_ok list_lru"
proof -
  have "set (take n (a # removeAll a l)) \<subseteq> insert a (set l)" for n a and l :: "SocketAddr list"
    using set_take_subset [of n "a # removeAll a l"] by auto
  then show ?thesis by (auto simp: lru_ok_def list_lru_def)
qed

definition busy_nodes :: "(nat \<times> SocketAddr list) NodesContainer" where
  "busy_nodes = \<lparr>min_contacts = 1, max_contacts = 10, min_peers = 1, max_peers = 10, block_list = (5, [V4 1 1]),
     contacts = fmempty, pending_peers = fmempty, peers = fmupd (V4 2 2) \<lparr>pe_node_addr = V4 2 2, pe_stream = 7\<rparr> fmempty\<rparr>"

lemma busy_nodes_ok: "nodes_ok list_lru busy_nodes"
  by (simp add: busy_nodes_def nodes_ok_def tables_ok_def list_lru_def node_status_def fcard_fempty)

section \<open>Properties\<close>

text \<open>
  Whatever sequence of operations a container has gone through since it was created,
  no address is in two of its three tables, none that is blocked is in any of them, and there are
  never more contacts than the configured maximum.
\<close>

theorem nodes_tables_disjoint:
  assumes "lru_ok R" and "max_c < 2 ^ 64"
    and "foldR (nodes_step R) (NodesContainer_new R min_c max_c min_p max_p cap) ops = Ok nc"
  shows "fmdom (contacts nc) |\<inter>| fmdom (pending_peers nc) = {||} \<and> fmdom (contacts nc) |\<inter>| fmdom (peers nc) = {||} \<and>
    fmdom (pending_peers nc) |\<inter>| fmdom (peers nc) = {||} \<and>
    (\<forall>a \<in> set (lru_keys R (block_list nc)). a |\<notin>| get_contacts nc) \<and> fcard (fmdom (contacts nc)) \<le> max_contacts nc"
proof (intro conjI)
  have ok: "nodes_ok R nc"
    by (rule nodes_run.run_keeps [OF NodesContainer_new_ok [OF assms(1,2)] _ assms(3)]) (use assms(1) in simp)
  note t = nodes_okD(1) [OF ok]
  show "fmdom (contacts nc) |\<inter>| fmdom (pending_peers nc) = {||}" "fmdom (contacts nc) |\<inter>| fmdom (peers nc) = {||}"
    "fmdom (pending_peers nc) |\<inter>| fmdom (peers nc) = {||}"
    using t by (auto simp: tables_ok_def fmlookup_dom_iff)
  show "\<forall>a \<in> set (lru_keys R (block_list nc)). a |\<notin>| get_contacts nc"
  proof
    fix a assume "a \<in> set (lru_keys R (block_list nc))"
    then have "node_status nc a = Unknown" by (rule nodes_okD(2) [OF ok])
    then show "a |\<notin>| get_contacts nc" by (auto simp: node_status_def get_contacts_def fmlookup_dom_iff split: option.splits)
  qed
  show "fcard (fmdom (contacts nc)) \<le> max_contacts nc" by (rule nodes_okD(3) [OF ok])
qed

lemma busy_nodes_run:
  "foldR (nodes_step list_lru) (NodesContainer_new list_lru 1 10 1 10 5)
     [Add_contacts [V4 1 1, V4 2 2], Block_node (V4 1 1), Connect_random (Some (V4 2 2)), Connected \<lparr>pp_node_addr = V4 2 2\<rparr> 7]
   = Ok busy_nodes"
  by (simp add: NodesContainer_new_def busy_nodes_def add_contacts_def add_contact_def check_is_in_block_list_def list_lru_def
      add_to_block_list_def connect_to_random_contact_def PendingPeer_from_contact_def finish_successful_connection_attempt_def Let_def fcard_fempty)
    (intro conjI fmap_ext; simp)

theorem nodes_tables_disjoint_witness:
  "fmdom (pending_peers busy_nodes) |\<inter>| fmdom (peers busy_nodes) = {||} \<and> fmlookup (peers busy_nodes) (V4 2 2) \<noteq> None"
  using nodes_tables_disjoint [OF list_lru_ok _ busy_nodes_run] by (simp add: busy_nodes_def)

text \<open>
  \<^bold>\<open>C40\<close>: every operation of the container acts on the statuses of the addresses as the
  specification says, and the only one that can panic is the connection to a random contact, when the address it was
  given is not that of a contact.
\<close>

theorem nodes_refine_status:
  assumes "nodes_ok R nc" and "lru_ok R"
  shows "case nodes_step R nc op of
      Inr nc' \<Rightarrow> node_status nc' =
        spec_step (set (lru_keys R (block_list nc))) (max_contacts nc - fcard (fmdom (contacts nc))) (node_status nc) op
    | Inl _ \<Rightarrow> \<exists>a. op = Connect_random (Some a) \<and> node_status nc a \<noteq> Known"
proof (cases "nodes_step R nc op")
  case (Inl e)
  then obtain a where "op = Connect_random (Some a)" "fmlookup (contacts nc) a = None" using step_panics by blast
  moreover from this(2) have "node_status nc a \<noteq> Known" by (simp add: node_status_def split: option.split)
  ultimately show ?thesis using Inl by auto
next
  case (Inr nc')
  then show ?thesis using step_refines [OF assms] by (simp add: refines_def)
qed

theorem nodes_refine_status_witness:
  "\<exists>nc'. nodes_step list_lru busy_nodes (Reconnect (V4 2 2)) = Ok nc' \<and> node_status busy_nodes (V4 2 2) = Online \<and>
     node_status nc' (V4 2 2) = Pending"
proof -
  have "node_status busy_nodes (V4 2 2) = Online" by (simp add: node_status_def busy_nodes_def)
  then show ?thesis using nodes_refine_status [OF busy_nodes_ok list_lru_ok, of "Reconnect (V4 2 2)"] by (simp add: move_def)
qed

end
