(* ===== verification/Messages.thy ===== *)
theory Messages
  imports Plot Ledger Nodes_Container
begin

text \<open>
  Network messages (\<^verbatim>\<open>src/network/messages.rs\<close>) and their framing on a TCP stream: the sender of
  \<^verbatim>\<open>src/network/nodes_container.rs\<close>, the receiver of \<^verbatim>\<open>src/network.rs\<close>.  The encoding of a message is
  bincode's and a parameter.

  Main results: however the stream is cut into reads, the receiver gets the messages that were sent,
  and its buffer never fills up; a message longer than 65535 bytes is cut by its length field.
\<close>

section \<open>Messages\<close>

datatype GossipMessage = BlockProposal Block | TxProposal SimpleCreditTx

record BlocksRequest = bq_timeslot :: u64
record BlocksResponse = br_blocks :: "Block list" br_transactions :: "SimpleCreditTx list"
record BlockRequestByContentId = cq_id :: ContentId
record BlockResponseByContentId = cr_block :: "Block option"
record BlockRequestByProofId = pq_id :: ProofId
record BlockResponseByProofId = pr_block :: "Block option"
record TxRequestById = tq_id :: TxId
record TxResponseById = tr_transaction :: "Transaction option"
record NetworkPieceBundleById =
  ni_encoding :: bytes
  ni_piece_proof :: bytes
  ni_piece_index :: u64
record PieceRequestById = iq_id :: PieceId
record PieceResponseById = ir_piece_bundle :: "NetworkPieceBundleById option"
record PieceRequestByIndex = xq_index :: u64
record PieceResponseByIndex = xr_piece_bundle :: "NetworkPieceBundleByIndex option"
record StateBlockRequestById = sq_id :: bytes
record StateBlockResponseById = sr_state_block :: "StateBlock option"
record StateBlockRequestByHeight = hq_height :: u64
record StateBlockResponseByHeight = hr_state_block :: "StateBlock option"
record GenesisConfigResponse = gr_genesis_config :: GenesisConfig

datatype RequestMessage =
    ReqBlocks BlocksRequest
  | ReqBlockByContentId BlockRequestByContentId
  | ReqBlockByProofId BlockRequestByProofId
  | ReqTransactionById TxRequestById
  | ReqPieceById PieceRequestById
  | ReqPieceByIndex PieceRequestByIndex
  | ReqStateById StateBlockRequestById
  | ReqStateByHeight StateBlockRequestByHeight
  | ReqGenesisConfig

datatype ResponseMessage =
    RespBlocks BlocksResponse
  | RespBlockByContentId BlockResponseByContentId
  | RespBlockByProofId BlockResponseByProofId
  | RespTransactionById TxResponseById
  | RespPieceById PieceResponseById
  | RespPieceByIndex PieceResponseByIndex
  | RespStateById StateBlockResponseById
  | RespStateByHeight StateBlockResponseByHeight
  | RespGenesisConfig GenesisConfigResponse

datatype InternalRequestMessage = ReqContacts

datatype InternalResponseMessage = RespContacts "SocketAddr list"

datatype Message =
    Gossip GossipMessage
  | Request u32 RequestMessage
  | Response u32 ResponseMessage
  | InternalRequest u32 InternalRequestMessage
  | InternalResponse u32 InternalResponseMessage

text \<open>bincode: a message is decoded from its encoding, and the encoding of an enum is never empty.\<close>

record codec =
  ser_message :: "Message \<Rightarrow> bytes"
  de_message :: "bytes \<Rightarrow> Message option"

definition codec_ok :: "'z codec_scheme \<Rightarrow> Message \<Rightarrow> bool" where
  "codec_ok C m \<longleftrightarrow> de_message C (ser_message C m) = Some m \<and> ser_message C m \<noteq> []"

definition to_bytes :: "'z codec_scheme \<Rightarrow> Message \<Rightarrow> bytes" where
  "to_bytes C m = ser_message C m"

definition from_bytes :: "'z codec_scheme \<Rightarrow> bytes \<Rightarrow> Message option" where
  "from_bytes C bs = de_message C bs"

section \<open>Framing\<close>

definition MAX_MESSAGE_CONTENTS_LENGTH :: nat where
  "MAX_MESSAGE_CONTENTS_LENGTH = 2 ^ 16 - 1"

text \<open>What the sender writes for one message: the length is cast to 16 bits.\<close>

definition frame :: "bytes \<Rightarrow> bytes" where
  "frame bs = u16_to_le_bytes (of_nat (length bs)) @ bs"

definition extract_message :: "'z codec_scheme \<Rightarrow> bytes \<Rightarrow> (Message option \<times> nat) option" where
  "extract_message C input =
     (if length input \<le> 2 then None
      else
        (let message_length = unat (u16_from_le_bytes (take 2 input)); remainder = drop 2 input
         in if length remainder < message_length then None
            else Some (from_bytes C (take message_length remainder), 2 + message_length)))"

lemma extract_consumes: "extract_message C input = Some (m, n) \<Longrightarrow> 2 \<le> n \<and> n \<le> length input"
  by (auto simp: extract_message_def Let_def split: if_splits)

text \<open>The inner loop: the messages in the buffer and what is left of it.\<close>

function extract_all :: "'z codec_scheme \<Rightarrow> bytes \<Rightarrow> Message list \<times> bytes" where
  "extract_all C input =
     (case extract_message C input of
        None \<Rightarrow> ([], input)
      | Some (message, consumed_bytes) \<Rightarrow>
          (case extract_all C (drop consumed_bytes input) of (rest, left) \<Rightarrow>
             (case message of Some m \<Rightarrow> m # rest | None \<Rightarrow> rest, left)))"
  by pat_completeness auto
termination
  by (relation "measure (\<lambda>(C, input). length input)") (auto dest!: extract_consumes)

declare extract_all.simps [simp del]

text \<open>
  The outer loop over what the successive reads return; a read of nothing is a disconnection.
  \<open>BUFFER_SIZE\<close> is the size of the buffer, a read fills at most what is free of it.
\<close>

definition BUFFER_SIZE :: nat where
  "BUFFER_SIZE = (2 + MAX_MESSAGE_CONTENTS_LENGTH) * 2"

fun receive :: "'z codec_scheme \<Rightarrow> bytes \<Rightarrow> bytes list \<Rightarrow> Message list \<times> bytes" where
  "receive C buffer [] = ([], buffer)"
| "receive C buffer (chunk # chunks) =
     (if chunk = [] then ([], buffer)
      else case extract_all C (buffer @ chunk) of (ms, left) \<Rightarrow>
        (case receive C left chunks of (rest, left') \<Rightarrow> (ms @ rest, left')))"

section \<open>Reading a stream in pieces\<close>

lemma extract_append:
  assumes "extract_message C x = Some r"
  shows "extract_message C (x @ y) = Some r"
  using assms by (auto simp: extract_message_def Let_def split: if_splits)

lemma extract_all_stuck: "extract_message C (snd (extract_all C input)) = None"
proof (induction C input rule: extract_all.induct)
  case (1 C input)
  then show ?case
    by (subst extract_all.simps) (auto split: option.split prod.split)
qed

lemma extract_all_append:
  "extract_all C (x @ y) =
     (case extract_all C x of (ms, left) \<Rightarrow> (case extract_all C (left @ y) of (ms', left') \<Rightarrow> (ms @ ms', left')))"
proof (induction C x rule: extract_all.induct)
  case (1 C x)
  show ?case
  proof (cases "extract_message C x")
    case None
    then show ?thesis by (subst (2) extract_all.simps) simp
  next
    case (Some r)
    obtain m n where r: "r = (m, n)" by force
    have n: "n \<le> length x" using extract_consumes Some r by blast
    show ?thesis
      unfolding extract_all.simps [of C "x @ y"] extract_all.simps [of C x] extract_append [OF Some] Some r
      using 1 [OF Some r [symmetric]] n by (auto split: prod.splits option.splits)
  qed
qed

lemma receive_eq:
  assumes "[] \<notin> set chunks" and "extract_message C buffer = None"
  shows "receive C buffer chunks = extract_all C (buffer @ concat chunks)"
  using assms
proof (induction chunks arbitrary: buffer)
  case Nil
  then show ?case by (simp add: extract_all.simps)
next
  case (Cons c cs)
  obtain ms left where e: "extract_all C (buffer @ c) = (ms, left)" by force
  have "extract_message C left = None" using extract_all_stuck [of C "buffer @ c"] e by simp
  then have "receive C left cs = extract_all C (left @ concat cs)" using Cons by simp
  moreover have "c \<noteq> []" using Cons.prems(1) by auto
  ultimately show ?case using e extract_all_append [of C "buffer @ c" "concat cs"] by simp
qed

lemma extract_frame:
  assumes "codec_ok C m" and "length (to_bytes C m) \<le> MAX_MESSAGE_CONTENTS_LENGTH"
  shows "extract_message C (frame (to_bytes C m) @ rest) = Some (Some m, 2 + length (to_bytes C m))"
proof -
  have l: "length (to_bytes C m) < 2 ^ 16" using assms(2) by (simp add: MAX_MESSAGE_CONTENTS_LENGTH_def)
  have "unat (of_nat (length (to_bytes C m)) :: u16) = length (to_bytes C m)" using l by (simp add: unat_of_nat)
  moreover have "0 < length (to_bytes C m)" using assms(1) by (simp add: codec_ok_def to_bytes_def)
  moreover have "from_bytes C (to_bytes C m) = Some m" using assms(1) by (simp add: codec_ok_def to_bytes_def from_bytes_def)
  ultimately show ?thesis by (simp add: extract_message_def frame_def Let_def)
qed

lemma extract_frames:
  assumes "\<forall>m \<in> set ms. codec_ok C m \<and> length (to_bytes C m) \<le> MAX_MESSAGE_CONTENTS_LENGTH"
  shows "extract_all C (concat (map (\<lambda>m. frame (to_bytes C m)) ms)) = (ms, [])"
  using assms
proof (induction ms)
  case Nil
  then show ?case by (simp add: extract_all.simps extract_message_def)
next
  case (Cons m ms)
  define rest where "rest = concat (map (\<lambda>m. frame (to_bytes C m)) ms)"
  have e: "extract_message C (frame (to_bytes C m) @ rest) = Some (Some m, 2 + length (to_bytes C m))"
    by (rule extract_frame) (use Cons.prems in simp_all)
  have d: "drop (2 + length (to_bytes C m)) (frame (to_bytes C m) @ rest) = rest" by (simp add: frame_def)
  have "extract_all C rest = (ms, [])" using Cons by (simp add: rest_def)
  then have "extract_all C (frame (to_bytes C m) @ rest) = (m # ms, [])"
    unfolding extract_all.simps [of C "frame (to_bytes C m) @ rest"] e option.case prod.case d by simp
  then show ?case by (simp add: rest_def)
qed

lemma stuck_short: "extract_message C left = None \<Longrightarrow> length left \<le> 1 + MAX_MESSAGE_CONTENTS_LENGTH"
  using unat_bound [of "u16_from_le_bytes (take 2 left)"]
  by (auto simp: extract_message_def Let_def MAX_MESSAGE_CONTENTS_LENGTH_def split: if_splits)

lemma receive_short:
  assumes "extract_message C buffer = None"
  shows "extract_message C (snd (receive C buffer chunks)) = None"
  using assms
proof (induction chunks arbitrary: buffer)
  case (Cons c cs)
  obtain ms left where e: "extract_all C (buffer @ c) = (ms, left)" by force
  then have "extract_message C left = None" using extract_all_stuck [of C "buffer @ c"] by simp
  then show ?case using Cons e by (auto split: prod.split) (metis snd_conv)
qed simp

section \<open>Properties\<close>

text \<open>
  \<^bold>\<open>C18\<close>: whatever the reads that the stream is cut into, the receiver gets the messages that
  were framed, in order, nothing is left over, and after every read the buffer has room for a whole further message.
\<close>

theorem framing_roundtrip:
  assumes "\<forall>m \<in> set ms. codec_ok C m \<and> length (to_bytes C m) \<le> MAX_MESSAGE_CONTENTS_LENGTH"
    and "concat chunks = concat (map (\<lambda>m. frame (to_bytes C m)) ms)" and "[] \<notin> set chunks"
  shows "receive C [] chunks = (ms, []) \<and>
    length (snd (receive C [] (take k chunks))) + 2 + MAX_MESSAGE_CONTENTS_LENGTH < BUFFER_SIZE"
proof -
  have n: "extract_message C [] = None" by (simp add: extract_message_def)
  have "receive C [] chunks = (ms, [])"
    unfolding receive_eq [OF assms(3) n] append_Nil assms(2) by (rule extract_frames [OF assms(1)])
  moreover have "length (snd (receive C [] (take k chunks))) \<le> 1 + MAX_MESSAGE_CONTENTS_LENGTH"
    by (rule stuck_short [OF receive_short [OF n]])
  ultimately show ?thesis by (simp add: BUFFER_SIZE_def)
qed

text \<open>
  The length field of a message of 65536 bytes or more wraps, and the receiver takes
  the beginning of the message for the whole and the rest for the next frame.
\<close>

theorem oversized_message_cut:
  assumes "2 ^ 16 \<le> length bs"
  shows "extract_message C (frame bs) =
    Some (from_bytes C (take (length bs mod 2 ^ 16) bs), 2 + length bs mod 2 ^ 16)"
proof -
  have "unat (of_nat (length bs) :: u16) = length bs mod 2 ^ 16" by (simp add: unat_of_nat)
  moreover have "length bs mod 2 ^ 16 \<le> length bs" by (rule mod_less_eq_dividend)
  ultimately show ?thesis using assms by (auto simp: extract_message_def frame_def Let_def)
qed

section \<open>A concrete codec\<close>

definition contacts_codec :: codec where
  "contacts_codec =
     \<lparr>ser_message = (\<lambda>m. case m of InternalRequest i _ \<Rightarrow> 1 # u32_to_le_bytes i | _ \<Rightarrow> []),
      de_message = (\<lambda>bs. if length bs = 5 then Some (InternalRequest (of_nat (le_bytes_to_nat (drop 1 bs))) ReqContacts) else None)\<rparr>"

lemma contacts_codec_ok: "codec_ok contacts_codec (InternalRequest i ReqContacts)"
proof -
  have "le_bytes_to_nat (u32_to_le_bytes i) = unat i"
    using unat_bound [of i] by (simp add: u32_to_le_bytes_def le_bytes_roundtrip)
  then show ?thesis by (simp add: codec_ok_def contacts_codec_def)
qed

theorem framing_roundtrip_witness:
  "receive contacts_codec [] (map (\<lambda>b. [b]) (frame (to_bytes contacts_codec (InternalRequest 7 ReqContacts)))) =
     ([InternalRequest 7 ReqContacts], [])"
proof -
  have c: "concat (map (\<lambda>b. [b]) bs) = bs" for bs :: bytes by (induction bs) simp_all
  have l: "length (to_bytes contacts_codec (InternalRequest 7 ReqContacts)) \<le> MAX_MESSAGE_CONTENTS_LENGTH"
    by (simp add: to_bytes_def contacts_codec_def MAX_MESSAGE_CONTENTS_LENGTH_def)
  show ?thesis
    using framing_roundtrip [of "[InternalRequest 7 ReqContacts]" contacts_codec
        "map (\<lambda>b. [b]) (frame (to_bytes contacts_codec (InternalRequest 7 ReqContacts)))"] contacts_codec_ok [of 7] l c by auto
qed

theorem oversized_message_cut_witness:
  "extract_message contacts_codec (frame (replicate (2 ^ 16) 0)) = Some (None, 2)"
  using oversized_message_cut [of "replicate (2 ^ 16) 0" contacts_codec] by (simp add: from_bytes_def contacts_codec_def)

end
