(* ===== verification/Network.thy ===== *)
theory Network
  imports Messages "HOL-Library.Product_Lexorder"
begin

text \<open>
  The network (\<^verbatim>\<open>src/network.rs\<close>): requests and their replies, gossip, connections, and the upkeep of
  contacts and peers.  What the outside world answers (whether a TCP connection succeeds, what a
  peer replies, what a random choice picks) is an argument of each operation; an operation runs
  without another one in between, as the mutex around the tables makes each of their changes atomic.

  Main results: a reply reaches the request with its number and no other, as long as fewer
  than \<open>2 ^ 32\<close> requests were begun in between; every operation keeps the tables of addresses
  consistent; the search for peers ends.
\<close>

section \<open>Requests\<close>

datatype RequestError = ConnectionClosed | BadResponse | MessageTooLong | NoPeers | TimedOut

datatype ConnectionError = AlreadyConnected | FailedToExchangeAddress | ContactsRequest | NoContact | NoPendingPeer | IO io_error

text \<open>A handler is the number of the channel on which its caller waits.\<close>

record RequestsContainer =
  next_id :: u32
  handlers :: "u32 \<rightharpoonup> nat"

definition RequestsContainer_default :: RequestsContainer where
  "RequestsContainer_default = \<lparr>next_id = 0, handlers = Map.empty\<rparr>"

definition add_handler :: "RequestsContainer \<Rightarrow> nat \<Rightarrow> u32 \<times> RequestsContainer" where
  "add_handler rc n = (next_id rc, rc\<lparr>next_id := next_id rc + 1, handlers := (handlers rc)(next_id rc \<mapsto> n)\<rparr>)"

definition remove_handler :: "RequestsContainer \<Rightarrow> u32 \<Rightarrow> RequestsContainer \<times> nat option" where
  "remove_handler rc i = (rc\<lparr>handlers := (handlers rc)(i := None)\<rparr>, handlers rc i)"

text \<open>
  The beginning of \<^verbatim>\<open>request\<close>: an error, or the number of the request and what is sent to the peer that was chosen.
\<close>

definition request ::
  "'c codec_scheme \<Rightarrow> RequestsContainer \<Rightarrow> nat \<Rightarrow> SocketAddr option \<Rightarrow> RequestMessage \<Rightarrow>
     RequestsContainer \<times> (RequestError + u32 \<times> SocketAddr \<times> bytes)" where
  "request C rc n chosen message =
     (let (i, rc) = add_handler rc n;
          bs = to_bytes C (Request i message)
      in if MAX_MESSAGE_CONTENTS_LENGTH < length bs then (fst (remove_handler rc i), Inl MessageTooLong)
         else case chosen of
           Some peer \<Rightarrow> (rc, Inr (i, peer, bs))
         | None \<Rightarrow> (rc, Inl NoPeers))"

definition internal_request ::
  "'c codec_scheme \<Rightarrow> RequestsContainer \<Rightarrow> nat \<Rightarrow> SocketAddr \<Rightarrow> InternalRequestMessage \<Rightarrow>
     RequestsContainer \<times> (RequestError + u32 \<times> SocketAddr \<times> bytes)" where
  "internal_request C rc n peer message =
     (let (i, rc) = add_handler rc n;
          bs = to_bytes C (InternalRequest i message)
      in if MAX_MESSAGE_CONTENTS_LENGTH < length bs then (fst (remove_handler rc i), Inl MessageTooLong)
         else (rc, Inr (i, peer, bs)))"

text \<open>The timer of a request that was not answered in time.\<close>

definition request_timed_out :: "RequestsContainer \<Rightarrow> u32 \<Rightarrow> RequestsContainer \<times> RequestError" where
  "request_timed_out rc i = (fst (remove_handler rc i), TimedOut)"

text \<open>The typed requests: a reply of another kind is a bad response.\<close>

fun blocks_response :: "RequestError + ResponseMessage \<Rightarrow> RequestError + Block list \<times> SimpleCreditTx list" where
  "blocks_response (Inr (RespBlocks r)) = Inr (br_blocks r, br_transactions r)"
| "blocks_response (Inr _) = Inl BadResponse"
| "blocks_response (Inl e) = Inl e"

fun block_by_content_id_response :: "RequestError + ResponseMessage \<Rightarrow> RequestError + Block option" where
  "block_by_content_id_response (Inr (RespBlockByContentId r)) = Inr (cr_block r)"
| "block_by_content_id_response (Inr _) = Inl BadResponse"
| "block_by_content_id_response (Inl e) = Inl e"

fun block_by_proof_id_response :: "RequestError + ResponseMessage \<Rightarrow> RequestError + Block option" where
  "block_by_proof_id_response (Inr (RespBlockByProofId r)) = Inr (pr_block r)"
| "block_by_proof_id_response (Inr _) = Inl BadResponse"
| "block_by_proof_id_response (Inl e) = Inl e"

fun tx_by_id_response :: "RequestError + ResponseMessage \<Rightarrow> RequestError + Transaction option" where
  "tx_by_id_response (Inr (RespTransactionById r)) = Inr (tr_transaction r)"
| "tx_by_id_response (Inr _) = Inl BadResponse"
| "tx_by_id_response (Inl e) = Inl e"

fun piece_by_id_response :: "RequestError + ResponseMessage \<Rightarrow> RequestError + NetworkPieceBundleById option" where
  "piece_by_id_response (Inr (RespPieceById r)) = Inr (ir_piece_bundle r)"
| "piece_by_id_response (Inr _) = Inl BadResponse"
| "piece_by_id_response (Inl e) = Inl e"

fun piece_by_index_response :: "RequestError + ResponseMessage \<Rightarrow> RequestError + NetworkPieceBundleByIndex option" where
  "piece_by_index_response (Inr (RespPieceByIndex r)) = Inr (xr_piece_bundle r)"
| "piece_by_index_response (Inr _) = Inl BadResponse"
| "piece_by_index_response (Inl e) = Inl e"

fun state_block_by_id_response :: "RequestError + ResponseMessage \<Rightarrow> RequestError + StateBlock option" where
  "state_block_by_id_response (Inr (RespStateById r)) = Inr (sr_state_block r)"
| "state_block_by_id_response (Inr _) = Inl BadResponse"
| "state_block_by_id_response (Inl e) = Inl e"

fun state_block_by_height_response :: "RequestError + ResponseMessage \<Rightarrow> RequestError + StateBlock option" where
  "state_block_by_height_response (Inr (RespStateByHeight r)) = Inr (hr_state_block r)"
| "state_block_by_height_response (Inr _) = Inl BadResponse"
| "state_block_by_height_response (Inl e) = Inl e"

fun genesis_config_response :: "RequestError + ResponseMessage \<Rightarrow> RequestError + GenesisConfig" where
  "genesis_config_response (Inr (RespGenesisConfig r)) = Inr (gr_genesis_config r)"
| "genesis_config_response (Inr _) = Inl BadResponse"
| "genesis_config_response (Inl e) = Inl e"

section \<open>Gossip\<close>

text \<open>Whom a message is sent to, and the bytes.\<close>

definition gossip :: "'c codec_scheme \<Rightarrow> 'l NodesContainer \<Rightarrow> GossipMessage \<Rightarrow> (SocketAddr \<times> bytes) fset" where
  "gossip C nc message = (\<lambda>p. (pe_node_addr p, to_bytes C (Gossip message))) |`| get_peers nc"

definition regossip :: "'c codec_scheme \<Rightarrow> 'l NodesContainer \<Rightarrow> SocketAddr \<Rightarrow> GossipMessage \<Rightarrow> (SocketAddr \<times> bytes) fset" where
  "regossip C nc sender message =
     (\<lambda>p. (pe_node_addr p, to_bytes C (Gossip message))) |`| ffilter (\<lambda>p. pe_node_addr p \<noteq> sender) (get_peers nc)"

section \<open>Incoming messages\<close>

record 'l Network =
  node_addr :: SocketAddr
  gateway_nodes :: "SocketAddr fset"
  nodes_container :: "'l NodesContainer"
  requests_container :: RequestsContainer
  internal_requests_container :: RequestsContainer

datatype effect =
    ToGossip SocketAddr GossipMessage
  | ToRequests RequestMessage "SocketAddr option" u32
  | Deliver nat ResponseMessage
  | DeliverInternal nat InternalResponseMessage
  | Send SocketAddr bytes
  | Nothing

text \<open>
  \<open>order\<close> is the order in which the hash tables are iterated; \<open>alive\<close> tells whether the handle of the peer
  can still be upgraded, without it an answer is not sent.
\<close>

fun handle_message ::
  "'c codec_scheme \<Rightarrow> (SocketAddr fset \<Rightarrow> SocketAddr list) \<Rightarrow> SocketAddr \<Rightarrow> bool \<Rightarrow> 'l Network \<Rightarrow> Message \<Rightarrow> 'l Network \<times> effect" where
  "handle_message C order peer alive net (Gossip message) = (net, ToGossip peer message)"
| "handle_message C order peer alive net (Request i message) = (net, ToRequests message (if alive then Some peer else None) i)"
| "handle_message C order peer alive net (Response i message) =
     (let (rc, h) = remove_handler (requests_container net) i
      in (net\<lparr>requests_container := rc\<rparr>, case h of Some n \<Rightarrow> Deliver n message | None \<Rightarrow> Nothing))"
| "handle_message C order peer alive net (InternalRequest i ReqContacts) =
     (let response = RespContacts
            (filter (\<lambda>a. a \<noteq> node_addr net \<and> a \<noteq> peer) (order (get_contacts (nodes_container net))))
      in (net, if alive then Send peer (to_bytes C (InternalResponse i response)) else Nothing))"
| "handle_message C order peer alive net (InternalResponse i message) =
     (let (rc, h) = remove_handler (internal_requests_container net) i
      in (net\<lparr>internal_requests_container := rc\<rparr>, case h of Some n \<Rightarrow> DeliverInternal n message | None \<Rightarrow> Nothing))"

text \<open>The answer of the node to a request, sent back to the peer that asked.\<close>

definition send_response :: "'c codec_scheme \<Rightarrow> SocketAddr option \<Rightarrow> u32 \<Rightarrow> ResponseMessage option \<Rightarrow> effect" where
  "send_response C peer i answer =
     (case (peer, answer) of
        (Some p, Some message) \<Rightarrow> Send p (to_bytes C (Response i message))
      | _ \<Rightarrow> Nothing)"

section \<open>Connections\<close>

text \<open>
  The world outside: at each moment the outcome of a TCP connection and of the exchange of
  addresses, the reply of a peer that is asked for contacts, whether an address answers, the choice
  of a random element and the order of a shuffled list.
\<close>

datatype tcp_outcome = Refused io_error | No_exchange | Stream nat

record world =
  attempt :: "nat \<Rightarrow> SocketAddr \<Rightarrow> tcp_outcome"
  replies :: "nat \<Rightarrow> SocketAddr \<Rightarrow> RequestError + SocketAddr list"
  reachable_addr :: "nat \<Rightarrow> SocketAddr \<Rightarrow> bool"
  pick :: "nat \<Rightarrow> SocketAddr fset \<Rightarrow> SocketAddr option"
  shuffled :: "nat \<Rightarrow> SocketAddr list \<Rightarrow> SocketAddr list"

text \<open>A random choice is an element of the collection, and fails only if there is none.\<close>

definition pick_ok :: "'w world_scheme \<Rightarrow> bool" where
  "pick_ok W \<longleftrightarrow> (\<forall>t s. case pick W t s of None \<Rightarrow> s = {||} | Some a \<Rightarrow> a |\<in>| s)"

definition on_connection_success :: "'l NodesContainer \<Rightarrow> PendingPeer \<Rightarrow> nat \<Rightarrow> 'l NodesContainer \<times> Peer option" where
  "on_connection_success nc pending_peer stream = finish_successful_connection_attempt nc pending_peer stream"

definition on_connection_failure :: "'l NodesContainer \<Rightarrow> PendingPeer \<Rightarrow> 'l NodesContainer" where
  "on_connection_failure nc pending_peer = finish_failed_connection_attempt nc pending_peer"

definition connect_simple ::
  "'w world_scheme \<Rightarrow> nat \<Rightarrow> 'l NodesContainer \<Rightarrow> PendingPeer \<Rightarrow> 'l NodesContainer \<times> (ConnectionError + Peer)" where
  "connect_simple W t nc pending_peer =
     (case attempt W t (pp_node_addr pending_peer) of
        Refused e \<Rightarrow> (on_connection_failure nc pending_peer, Inl (IO e))
      | No_exchange \<Rightarrow> (on_connection_failure nc pending_peer, Inl FailedToExchangeAddress)
      | Stream stream \<Rightarrow>
          (case on_connection_success nc pending_peer stream of
             (nc, Some peer) \<Rightarrow> (nc, Inr peer)
           | (nc, None) \<Rightarrow> (nc, Inl NoPendingPeer)))"

definition add_reachable :: "('l, 'z) lru_scheme \<Rightarrow> 'w world_scheme \<Rightarrow> nat \<Rightarrow> 'l NodesContainer \<Rightarrow> SocketAddr \<Rightarrow> 'l NodesContainer" where
  "add_reachable R W t nc contact = (if reachable_addr W t contact then add_contacts R nc [contact] else nc)"

definition sync_contacts ::
  "('l, 'z) lru_scheme \<Rightarrow> 'w world_scheme \<Rightarrow> nat \<Rightarrow> 'l NodesContainer \<Rightarrow> SocketAddr \<Rightarrow> 'l NodesContainer \<times> (RequestError + unit)" where
  "sync_contacts R W t nc peer =
     (if cl_max_contacts (contacts_level nc) then (nc, Inr ())
      else case replies W t peer of
        Inl e \<Rightarrow> (nc, Inl e)
      | Inr cs \<Rightarrow> (foldl (add_reachable R W t) nc cs, Inr ()))"

definition network_connect_to_random_contact ::
  "('l, 'z) lru_scheme \<Rightarrow> 'w world_scheme \<Rightarrow> nat \<Rightarrow> 'l NodesContainer \<Rightarrow> ('l NodesContainer \<times> (ConnectionError + unit)) res" where
  "network_connect_to_random_contact R W t nc =
     bindR (connect_to_random_contact nc (pick W t (fmdom (contacts nc)))) (\<lambda>(nc, pending_peer).
       case pending_peer of
         None \<Rightarrow> Ok (nc, Inl NoContact)
       | Some pending_peer \<Rightarrow>
           (case connect_simple W t nc pending_peer of
              (nc, Inr peer) \<Rightarrow> Ok (fst (sync_contacts R W t nc (pe_node_addr peer)), Inr ())
            | (nc, Inl e) \<Rightarrow> Ok (nc, Inl e)))"

definition connect ::
  "('l, 'z) lru_scheme \<Rightarrow> 'w world_scheme \<Rightarrow> nat \<Rightarrow> 'l NodesContainer \<Rightarrow> SocketAddr \<Rightarrow> 'l NodesContainer \<times> (ConnectionError + unit)" where
  "connect R W t nc peer_addr =
     (case connect_to_specific_contact (add_contacts R nc [peer_addr]) peer_addr of
        (nc, None) \<Rightarrow> (nc, Inl (if is_peer_connected nc peer_addr then AlreadyConnected else NoContact))
      | (nc, Some pending_peer) \<Rightarrow>
          (case connect_simple W t nc pending_peer of
             (nc, Inr peer) \<Rightarrow>
               (case sync_contacts R W t nc (pe_node_addr peer) of
                  (nc, Inr _) \<Rightarrow> (nc, Inr ())
                | (nc, Inl _) \<Rightarrow> (nc, Inl ContactsRequest))
           | (nc, Inl e) \<Rightarrow> (nc, Inl e)))"

text \<open>An inbound connection, with the address that the other side sent.\<close>

definition accept_connection ::
  "('l, 'z) lru_scheme \<Rightarrow> 'w world_scheme \<Rightarrow> nat \<Rightarrow> 'l NodesContainer \<Rightarrow> SocketAddr option \<Rightarrow> nat \<Rightarrow> 'l NodesContainer" where
  "accept_connection R W t nc exchanged stream =
     (if pl_max_peers (peers_level nc) then nc
      else case exchanged of
        None \<Rightarrow> nc
      | Some peer_addr \<Rightarrow>
          (let (nc, blocked) = check_is_in_block_list R nc peer_addr
           in if blocked then nc
              else case connect_to_specific_contact (add_contacts R nc [peer_addr]) peer_addr of
                (nc, None) \<Rightarrow> nc
              | (nc, Some pending_peer) \<Rightarrow>
                  (case on_connection_success nc pending_peer stream of
                     (nc, None) \<Rightarrow> nc
                   | (nc, Some peer) \<Rightarrow> fst (sync_contacts R W t nc (pe_node_addr peer)))))"

text \<open>The nodes that were saved by an earlier run.\<close>

definition restore_nodes ::
  "('l, 'z) lru_scheme \<Rightarrow> (SocketAddr fset \<Rightarrow> SocketAddr list) \<Rightarrow> 'l NodesContainer \<Rightarrow> PersistedNodes option \<Rightarrow> 'l NodesContainer" where
  "restore_nodes R order nc persisted =
     (case persisted of
        None \<Rightarrow> nc
      | Some pn \<Rightarrow>
          foldl (add_to_block_list R)
            (add_contacts R (add_contacts R nc (order (pn_contacts pn))) (order (pn_peers pn))) (pn_blocklist pn))"

section \<open>Background routines\<close>

text \<open>
  One round of the upkeep of contacts: what is written to the file, the contacts whose check begins,
  and the request for more.  The result of a check is a step of its own.
\<close>

definition maintain_contacts ::
  "('l, 'z) lru_scheme \<Rightarrow> 'w world_scheme \<Rightarrow> nat \<Rightarrow> 'l NodesContainer \<Rightarrow> 'l NodesContainer \<times> PersistedNodes \<times> SocketAddr fset" where
  "maintain_contacts R W t nc =
     (let persisted = get_persisted_nodes R nc;
          (nc, to_check) = get_contacts_to_check nc
      in if cl_min_contacts (contacts_level nc) then (nc, persisted, to_check)
         else case pick W t (pe_node_addr |`| get_peers nc) of
           Some peer \<Rightarrow> (fst (sync_contacts R W t nc peer), persisted, to_check)
         | None \<Rightarrow> (nc, persisted, to_check))"

definition check_contact :: "'w world_scheme \<Rightarrow> nat \<Rightarrow> 'l NodesContainer \<Rightarrow> SocketAddr \<Rightarrow> 'l NodesContainer" where
  "check_contact W t nc addr =
     (if reachable_addr W t addr then finish_successful_contact_check nc addr else finish_failed_contact_check nc addr)"

text \<open>The loop that connects to random contacts until there are enough peers or no contacts.\<close>

partial_function (option) connect_until_min ::
  "('l, 'z) lru_scheme \<Rightarrow> 'w world_scheme \<Rightarrow> nat \<Rightarrow> 'l NodesContainer \<Rightarrow> (nat \<times> 'l NodesContainer) res option" where
  "connect_until_min R W t nc =
     (case network_connect_to_random_contact R W t nc of
        Inl e \<Rightarrow> Some (Panic e)
      | Inr (nc, Inr _) \<Rightarrow>
          if pl_min_peers (peers_level nc) then Some (Ok (Suc t, nc)) else connect_until_min R W (Suc t) nc
      | Inr (nc, Inl e) \<Rightarrow>
          if e = NoContact then Some (Ok (Suc t, nc)) else connect_until_min R W (Suc t) nc)"

definition maintain_peers ::
  "('l, 'z) lru_scheme \<Rightarrow> 'w world_scheme \<Rightarrow> nat \<Rightarrow> 'l NodesContainer \<Rightarrow> (nat \<times> 'l NodesContainer) res option" where
  "maintain_peers R W t nc =
     (if pl_min_peers (peers_level nc) then Some (Ok (t, nc)) else connect_until_min R W t nc)"

text \<open>The loop that replaces a lost peer stops at the first connection.\<close>

partial_function (option) connect_once ::
  "('l, 'z) lru_scheme \<Rightarrow> 'w world_scheme \<Rightarrow> nat \<Rightarrow> 'l NodesContainer \<Rightarrow> (nat \<times> 'l NodesContainer) res option" where
  "connect_once R W t nc =
     (case network_connect_to_random_contact R W t nc of
        Inl e \<Rightarrow> Some (Panic e)
      | Inr (nc, Inr _) \<Rightarrow> Some (Ok (Suc t, nc))
      | Inr (nc, Inl e) \<Rightarrow>
          if e = NoContact then Some (Ok (Suc t, nc)) else connect_once R W (Suc t) nc)"

text \<open>
  Startup, after the saved peers: the gateways in a random order, then the contacts they gave, again
  after a pause until there are enough peers.
\<close>

fun connect_gateways ::
  "('l, 'z) lru_scheme \<Rightarrow> 'w world_scheme \<Rightarrow> nat \<Rightarrow> 'l NodesContainer \<Rightarrow> SocketAddr list \<Rightarrow> nat \<times> 'l NodesContainer \<times> bool" where
  "connect_gateways R W t nc [] = (t, nc, False)"
| "connect_gateways R W t nc (addr # addrs) =
     (case connect R W t nc addr of
        (nc, Inr _) \<Rightarrow>
          if pl_min_peers (peers_level nc) then (Suc t, nc, True) else connect_gateways R W (Suc t) nc addrs
      | (nc, Inl _) \<Rightarrow> connect_gateways R W (Suc t) nc addrs)"

partial_function (option) gateway_loop ::
  "('l, 'z) lru_scheme \<Rightarrow> 'w world_scheme \<Rightarrow> SocketAddr list \<Rightarrow> nat \<Rightarrow> 'l NodesContainer \<Rightarrow> (nat \<times> 'l NodesContainer) res option" where
  "gateway_loop R W gateways t nc =
     (if gateways = [] then Some (Ok (t, nc))
      else case connect_gateways R W t nc (shuffled W t gateways) of
        (t, nc, enough) \<Rightarrow>
          if enough then Some (Ok (t, nc))
          else Option.bind (connect_until_min R W t nc) (\<lambda>r.
            case r of
              Inl e \<Rightarrow> Some (Panic e)
            | Inr (t, nc) \<Rightarrow>
                if pl_min_peers (peers_level nc) then Some (Ok (t, nc)) else gateway_loop R W gateways t nc))"

definition bootstrap ::
  "('l, 'z) lru_scheme \<Rightarrow> 'w world_scheme \<Rightarrow> SocketAddr list \<Rightarrow> nat \<Rightarrow> 'l NodesContainer \<Rightarrow> (nat \<times> 'l NodesContainer) res option" where
  "bootstrap R W gateways t nc =
     (if pl_min_peers (peers_level nc) then Some (Ok (t, nc)) else gateway_loop R W gateways t nc)"

section \<open>Lost connections\<close>

text \<open>The last component tells that the network is lost: it is paused until a gateway answers.\<close>

definition reconnect_begin ::
  "SocketAddr fset \<Rightarrow> 'l NodesContainer \<Rightarrow> SocketAddr \<Rightarrow> 'l NodesContainer \<times> PendingPeer option \<times> bool" where
  "reconnect_begin gateways nc addr =
     (let (nc, pending_peer) =
            (if addr |\<in>| gateways then (remove_peer nc addr, None) else start_peer_reconnection nc addr)
      in (nc, pending_peer, fcard (fmdom (peers nc)) = 0 \<and> gateways \<noteq> {||}))"

fun try_gateways ::
  "('l, 'z) lru_scheme \<Rightarrow> 'w world_scheme \<Rightarrow> nat \<Rightarrow> 'l NodesContainer \<Rightarrow> SocketAddr list \<Rightarrow> nat \<times> 'l NodesContainer \<times> bool" where
  "try_gateways R W t nc [] = (t, nc, False)"
| "try_gateways R W t nc (addr # addrs) =
     (case connect R W t nc addr of
        (nc, Inr _) \<Rightarrow> (Suc t, nc, True)
      | (nc, Inl e) \<Rightarrow>
          if e = AlreadyConnected then (Suc t, nc, True) else try_gateways R W (Suc t) nc addrs)"

partial_function (option) regain_network ::
  "('l, 'z) lru_scheme \<Rightarrow> 'w world_scheme \<Rightarrow> SocketAddr list \<Rightarrow> nat \<Rightarrow> 'l NodesContainer \<Rightarrow> (nat \<times> 'l NodesContainer) option" where
  "regain_network R W gateways t nc =
     (case try_gateways R W t nc (shuffled W t gateways) of
        (t, nc, found) \<Rightarrow> if found then Some (t, nc) else regain_network R W gateways t nc)"

text \<open>The attempts at the moments the backoff gives; whether one of them succeeded.\<close>

fun reconnect_attempts :: "'w world_scheme \<Rightarrow> 'l NodesContainer \<Rightarrow> PendingPeer \<Rightarrow> nat list \<Rightarrow> 'l NodesContainer \<times> bool" where
  "reconnect_attempts W nc pending_peer [] = (nc, False)"
| "reconnect_attempts W nc pending_peer (t # ts) =
     (case attempt W t (pp_node_addr pending_peer) of
        Stream stream \<Rightarrow>
          (case on_connection_success nc pending_peer stream of
             (nc, Some _) \<Rightarrow> (nc, True)
           | (nc, None) \<Rightarrow> reconnect_attempts W nc pending_peer ts)
      | _ \<Rightarrow> reconnect_attempts W nc pending_peer ts)"

definition reconnect_give_up ::
  "('l, 'z) lru_scheme \<Rightarrow> 'w world_scheme \<Rightarrow> nat \<Rightarrow> 'l NodesContainer \<Rightarrow> PendingPeer \<Rightarrow> (nat \<times> 'l NodesContainer) res option" where
  "reconnect_give_up R W t nc pending_peer =
     (let nc = on_connection_failure nc pending_peer
      in if pl_min_peers (peers_level nc) then Some (Ok (t, nc)) else connect_once R W t nc)"

text \<open>\<open>n\<close> is the number of delays that the backoff gives before it ends.\<close>

definition reconnect ::
  "('l, 'z) lru_scheme \<Rightarrow> 'w world_scheme \<Rightarrow> (SocketAddr fset \<Rightarrow> SocketAddr list) \<Rightarrow> SocketAddr fset \<Rightarrow> nat \<Rightarrow>
     nat \<Rightarrow> 'l NodesContainer \<Rightarrow> SocketAddr \<Rightarrow> (nat \<times> 'l NodesContainer) res option" where
  "reconnect R W order gateways n t nc addr =
     (case reconnect_begin gateways nc addr of (nc, pending_peer, lost) \<Rightarrow>
        Option.bind (if lost then regain_network R W (order gateways) t nc else Some (t, nc)) (\<lambda>(t, nc).
          case pending_peer of
            None \<Rightarrow> Some (Ok (t, nc))
          | Some pending_peer \<Rightarrow>
              (case reconnect_attempts W nc pending_peer [t ..< t + n] of
                 (nc, True) \<Rightarrow> Some (Ok (t + n, nc))
               | (nc, False) \<Rightarrow> reconnect_give_up R W (t + n) nc pending_peer)))"

section \<open>Every operation keeps the tables consistent\<close>

lemma add_contact_frame: "peers (add_contact R nc a) = peers nc \<and> min_peers (add_contact R nc a) = min_peers nc"
  by (auto simp: add_contact_def check_is_in_block_list_def Let_def split_def)

lemma add_contacts_frame: "peers (add_contacts R nc as) = peers nc \<and> min_peers (add_contacts R nc as) = min_peers nc"
proof -
  have "peers (foldl (add_contact R) nc as) = peers nc \<and> min_peers (foldl (add_contact R) nc as) = min_peers nc" for as
    by (induction as arbitrary: nc) (simp_all add: add_contact_frame)
  then show ?thesis by (simp add: add_contacts_def Let_def)
qed

lemma add_contacts_ok: "nodes_ok R nc \<Longrightarrow> lru_ok R \<Longrightarrow> nodes_ok R (add_contacts R nc as)"
  by (rule nodes_run.step_keeps [of R nc "Add_contacts as"]) simp_all

lemma block_ok: "nodes_ok R nc \<Longrightarrow> lru_ok R \<Longrightarrow> nodes_ok R (add_to_block_list R nc a)"
  by (rule nodes_run.step_keeps [of R nc "Block_node a"]) simp_all

lemma sync_contacts_frame:
  "peers (fst (sync_contacts R W t nc p)) = peers nc \<and> min_peers (fst (sync_contacts R W t nc p)) = min_peers nc"
proof -
  have "peers (foldl (add_reachable R W t) nc cs) = peers nc \<and> min_peers (foldl (add_reachable R W t) nc cs) = min_peers nc" for cs
    by (induction cs arbitrary: nc) (simp_all add: add_reachable_def add_contacts_frame)
  then show ?thesis by (simp add: sync_contacts_def split: sum.split)
qed

lemma sync_contacts_ok:
  assumes "nodes_ok R nc" and "lru_ok R"
  shows "nodes_ok R (fst (sync_contacts R W t nc p))"
proof -
  have "nodes_ok R (foldl (add_reachable R W t) nc cs)" for cs
    using assms(1) by (induction cs arbitrary: nc) (simp_all add: add_reachable_def add_contacts_ok [OF _ assms(2)])
  then show ?thesis using assms(1) by (simp add: sync_contacts_def split: sum.split)
qed

lemma connect_specific_ok: "nodes_ok R nc \<Longrightarrow> nodes_ok R (fst (connect_to_specific_contact nc a))"
  using connect_specific_refines [of R nc] by (simp add: refines_def)

lemma success_ok: "nodes_ok R nc \<Longrightarrow> nodes_ok R (fst (on_connection_success nc p stream))"
  using connected_refines [of R nc] by (simp add: refines_def on_connection_success_def)

lemma failure_ok: "nodes_ok R nc \<Longrightarrow> nodes_ok R (on_connection_failure nc p)"
  using connect_failed_refines [of R nc] by (simp add: refines_def on_connection_failure_def)

lemma connect_simple_ok:
  assumes "nodes_ok R nc"
  shows "nodes_ok R (fst (connect_simple W t nc p))"
proof -
  have "fst (connect_simple W t nc p) = (case attempt W t (pp_node_addr p) of
      Stream stream \<Rightarrow> fst (on_connection_success nc p stream) | _ \<Rightarrow> on_connection_failure nc p)"
    by (simp add: connect_simple_def split: tcp_outcome.split option.split prod.split)
  then show ?thesis using assms by (simp add: success_ok failure_ok split: tcp_outcome.split)
qed

lemma connect_ok:
  assumes "nodes_ok R nc" and "lru_ok R"
  shows "nodes_ok R (fst (connect R W t nc a))"
proof -
  obtain nc1 q where c: "connect_to_specific_contact (add_contacts R nc [a]) a = (nc1, q)" by force
  have 1: "nodes_ok R nc1" using connect_specific_ok [OF add_contacts_ok [OF assms], of "[a]" a] c by simp
  show ?thesis
  proof (cases q)
    case (Some pp)
    obtain nc2 r where s: "connect_simple W t nc1 pp = (nc2, r)" by force
    have 2: "nodes_ok R nc2" using connect_simple_ok [OF 1, of W t pp] s by simp
    show ?thesis
      using 2 sync_contacts_ok [OF 2 assms(2), of W t] by (auto simp: connect_def c Some s split: sum.split prod.split)
        (metis fst_conv)+
  qed (use 1 c in \<open>simp add: connect_def\<close>)
qed

lemma accept_ok:
  assumes "nodes_ok R nc" and "lru_ok R"
  shows "nodes_ok R (accept_connection R W t nc x stream)"
proof (cases "pl_max_peers (peers_level nc) \<or> x = None")
  case False
  then obtain a where a: "x = Some a" by auto
  obtain nc0 b where b: "check_is_in_block_list R nc a = (nc0, b)" by force
  have 0: "nodes_ok R nc0" using check_refines(1) [OF assms, of a] b by (simp add: refines_def)
  obtain nc1 q where c: "connect_to_specific_contact (add_contacts R nc0 [a]) a = (nc1, q)" by force
  have 1: "nodes_ok R nc1" using connect_specific_ok [OF add_contacts_ok [OF 0 assms(2)], of "[a]" a] c by simp
  show ?thesis
  proof (cases q)
    case (Some pp)
    obtain nc2 r where s: "on_connection_success nc1 pp stream = (nc2, r)" by force
    have 2: "nodes_ok R nc2" using success_ok [OF 1, of pp stream] s by simp
    show ?thesis using False 0 2 sync_contacts_ok [OF 2 assms(2), of W t]
      by (simp add: accept_connection_def a b c Some s split: option.split)
  qed (use False 0 1 in \<open>simp add: accept_connection_def a b c\<close>)
qed (use assms in \<open>auto simp: accept_connection_def\<close>)

section \<open>The search for peers\<close>

lemma specific_contact_eq:
  assumes "nodes_ok R nc" and "fmlookup (contacts nc) a = Some c"
  shows "connect_to_specific_contact nc a =
    (nc\<lparr>contacts := fmdrop a (contacts nc), pending_peers := fmupd a \<lparr>pp_node_addr = a\<rparr> (pending_peers nc)\<rparr>, Some \<lparr>pp_node_addr = a\<rparr>)"
  using assms tables_okD(1) [OF nodes_okD(1) [OF assms(1)] assms(2)]
  by (simp add: connect_to_specific_contact_def PendingPeer_from_contact_def Let_def)

text \<open>An attempt either connects to one more peer, or uses up a contact, or finds none left.\<close>

definition search_progress :: "'l NodesContainer \<Rightarrow> 'l NodesContainer \<Rightarrow> ConnectionError + unit \<Rightarrow> bool" where
  "search_progress nc nc' r \<longleftrightarrow> min_peers nc' = min_peers nc \<and>
     (case r of Inr _ \<Rightarrow> fcard (fmdom (peers nc')) = Suc (fcard (fmdom (peers nc)))
      | Inl e \<Rightarrow> if e = NoContact then nc' = nc \<and> fmdom (contacts nc) = {||}
          else peers nc' = peers nc \<and> fcard (fmdom (contacts nc')) < fcard (fmdom (contacts nc)))"

lemma fcard_drop_less:
  assumes "fmlookup m a = Some x"
  shows "fcard (fmdom (fmdrop a m)) < fcard (fmdom m)"
proof -
  have "a |\<in>| fmdom m" by (rule fmdomI [OF assms])
  then show ?thesis unfolding fmdom_drop by (rule fcard_fminus1_less)
qed

lemma connect_chosen:
  assumes "nodes_ok R nc" and "lru_ok R" and "fmlookup (contacts nc) a = Some c" and "pick W t (fmdom (contacts nc)) = Some a"
  shows "\<exists>nc' r. network_connect_to_random_contact R W t nc = Ok (nc', r) \<and> nodes_ok R nc' \<and> search_progress nc nc' r"
proof -
  note t = nodes_okD(1) [OF assms(1)]
  let ?p = "\<lparr>pp_node_addr = a\<rparr>"
  define nc1 where "nc1 = nc\<lparr>contacts := fmdrop a (contacts nc), pending_peers := fmupd a ?p (pending_peers nc)\<rparr>"
  have c: "connect_to_random_contact nc (Some a) = Ok (nc1, Some ?p)"
    using specific_contact_eq [OF assms(1,3)] assms(3) by (simp add: connect_random_eq nc1_def)
  have 1: "nodes_ok R nc1" using connect_specific_ok [OF assms(1), of a] specific_contact_eq [OF assms(1,3)] by (simp add: nc1_def)
  have f: "min_peers nc1 = min_peers nc" "peers nc1 = peers nc" "fmlookup (pending_peers nc1) a = Some ?p"
      "contacts nc1 = fmdrop a (contacts nc)" by (simp_all add: nc1_def)
  show ?thesis
  proof (cases "attempt W t a")
    case (Stream stream)
    define nc2 where "nc2 = fst (on_connection_success nc1 ?p stream)"
    have s: "on_connection_success nc1 ?p stream = (nc2, Some \<lparr>pe_node_addr = a, pe_stream = stream\<rparr>)"
      using f(3) by (simp add: nc2_def on_connection_success_def finish_successful_connection_attempt_def Let_def)
    have 2: "nodes_ok R nc2" using success_ok [OF 1] by (simp add: nc2_def)
    have "peers nc2 = fmupd a \<lparr>pe_node_addr = a, pe_stream = stream\<rparr> (peers nc)" "min_peers nc2 = min_peers nc"
      using f by (simp_all add: nc2_def on_connection_success_def finish_successful_connection_attempt_def Let_def)
    moreover have "a |\<notin>| fmdom (peers nc)" using tables_okD(3) [OF t assms(3)] by (simp add: fmdom_notI)
    ultimately have "search_progress nc (fst (sync_contacts R W t nc2 a)) (Inr ())"
      by (simp add: search_progress_def sync_contacts_frame fcard_finsert_disjoint)
    moreover have "network_connect_to_random_contact R W t nc = Ok (fst (sync_contacts R W t nc2 a), Inr ())"
      by (simp add: network_connect_to_random_contact_def assms(4) c connect_simple_def Stream s)
    ultimately show ?thesis using sync_contacts_ok [OF 2 assms(2), of W t a] by blast
  next
    case (Refused e)
    have "search_progress nc (on_connection_failure nc1 ?p) (Inl (IO e))"
      using fcard_drop_less [OF assms(3)] by (simp add: search_progress_def on_connection_failure_def finish_failed_connection_attempt_def f)
    then show ?thesis using failure_ok [OF 1, of ?p]
      by (simp add: network_connect_to_random_contact_def assms(4) c connect_simple_def Refused)
  next
    case No_exchange
    have "search_progress nc (on_connection_failure nc1 ?p) (Inl FailedToExchangeAddress)"
      using fcard_drop_less [OF assms(3)] by (simp add: search_progress_def on_connection_failure_def finish_failed_connection_attempt_def f)
    then show ?thesis using failure_ok [OF 1, of ?p]
      by (simp add: network_connect_to_random_contact_def assms(4) c connect_simple_def No_exchange)
  qed
qed

lemma random_contact_progress:
  assumes "nodes_ok R nc" and "lru_ok R" and "pick_ok W"
  obtains nc' r where "network_connect_to_random_contact R W t nc = Ok (nc', r)" "nodes_ok R nc'" "search_progress nc nc' r"
proof (cases "pick W t (fmdom (contacts nc))")
  case None
  then have "fmdom (contacts nc) = {||}" using assms(3) unfolding pick_ok_def by (metis option.simps(4))
  moreover have "network_connect_to_random_contact R W t nc = Ok (nc, Inl NoContact)"
    by (simp add: network_connect_to_random_contact_def None connect_to_random_contact_def)
  ultimately show thesis using that [of nc "Inl NoContact"] assms(1) by (simp add: search_progress_def)
next
  case (Some a)
  then have "a |\<in>| fmdom (contacts nc)" using assms(3) unfolding pick_ok_def by (metis option.simps(5))
  then obtain c where "fmlookup (contacts nc) a = Some c" by (auto simp: fmlookup_dom_iff)
  from connect_chosen [OF assms(1,2) this Some] show thesis using that by blast
qed

lemma connect_until_min_ends:
  assumes "nodes_ok R nc" and "lru_ok R" and "pick_ok W"
  shows "\<exists>t' nc'. connect_until_min R W t nc = Some (Ok (t', nc')) \<and> nodes_ok R nc' \<and>
    (pl_min_peers (peers_level nc') \<or> fmdom (contacts nc') = {||})"
  using assms(1)
proof (induction nc arbitrary: t rule: wf_induct_rule
    [OF wf_measures [of "[\<lambda>nc. min_peers nc - fcard (fmdom (peers nc)), \<lambda>nc. fcard (fmdom (contacts nc))]"]])
  case (1 nc)
  obtain nc' r where c: "network_connect_to_random_contact R W t nc = Ok (nc', r)" and ok: "nodes_ok R nc'" and p: "search_progress nc nc' r"
    by (rule random_contact_progress [OF 1(2) assms(2,3)])
  note IH = 1(1) [OF _ ok, of "Suc t"]
  show ?case
  proof (cases r)
    case (Inr u)
    show ?thesis
    proof (cases "pl_min_peers (peers_level nc')")
      case False
      then have "(nc', nc) \<in> measures [\<lambda>nc. min_peers nc - fcard (fmdom (peers nc)), \<lambda>nc. fcard (fmdom (contacts nc))]"
        using p Inr by (auto simp: search_progress_def peers_level_def)
      from IH [OF this] show ?thesis using False by (subst connect_until_min.simps) (simp add: c Inr)
    qed (use ok in \<open>subst connect_until_min.simps, simp add: c Inr\<close>)
  next
    case (Inl e)
    show ?thesis
    proof (cases "e = NoContact")
      case False
      then have "(nc', nc) \<in> measures [\<lambda>nc. min_peers nc - fcard (fmdom (peers nc)), \<lambda>nc. fcard (fmdom (contacts nc))]"
        using p Inl by (auto simp: search_progress_def)
      from IH [OF this] show ?thesis using False by (subst connect_until_min.simps) (simp add: c Inl)
    qed (use ok p in \<open>subst connect_until_min.simps, simp add: c Inl search_progress_def\<close>)
  qed
qed

lemma connect_once_ends:
  assumes "nodes_ok R nc" and "lru_ok R" and "pick_ok W"
  shows "\<exists>t' nc'. connect_once R W t nc = Some (Ok (t', nc')) \<and> nodes_ok R nc' \<and>
    (fcard (fmdom (peers nc)) < fcard (fmdom (peers nc')) \<or> fmdom (contacts nc') = {||})"
  using assms(1)
proof (induction "fcard (fmdom (contacts nc))" arbitrary: nc t rule: less_induct)
  case less
  obtain nc' r where c: "network_connect_to_random_contact R W t nc = Ok (nc', r)" and ok: "nodes_ok R nc'" and p: "search_progress nc nc' r"
    by (rule random_contact_progress [OF less(2) assms(2,3)])
  show ?case
  proof (cases r)
    case (Inl e)
    show ?thesis
    proof (cases "e = NoContact")
      case False
      then have f: "fcard (fmdom (contacts nc')) < fcard (fmdom (contacts nc))" "peers nc' = peers nc"
        using p Inl by (auto simp: search_progress_def)
      from less(1) [OF f(1) ok, of "Suc t"] show ?thesis using False f(2) by (subst connect_once.simps) (simp add: c Inl)
    qed (use ok p in \<open>subst connect_once.simps, simp add: c Inl search_progress_def\<close>)
  qed (use ok p in \<open>subst connect_once.simps, simp add: c search_progress_def\<close>)
qed

section \<open>A run of the network\<close>

text \<open>What happens to the tables, one event after another; the loops are treated apart.\<close>

datatype connection_event =
    Accept "SocketAddr option" nat
  | Connect_peer SocketAddr
  | Connect_any
  | Sync SocketAddr
  | Maintain_contacts
  | Check SocketAddr
  | Lost SocketAddr "nat list"
  | Block_address SocketAddr

definition lost_peer ::
  "'w world_scheme \<Rightarrow> SocketAddr fset \<Rightarrow> 'l NodesContainer \<Rightarrow> SocketAddr \<Rightarrow> nat list \<Rightarrow> 'l NodesContainer" where
  "lost_peer W gateways nc a ts =
     (case reconnect_begin gateways nc a of (nc, pending_peer, _) \<Rightarrow>
        (case pending_peer of
           None \<Rightarrow> nc
         | Some p \<Rightarrow> (case reconnect_attempts W nc p ts of (nc, ok) \<Rightarrow> if ok then nc else on_connection_failure nc p)))"

fun connection_step ::
  "('l, 'z) lru_scheme \<Rightarrow> 'w world_scheme \<Rightarrow> SocketAddr fset \<Rightarrow> 'l NodesContainer \<Rightarrow> nat \<times> connection_event \<Rightarrow> 'l NodesContainer res" where
  "connection_step R W G nc (t, Accept x stream) = Ok (accept_connection R W t nc x stream)"
| "connection_step R W G nc (t, Connect_peer a) = Ok (fst (connect R W t nc a))"
| "connection_step R W G nc (t, Connect_any) = bindR (network_connect_to_random_contact R W t nc) (\<lambda>(nc, _). Ok nc)"
| "connection_step R W G nc (t, Sync a) = Ok (fst (sync_contacts R W t nc a))"
| "connection_step R W G nc (t, Maintain_contacts) = Ok (fst (maintain_contacts R W t nc))"
| "connection_step R W G nc (t, Check a) = Ok (check_contact W t nc a)"
| "connection_step R W G nc (t, Lost a ts) = Ok (lost_peer W G nc a ts)"
| "connection_step R W G nc (t, Block_address a) = Ok (add_to_block_list R nc a)"

lemma maintain_ok:
  assumes "nodes_ok R nc" and "lru_ok R"
  shows "nodes_ok R (fst (maintain_contacts R W t nc))"
proof -
  obtain nc1 c where c: "get_contacts_to_check nc = (nc1, c)" by force
  then have "nodes_ok R nc1" using to_check_refines [OF assms(1)] by (simp add: refines_def)
  then show ?thesis using sync_contacts_ok [OF _ assms(2), of nc1 W t] by (simp add: maintain_contacts_def c Let_def split: option.split)
qed

lemma check_contact_ok: "nodes_ok R nc \<Longrightarrow> nodes_ok R (check_contact W t nc a)"
  using contact_ok_refines [of R nc a] contact_failed_refines [of R nc a] by (simp add: check_contact_def refines_def)

lemma reconnect_begin_ok: "nodes_ok R nc \<Longrightarrow> nodes_ok R (fst (reconnect_begin G nc a))"
  using remove_refines [of R nc a] reconnect_refines [of R nc a] by (simp add: reconnect_begin_def refines_def split_def Let_def)

lemma reconnect_attempts_ok: "nodes_ok R nc \<Longrightarrow> nodes_ok R (fst (reconnect_attempts W nc p ts))"
proof (induction ts arbitrary: nc)
  case (Cons t ts)
  then show ?case using success_ok [OF Cons.prems, of p]
    by (auto split: tcp_outcome.split prod.split option.split) (metis Cons.IH fst_conv)+
qed simp

lemma lost_peer_ok:
  assumes "nodes_ok R nc"
  shows "nodes_ok R (lost_peer W G nc a ts)"
proof -
  obtain nc1 p l where b: "reconnect_begin G nc a = (nc1, p, l)" by (metis prod_cases3)
  have 1: "nodes_ok R nc1" using reconnect_begin_ok [OF assms, of G a] b by simp
  show ?thesis
  proof (cases p)
    case (Some q)
    obtain nc2 ok where r: "reconnect_attempts W nc1 q ts = (nc2, ok)" by force
    have "nodes_ok R nc2" using reconnect_attempts_ok [OF 1, of W q ts] r by simp
    then show ?thesis using failure_ok [of R nc2 q] by (simp add: lost_peer_def b Some r)
  qed (use 1 in \<open>simp add: lost_peer_def b\<close>)
qed

lemma connection_step_total:
  assumes "nodes_ok R nc" and "lru_ok R" and "pick_ok W"
  shows "\<exists>nc'. connection_step R W G nc e = Ok nc' \<and> nodes_ok R nc'"
proof -
  obtain t ev where e: "e = (t, ev)" by force
  show ?thesis
  proof (cases ev)
    case Connect_any
    obtain nc' r where "network_connect_to_random_contact R W t nc = Ok (nc', r)" "nodes_ok R nc'"
      by (rule random_contact_progress [OF assms])
    then show ?thesis by (simp add: e Connect_any)
  qed (simp_all add: e accept_ok [OF assms(1,2)] connect_ok [OF assms(1,2)] sync_contacts_ok [OF assms(1,2)] maintain_ok [OF assms(1,2)]
      check_contact_ok [OF assms(1)] lost_peer_ok [OF assms(1)] block_ok [OF assms(1,2)])
qed

interpretation connection_run: total_operation "connection_step R W G" "nodes_ok R" "\<lambda>_. lru_ok R \<and> pick_ok W"
proof
  fix nc e nc' assume "nodes_ok R nc" "lru_ok R \<and> pick_ok W" "connection_step R W G nc e = Ok nc'"
  then show "nodes_ok R nc'" using connection_step_total [of R nc W G e] by auto
next
  fix nc e assume "nodes_ok R nc" "lru_ok R \<and> pick_ok W"
  then show "\<exists>nc'. connection_step R W G nc e = Ok nc'" using connection_step_total [of R nc W G e] by auto
qed

lemma restore_ok:
  assumes "nodes_ok R nc" and "lru_ok R"
  shows "nodes_ok R (restore_nodes R order nc x)"
proof -
  have "nodes_ok R nc \<Longrightarrow> nodes_ok R (foldl (add_to_block_list R) nc bs)" for nc bs
    by (induction bs arbitrary: nc) (simp_all add: block_ok [OF _ assms(2)])
  then show ?thesis using assms by (simp add: restore_nodes_def add_contacts_ok split: option.split)
qed

section \<open>Requests and replies\<close>

datatype request_event =
    Ask nat "SocketAddr option" RequestMessage
  | Arrive SocketAddr bool Message
  | Expire u32

fun request_step ::
  "'c codec_scheme \<Rightarrow> (SocketAddr fset \<Rightarrow> SocketAddr list) \<Rightarrow> 'l Network \<Rightarrow> request_event \<Rightarrow> 'l Network \<times> effect" where
  "request_step C order net (Ask n chosen q) =
     (net\<lparr>requests_container := fst (request C (requests_container net) n chosen q)\<rparr>, Nothing)"
| "request_step C order net (Arrive peer alive m) = handle_message C order peer alive net m"
| "request_step C order net (Expire i) =
     (net\<lparr>requests_container := fst (request_timed_out (requests_container net) i)\<rparr>, Nothing)"

fun request_run ::
  "'c codec_scheme \<Rightarrow> (SocketAddr fset \<Rightarrow> SocketAddr list) \<Rightarrow> 'l Network \<Rightarrow> request_event list \<Rightarrow> 'l Network \<times> effect list" where
  "request_run C order net [] = (net, [])"
| "request_run C order net (e # es) =
     (let (net, x) = request_step C order net e; (net, xs) = request_run C order net es in (net, x # xs))"

text \<open>An event that ends request \<open>i\<close>, one that waits on channel \<open>n\<close>, and the number of requests in a run.\<close>

fun ends_request :: "u32 \<Rightarrow> request_event \<Rightarrow> bool" where
  "ends_request i (Arrive _ _ (Response j _)) \<longleftrightarrow> j = i"
| "ends_request i (Expire j) \<longleftrightarrow> j = i"
| "ends_request i _ \<longleftrightarrow> False"

fun uses_channel :: "nat \<Rightarrow> request_event \<Rightarrow> bool" where
  "uses_channel n (Ask m _ _) \<longleftrightarrow> m = n"
| "uses_channel n _ \<longleftrightarrow> False"

fun asks :: "request_event list \<Rightarrow> nat" where
  "asks [] = 0"
| "asks (Ask _ _ _ # es) = Suc (asks es)"
| "asks (_ # es) = asks es"

text \<open>Request \<open>i\<close> waits on channel \<open>n\<close> and nobody else does; \<open>k\<close> requests were begun after it.\<close>

definition waiting :: "RequestsContainer \<Rightarrow> u32 \<Rightarrow> nat \<Rightarrow> nat \<Rightarrow> bool" where
  "waiting rc i n k \<longleftrightarrow> (\<forall>j. handlers rc j = Some n \<longleftrightarrow> j = i) \<and> next_id rc = i + 1 + of_nat k"

lemma id_not_reused: "Suc k < 2 ^ 32 \<Longrightarrow> (i :: u32) + 1 + of_nat k \<noteq> i"
proof
  assume k: "Suc k < 2 ^ 32" and "(i :: u32) + 1 + of_nat k = i"
  then have "of_nat (Suc k) = (0 :: u32)" by (simp add: add.assoc)
  then have "unat (of_nat (Suc k) :: u32) = 0" by simp
  then show False using k by (simp add: unat_of_nat del: of_nat_Suc)
qed

lemma waiting_ask:
  assumes "waiting rc i n k" and "Suc k < 2 ^ 32" and "m \<noteq> n"
  shows "waiting (fst (request C rc m chosen q)) i n (Suc k)"
proof -
  have "next_id rc \<noteq> i" using assms(1) id_not_reused [OF assms(2), of i] by (simp add: waiting_def)
  then show ?thesis using assms(1,3)
    by (auto simp: waiting_def request_def add_handler_def remove_handler_def Let_def split: option.split)
qed

lemma waiting_remove: "waiting rc i n k \<Longrightarrow> j \<noteq> i \<Longrightarrow> waiting (fst (remove_handler rc j)) i n k"
  by (auto simp: waiting_def remove_handler_def)

lemma waiting_step:
  assumes "waiting (requests_container net) i n k" and "\<not> ends_request i e" and "\<not> uses_channel n e" and "k + asks [e] < 2 ^ 32"
  shows "waiting (requests_container (fst (request_step C order net e))) i n (k + asks [e]) \<and> snd (request_step C order net e) \<noteq> Deliver n m"
proof (cases e)
  case (Ask l chosen q)
  then show ?thesis using waiting_ask [OF assms(1), of l C chosen q] assms(3,4) by simp
next
  case (Expire j)
  then show ?thesis using waiting_remove [OF assms(1), of j] assms(2) by (simp add: request_timed_out_def)
next
  case (Arrive peer alive msg)
  show ?thesis
  proof (cases msg)
    case (Response j r)
    then have "j \<noteq> i" using assms(2) Arrive by simp
    moreover from this have "handlers (requests_container net) j \<noteq> Some n" using assms(1) by (simp add: waiting_def)
    ultimately show ?thesis using waiting_remove [OF assms(1), of j]
      by (auto simp: Arrive Response remove_handler_def split: option.split)
  next
    case (InternalRequest j r)
    then show ?thesis using assms(1) by (cases r) (simp add: Arrive Let_def)
  next
    case (InternalResponse j r)
    then show ?thesis using assms(1) by (simp add: Arrive remove_handler_def split: option.split)
  qed (use assms(1) Arrive in simp_all)
qed

lemma asks_Cons: "asks (e # es) = asks [e] + asks es"
  by (cases e) simp_all

lemma waiting_run:
  assumes "waiting (requests_container net) i n k" and "\<forall>e \<in> set es. \<not> ends_request i e \<and> \<not> uses_channel n e" and "k + asks es < 2 ^ 32"
  shows "waiting (requests_container (fst (request_run C order net es))) i n (k + asks es) \<and>
    (\<forall>m. Deliver n m \<notin> set (snd (request_run C order net es)))"
  using assms
proof (induction es arbitrary: net k)
  case (Cons e es)
  obtain net1 x where s: "request_step C order net e = (net1, x)" by force
  obtain net2 xs where r: "request_run C order net1 es = (net2, xs)" by force
  have l: "k + asks [e] < 2 ^ 32" "k + asks [e] + asks es < 2 ^ 32" using Cons.prems(3) asks_Cons [of e es] by linarith+
  have w: "waiting (requests_container net1) i n (k + asks [e])" "x \<noteq> Deliver n m" for m
    using waiting_step [OF Cons.prems(1) _ _ l(1), where C = C and order = order] Cons.prems(2) s by simp_all
  have "waiting (requests_container net2) i n (k + asks [e] + asks es)" "Deliver n m \<notin> set xs" for m
    using Cons.IH [OF w(1) _ l(2)] Cons.prems(2) r by simp_all
  then show ?case using w(2) asks_Cons [of e es] by (auto simp: s r add.assoc)
qed simp

lemma request_waits:
  assumes "request C rc n chosen q = (rc', Inr (i, peer, bs))" and "\<forall>j. handlers rc j \<noteq> Some n"
  shows "waiting rc' i n 0"
  using assms by (auto simp: request_def add_handler_def waiting_def Let_def split: if_splits option.splits)

lemma waiting_answered:
  assumes "waiting (requests_container net) i n k"
  shows "\<exists>net'. handle_message C order peer alive net (Response i m) = (net', Deliver n m) \<and>
    snd (handle_message C order peer' alive' net' (Response i m')) = Nothing"
proof -
  have "handlers (requests_container net) i = Some n" using assms by (simp add: waiting_def)
  then show ?thesis by (simp add: remove_handler_def)
qed

text \<open>A request that finds no peer leaves its handler behind.\<close>

lemma no_peers_leaks:
  "request C rc n None q = (rc', Inl NoPeers) \<Longrightarrow> handlers rc' (next_id rc) = Some n"
  by (auto simp: request_def add_handler_def Let_def split: if_splits)

section \<open>A full table of contacts\<close>

lemma connect_full:
  assumes "fcard (fmdom (contacts nc)) = max_contacts nc" and "fmlookup (contacts nc) a = None" and "fmlookup (peers nc) a = None"
  shows "connect R W t nc a = (nc, Inl NoContact)"
proof -
  have "add_contacts R nc [a] = nc" by (simp add: add_contacts_def assms(1) [symmetric])
  then show ?thesis using assms(2,3) by (simp add: connect_def connect_to_specific_contact_def is_peer_connected_def)
qed

lemma try_gateways_full:
  assumes "fcard (fmdom (contacts nc)) = max_contacts nc"
    and "\<forall>a \<in> set as. fmlookup (contacts nc) a = None \<and> fmlookup (peers nc) a = None"
  shows "try_gateways R W t nc as = (t + length as, nc, False)"
  using assms(2) by (induction as arbitrary: t) (simp_all add: connect_full [OF assms(1)])

lemma regain_never:
  assumes "regain_network R W gs t nc = Some y" and "fcard (fmdom (contacts nc)) = max_contacts nc"
    and "\<forall>t. set (shuffled W t gs) = set gs" and "\<forall>a \<in> set gs. fmlookup (contacts nc) a = None \<and> fmlookup (peers nc) a = None"
  shows False
  using assms
proof (induction R W gs t nc y rule: regain_network.raw_induct [rotated, consumes 1, case_names step])
  case (step regain R W gs t nc y)
  have "try_gateways R W t nc (shuffled W t gs) = (t + length (shuffled W t gs), nc, False)"
    by (rule try_gateways_full [OF step(3)]) (use step(4,5) in simp)
  then show ?case using step(1) [OF _ step(3-5)] step(2) by simp
qed

section \<open>Properties\<close>

text \<open>
  \<^bold>\<open>C19\<close>: once a request was sent, and while fewer than \<open>2 ^ 32\<close> others are begun, whatever else
  arrives or expires, nothing is delivered on the channel of the request before its own reply, the
  reply with its number is delivered to it, and a second reply with that number is dropped.
\<close>

theorem reply_reaches_request:
  assumes "request C rc n chosen q = (rc', Inr (i, peer, bs))" and "\<forall>j. handlers rc j \<noteq> Some n"
    and "requests_container net = rc'" and "\<forall>e \<in> set es. \<not> ends_request i e \<and> \<not> uses_channel n e" and "asks es < 2 ^ 32"
  shows "case request_run C order net es of (net', effects) \<Rightarrow>
    (\<forall>m'. Deliver n m' \<notin> set effects) \<and>
    (\<exists>net''. handle_message C order p alive net' (Response i m) = (net'', Deliver n m) \<and>
      snd (handle_message C order p' alive' net'' (Response i m2)) = Nothing)"
proof -
  obtain net' effects where r: "request_run C order net es = (net', effects)" by force
  have "waiting (requests_container net) i n 0" using request_waits [OF assms(1,2)] assms(3) by simp
  from waiting_run [OF this assms(4), of C order] assms(5)
  have w: "waiting (requests_container net') i n (asks es)" and "\<forall>m'. Deliver n m' \<notin> set effects" by (simp_all add: r)
  then show ?thesis using waiting_answered [OF w] by (simp add: r)
qed

definition small_network :: "(nat \<times> SocketAddr list) Network" where
  "small_network = \<lparr>node_addr = V4 9 9, gateway_nodes = {|V4 2 2|}, nodes_container = busy_nodes,
     requests_container = fst (request contacts_codec RequestsContainer_default 5 (Some (V4 2 2)) ReqGenesisConfig),
     internal_requests_container = RequestsContainer_default\<rparr>"

theorem reply_reaches_request_witness:
  "case request_run contacts_codec (\<lambda>_. []) small_network [Ask 6 None ReqGenesisConfig, Arrive (V4 2 2) True (Response 1 (RespStateById \<lparr>sr_state_block = None\<rparr>))] of
     (net', effects) \<Rightarrow> (\<forall>m'. Deliver 5 m' \<notin> set effects) \<and>
       (\<exists>net''. handle_message contacts_codec (\<lambda>_. []) (V4 2 2) True net' (Response 0 (RespStateByHeight \<lparr>hr_state_block = None\<rparr>)) =
          (net'', Deliver 5 (RespStateByHeight \<lparr>hr_state_block = None\<rparr>)) \<and>
        snd (handle_message contacts_codec (\<lambda>_. []) (V4 2 2) True net'' (Response 0 (RespStateByHeight \<lparr>hr_state_block = None\<rparr>))) = Nothing)"
proof -
  define rc where "rc = fst (request contacts_codec RequestsContainer_default 5 (Some (V4 2 2)) ReqGenesisConfig)"
  have "request contacts_codec RequestsContainer_default 5 (Some (V4 2 2)) ReqGenesisConfig = (rc, Inr (0, V4 2 2, []))"
    by (simp add: rc_def request_def add_handler_def RequestsContainer_default_def to_bytes_def contacts_codec_def Let_def)
  moreover have "\<forall>j. handlers RequestsContainer_default j \<noteq> Some 5" by (simp add: RequestsContainer_default_def)
  moreover have "requests_container small_network = rc" by (simp add: small_network_def rc_def)
  ultimately show ?thesis by (rule reply_reaches_request) simp_all
qed



text \<open>
  \<^bold>\<open>C22\<close>: a node whose last peer is a gateway and whose table of contacts is full never gets
  back on the network once it loses that peer: no gateway can be added to the contacts, so no connection is
  even tried, although every gateway may be up.
\<close>

theorem lost_network_stuck:
  assumes "fmdom (peers nc) = {|g|}" and "g |\<in>| gateways" and "fcard (fmdom (contacts nc)) = max_contacts nc"
    and "\<forall>a \<in> fset gateways. fmlookup (contacts nc) a = None"
    and "set (order gateways) = fset gateways" and "\<forall>t. set (shuffled W t (order gateways)) = set (order gateways)"
  shows "reconnect R W order gateways n t nc g = None"
proof -
  let ?nc = "remove_peer nc g"
  have f: "contacts ?nc = contacts nc" "max_contacts ?nc = max_contacts nc" "peers ?nc = fmdrop g (peers nc)" by (simp_all add: remove_peer_def)
  have p: "fmdom (peers ?nc) = {||}" using assms(1) by (simp add: f)
  then have b: "reconnect_begin gateways nc g = (?nc, None, True)"
    using assms(2) by (auto simp: reconnect_begin_def fcard_fempty)
  have "fmlookup (peers ?nc) a = None" for a using p by (metis fempty_iff fmdom_notD)
  then have "regain_network R W (order gateways) t ?nc \<noteq> Some y" for y
    using regain_never [of R W "order gateways" t ?nc y] assms(3-6) by (auto simp: f)
  then have "regain_network R W (order gateways) t ?nc = None" by (cases "regain_network R W (order gateways) t ?nc") auto
  then show ?thesis by (simp add: reconnect_def b)
qed

section \<open>Concrete nodes\<close>

text \<open>The order of addresses: by version, then by their fields in turn.\<close>

definition addr_key :: "SocketAddr \<Rightarrow> nat \<times> nat \<times> nat \<times> nat \<times> nat" where
  "addr_key a = (case a of V4 ip port \<Rightarrow> (0, unat ip, unat port, 0, 0)
     | V6 ip port flow scope \<Rightarrow> (1, unat ip, unat port, unat flow, unat scope))"

lemma addr_key_inj: "addr_key a = addr_key b \<Longrightarrow> a = b"
  by (cases a; cases b) (simp_all add: addr_key_def word_unat_eq_iff)

instantiation SocketAddr :: linorder
begin

definition less_eq_SocketAddr :: "SocketAddr \<Rightarrow> SocketAddr \<Rightarrow> bool" where
  "less_eq_SocketAddr a b \<longleftrightarrow> addr_key a \<le> addr_key b"

definition less_SocketAddr :: "SocketAddr \<Rightarrow> SocketAddr \<Rightarrow> bool" where
  "less_SocketAddr a b \<longleftrightarrow> addr_key a < addr_key b"

instance
proof
  fix a b c :: SocketAddr
  show "a < b \<longleftrightarrow> a \<le> b \<and> \<not> b \<le> a" unfolding less_eq_SocketAddr_def less_SocketAddr_def by (rule less_le_not_le)
  show "a \<le> a" unfolding less_eq_SocketAddr_def by (rule order_refl)
  show "a \<le> b \<Longrightarrow> b \<le> c \<Longrightarrow> a \<le> c" unfolding less_eq_SocketAddr_def by (rule order_trans)
  show "a \<le> b \<Longrightarrow> b \<le> a \<Longrightarrow> a = b" unfolding less_eq_SocketAddr_def by (rule addr_key_inj) (rule order_antisym)
  show "a \<le> b \<or> b \<le> a" unfolding less_eq_SocketAddr_def by (rule linear)
qed

end

definition quiet_world :: world where
  "quiet_world = \<lparr>attempt = (\<lambda>_ a. if a = V4 3 3 then Stream 8 else Refused NotFound), replies = (\<lambda>_ _. Inr [V4 4 4]),
     reachable_addr = (\<lambda>_ _. True), pick = (\<lambda>_ s. if s = {||} then None else Some (fMin s)), shuffled = (\<lambda>_ l. l)\<rparr>"

lemma quiet_world_ok: "pick_ok quiet_world"
  by (simp add: pick_ok_def quiet_world_def fMin_in)

text \<open>Connected to a gateway only, with room for one contact, which is taken.\<close>

definition full_nodes :: "(nat \<times> SocketAddr list) NodesContainer" where
  "full_nodes = busy_nodes\<lparr>max_contacts := 1, min_peers := 2,
     contacts := fmupd (V4 3 3) \<lparr>ct_node_addr = V4 3 3, currently_checking = False\<rparr> fmempty\<rparr>"

lemma full_nodes_ok: "nodes_ok list_lru full_nodes"
  by (simp add: full_nodes_def busy_nodes_def nodes_ok_def tables_ok_def list_lru_def node_status_def fcard_fempty fcard_finsert_if)



theorem lost_network_stuck_witness:
  "reconnect list_lru quiet_world (\<lambda>_. [V4 2 2]) {|V4 2 2|} 3 0 full_nodes (V4 2 2) = None"
  by (rule lost_network_stuck) (simp_all add: full_nodes_def busy_nodes_def quiet_world_def fcard_fempty fcard_finsert_if)

end
