(* ===== verification/Manager.thy ===== *)
theory Manager
  imports Timer Network
begin

text \<open>
  The manager (\<^verbatim>\<open>src/manager.rs\<close>), the hub between network, ledger, plot, farmer and timer: incoming gossip,
  requests of peers, messages of the farmer and of the state, and the synchronisation of a new node.
  What peers answer, the clock and the iteration order of hash tables are arguments.  Gossip, requests
  and the synchronisation hold the lock of the ledger throughout, so these handlers do not interleave; the
  loop over solutions releases it between making a block and staging it, which the model takes as one step.

  Main results: a message is passed on to other peers at most once, and only when valid; a node that
  synchronises from an honest one ends with the same chain of state blocks; the pieces it stores are
  provable; its timer starts aligned with its epochs.
\<close>

section \<open>Gossip\<close>

datatype NodeType = Gateway | PeerNode | FarmerNode

datatype ProtocolMessage = BlockSolutions "Solution list" | NewState StateBundle

text \<open>A transaction that is new to the node joins the known ones, and the mempool unless a block already refers to it.\<close>

definition insert_tx :: "'e blocklib_scheme \<Rightarrow> Ledger \<Rightarrow> SimpleCreditTx \<Rightarrow> Ledger" where
  "insert_tx E L tx =
     (let tx_id = SimpleCreditTx_get_id E tx;
          L = L\<lparr>txs := (txs L)(tx_id \<mapsto> Credit tx)\<rparr>
      in if tx_id \<in> unknown_tx_ids L then L\<lparr>unknown_tx_ids := unknown_tx_ids L - {tx_id}\<rparr>
         else L\<lparr>unclaimed_tx_ids := insert tx_id (unclaimed_tx_ids L)\<rparr>)"

text \<open>
  The message that is passed on, if any, and the ledger after the handler: \<open>None\<close> when the staging of
  cached children does not end.  The message is sent before the block is staged.
\<close>

fun handle_gossip :: "'e blocklib_scheme \<Rightarrow> Ledger \<Rightarrow> GossipMessage \<Rightarrow> GossipMessage option \<times> Ledger res option" where
  "handle_gossip E L (BlockProposal block) =
     (case validate_block_from_gossip E L block of
        Inl e \<Rightarrow> (None, Some (Panic e))
      | Inr (L, valid) \<Rightarrow>
          if \<not> valid then (None, Some (Ok L))
          else
            (Some (BlockProposal block),
             if c_parent_id (b_content block) \<noteq> None then
               (case stage_proposer_block E L block of
                  Inl e \<Rightarrow> Some (Panic e)
                | Inr L \<Rightarrow> stage_cached_children E L (Content_get_id E (b_content block)))
             else Some (stage_tx_block E L block)))"
| "handle_gossip E L (TxProposal tx) =
     (if txs L (SimpleCreditTx_get_id E tx) \<noteq> None then (None, Some (Ok L))
      else if timer_is_running L then
        (case SimpleCreditTx_is_valid E tx (balances L (tx_from_address tx)) of
           Inl e \<Rightarrow> (None, Some (Panic e))
         | Inr valid \<Rightarrow>
             if \<not> valid then (None, Some (Ok L))
             else (Some (TxProposal tx), Some (Ok (insert_tx E L tx))))
      else (None, Some (Ok (insert_tx E L tx))))"

text \<open>What goes to which peers.\<close>

definition gossip_turn ::
  "'e blocklib_scheme \<Rightarrow> 'c codec_scheme \<Rightarrow> 'l NodesContainer \<Rightarrow> Ledger \<Rightarrow> SocketAddr \<Rightarrow> GossipMessage \<Rightarrow>
     (SocketAddr \<times> bytes) fset \<times> Ledger res option" where
  "gossip_turn E C nc L peer message =
     (case handle_gossip E L message of (out, r) \<Rightarrow>
        (case out of None \<Rightarrow> {||} | Some m \<Rightarrow> regossip C nc peer m, r))"

section \<open>Requests\<close>

text \<open>\<open>order\<close> is the order in which the hash table of collected transactions is iterated.\<close>

fun handle_request ::
  "'e blocklib_scheme \<Rightarrow> ('d, 'z) storage_scheme \<Rightarrow> ((TxId \<rightharpoonup> SimpleCreditTx) \<Rightarrow> SimpleCreditTx list) \<Rightarrow> NodeID \<Rightarrow>
     Ledger \<Rightarrow> 'd PlotState \<Rightarrow> RequestMessage \<Rightarrow> ResponseMessage option res" where
  "handle_request E D order node_id L p (ReqBlocks q) =
     bindR (get_blocks_by_timeslot L (bq_timeslot q)) (\<lambda>bs.
     bindR (get_txs_for_sync E L bs) (\<lambda>ts.
     Ok (Some (RespBlocks \<lparr>br_blocks = bs, br_transactions = order ts\<rparr>))))"
| "handle_request E D order node_id L p (ReqBlockByContentId q) =
     Ok (Some (RespBlockByContentId
       \<lparr>cr_block = map_option mb_block (get_metablock_from_content_id_as_option (metablocks L) (cq_id q))\<rparr>))"
| "handle_request E D order node_id L p (ReqBlockByProofId q) =
     Ok (Some (RespBlockByProofId
       \<lparr>pr_block = map_option mb_block (get_metablock_from_proof_id_as_option (metablocks L) (pq_id q))\<rparr>))"
| "handle_request E D order node_id L p (ReqTransactionById q) =
     Ok (Some (RespTransactionById \<lparr>tr_transaction = txs L (tq_id q)\<rparr>))"
| "handle_request E D order node_id L p (ReqStateById q) =
     Ok (Some (RespStateById \<lparr>sr_state_block = get_state_block_by_id (state L) (sq_id q)\<rparr>))"
| "handle_request E D order node_id L p (ReqStateByHeight q) =
     Ok (Some (RespStateByHeight \<lparr>hr_state_block = get_state_block_by_height (state L) (hq_height q)\<rparr>))"
| "handle_request E D order node_id L p (ReqPieceByIndex q) =
     bindR (get_piece_bundle_by_index D p (xq_index q) node_id) (\<lambda>b.
     Ok (Some (RespPieceByIndex \<lparr>xr_piece_bundle = b\<rparr>)))"
| "handle_request E D order node_id L p (ReqPieceById q) = Ok None"
| "handle_request E D order node_id L p ReqGenesisConfig =
     Ok (Some (RespGenesisConfig \<lparr>gr_genesis_config =
       \<lparr>gc_genesis_timestamp = genesis_timestamp L, gc_genesis_challenge = genesis_challenge L\<rparr>\<rparr>))"

section \<open>The protocol loop\<close>

text \<open>A gateway sets the time of genesis and starts its timer for timeslot 1.\<close>

definition gateway_start :: "u64 \<Rightarrow> Ledger \<Rightarrow> TimerState \<times> Ledger" where
  "gateway_start now L =
     (timer_start L 1, L\<lparr>timer_is_running := True, genesis_timestamp := now, current_timeslot := 0\<rparr>)"

text \<open>
  One solution, with the time of its block: the ledger, the ids of the proposer blocks made so far in
  this timeslot, and the blocks that were gossiped.
\<close>

definition apply_solution ::
  "'e blocklib_scheme \<Rightarrow> Ledger \<times> ContentId list \<times> Block list \<Rightarrow> u64 \<times> Solution \<Rightarrow> (Ledger \<times> ContentId list \<times> Block list) res" where
  "apply_solution E s x =
     (case (s, x) of ((L, content_ids, sent), (timestamp, solution)) \<Rightarrow>
        bindR (create_and_apply_local_block E timestamp L solution content_ids) (\<lambda>(L, block).
        if c_parent_id (b_content block) \<noteq> None then
          bindR (stage_proposer_block E L block) (\<lambda>L.
          Ok (L, content_ids @ [Content_get_id E (b_content block)], sent @ [block]))
        else bindR (stage_tx_block E L block) (\<lambda>L. Ok (L, content_ids, sent @ [block]))))"

text \<open>\<open>clock i\<close> is the time at which the block of the \<open>i\<close>-th solution is made.\<close>

definition handle_protocol ::
  "'e blocklib_scheme \<Rightarrow> ('d, 'z) storage_scheme \<Rightarrow> NodeID \<Rightarrow> (nat \<Rightarrow> u64) \<Rightarrow> Ledger \<times> 'd PlotState \<Rightarrow> ProtocolMessage \<Rightarrow>
     ((Ledger \<times> 'd PlotState) \<times> Block list) res option" where
  "handle_protocol E D node_id clock s message =
     (case (s, message) of
        ((L, p), BlockSolutions solutions) \<Rightarrow>
          Some (bindR (foldR (apply_solution E) (L, [], []) (zip (map clock [0..<length solutions]) solutions)) (\<lambda>(L, _, sent). Ok ((L, p), sent)))
      | ((L, p), NewState bundle) \<Rightarrow>
          if of_nat GENESIS_STATE_BLOCKS \<le> sb_height (state_block bundle) then
            map_option (\<lambda>r. bindR r (\<lambda>p. Ok ((L, p), []))) (plot_pieces E D p node_id (piece_bundles bundle))
          else Some (Ok ((L, p), [])))"

section \<open>Synchronisation\<close>

text \<open>
  \<open>fetch\<close> is what the request for the state block of a height returns.  The result is the number of
  blocks received and the state.
\<close>

partial_function (option) sync_state_chain ::
  "'e statelib_scheme \<Rightarrow> (u64 \<Rightarrow> RequestError + StateBlock option) \<Rightarrow> u64 \<Rightarrow> bytes \<Rightarrow> State \<Rightarrow> (u64 \<times> State) res option" where
  "sync_state_chain E fetch state_block_height previous_id st =
     (case fetch state_block_height of
        Inl _ \<Rightarrow> Some (Panic (PanicMsg ''Failed to request state block''))
      | Inr None \<Rightarrow> Some (Ok (state_block_height, st))
      | Inr (Some b) \<Rightarrow>
          if 0 < state_block_height \<and> previous_state_block_id b \<noteq> previous_id
          then Some (Panic (PanicMsg ''Received an invalid state block during state chain sync''))
          else sync_state_chain E fetch (state_block_height + 1) (StateBlock_get_id E b) (save_state_block E st b))"

text \<open>One piece: decoded with the sender's id, proved against the state chain, encoded with the own id and written.\<close>

definition sync_piece ::
  "'e blocklib_scheme \<Rightarrow> ('d, 'z) storage_scheme \<Rightarrow> NodeID \<Rightarrow> Sloth \<Rightarrow> State \<Rightarrow> u64 \<Rightarrow> 'd PlotState \<Rightarrow> NetworkPieceBundleByIndex \<Rightarrow>
     'd PlotState res" where
  "sync_piece E D node_id sl st piece_index p b =
     bindR (decode E sl (nb_encoding b) (expand_iv E (nb_node_id b)) ENCODING_LAYERS_TEST) (\<lambda>decoding.
     bindR (unwrap (get_state_block_by_height st (piece_index div of_nat PIECES_PER_STATE_BLOCK))) (\<lambda>sb.
     if \<not> validate_merkle_proof E (digest_sha_256 E decoding) (nb_piece_proof b) (piece_merkle_root sb)
     then Panic (PanicMsg ''Invalid piece received via sync, merkle proof is invalid!'')
     else
       bindR (if length decoding = PIECE_SIZE then Ok decoding else Panic Unwrap) (\<lambda>piece.
       bindR (unwrap_sloth (encode E sl piece (from_digits (expand_iv E node_id)) ENCODING_LAYERS_TEST)) (\<lambda>encoding.
       bindR (write_encoding E D p encoding (encoding_nonce E encoding) piece_index (nb_piece_proof b)) (\<lambda>(p, r).
       case r of Inl e \<Rightarrow> Panic (PanicMsg ''write'') | Inr _ \<Rightarrow> Ok p)))))"

partial_function (option) sync_pieces ::
  "'e blocklib_scheme \<Rightarrow> ('d, 'z) storage_scheme \<Rightarrow> NodeID \<Rightarrow> Sloth \<Rightarrow> State \<Rightarrow>
     (u64 \<Rightarrow> RequestError + NetworkPieceBundleByIndex option) \<Rightarrow> u64 \<Rightarrow> 'd PlotState \<Rightarrow> (u64 \<times> 'd PlotState) res option" where
  "sync_pieces E D node_id sl st fetch piece_index p =
     (case fetch piece_index of
        Inl _ \<Rightarrow> Some (Panic (PanicMsg ''Failed to request piece''))
      | Inr None \<Rightarrow> Some (Ok (piece_index, p))
      | Inr (Some b) \<Rightarrow>
          (case sync_piece E D node_id sl st piece_index p b of
             Inl e \<Rightarrow> Some (Panic e)
           | Inr p \<Rightarrow> sync_pieces E D node_id sl st fetch (piece_index + 1) p))"

definition sync_tx :: "'e blocklib_scheme \<Rightarrow> Ledger \<Rightarrow> SimpleCreditTx \<Rightarrow> Ledger" where
  "sync_tx E L tx = (if txs L (SimpleCreditTx_get_id E tx) \<noteq> None then L else insert_tx E L tx)"

text \<open>The outcome of the validation is not used: the block is staged in any case.\<close>

definition sync_block :: "'e blocklib_scheme \<Rightarrow> u64 \<Rightarrow> Ledger \<Rightarrow> Block \<Rightarrow> Ledger res" where
  "sync_block E timeslot L b =
     bindR (validate_block_from_sync E L b timeslot) (\<lambda>(L, valid).
     if c_parent_id (b_content b) \<noteq> None then stage_proposer_block E L b else stage_tx_block E L b)"

definition sync_timeslot :: "'e blocklib_scheme \<Rightarrow> u64 \<Rightarrow> Ledger \<Rightarrow> Block list \<times> SimpleCreditTx list \<Rightarrow> Ledger res" where
  "sync_timeslot E timeslot L bundle = foldR (sync_block E timeslot) (foldl (sync_tx E) L (snd bundle)) (fst bundle)"

text \<open>Whether the next timeslot has arrived; the clock is in nanoseconds since the Unix epoch.\<close>

definition next_timeslot_arrived :: "Ledger \<Rightarrow> u64 \<Rightarrow> nat \<Rightarrow> bool" where
  "next_timeslot_arrived L timeslot now \<longleftrightarrow>
     unat ((timeslot + 1) * TIMESLOT_DURATION + genesis_timestamp L) * 10 ^ 6 < now"

definition sync_epoch :: "'e blocklib_scheme \<Rightarrow> u64 \<Rightarrow> Ledger \<Rightarrow> Ledger res" where
  "sync_epoch E timeslot L =
     (if (timeslot + 1) mod TIMESLOTS_PER_EPOCH = 0 then
        bindR (advance_epoch E (epoch_tracker L)) (\<lambda>(tracker, _). Ok (L\<lparr>epoch_tracker := tracker\<rparr>))
      else Ok L)"

text \<open>The end of the synchronisation: cached gossip is applied; \<open>order\<close> is the order in which the cache is drained.\<close>

fun stage_children_of :: "'e blocklib_scheme \<Rightarrow> Ledger \<Rightarrow> Block list \<Rightarrow> Ledger res option" where
  "stage_children_of E L [] = Some (Ok L)"
| "stage_children_of E L (b # bs) =
     Option.bind (stage_cached_children E L (Content_get_id E (b_content b))) (\<lambda>r.
       case r of Inl e \<Rightarrow> Some (Panic e) | Inr L \<Rightarrow> stage_children_of E L bs)"

definition stage_cached_tx_block :: "'e blocklib_scheme \<Rightarrow> Ledger \<Rightarrow> ContentId \<times> Block \<Rightarrow> Ledger res" where
  "stage_cached_tx_block E L cb =
     (if contains_content_id (metablocks L) (fst cb) then Ok L
      else
        bindR (validate_block_from_cache E L (snd cb)) (\<lambda>valid.
        if valid then stage_tx_block E L (snd cb) else Ok L))"

definition finish_sync ::
  "'e blocklib_scheme \<Rightarrow> ((ContentId \<rightharpoonup> Block) \<Rightarrow> (ContentId \<times> Block) list) \<Rightarrow> u64 \<Rightarrow> Ledger \<Rightarrow> Block list \<Rightarrow> (TimerState \<times> Ledger) res option" where
  "finish_sync E order timeslot L received =
     (let L = L\<lparr>timer_is_running := True, current_timeslot := timeslot - 1\<rparr>;
          t = timer_start L timeslot
      in map_option (\<lambda>r. bindR r (\<lambda>L.
             bindR (foldR (stage_cached_tx_block E) (L\<lparr>cached_tx_blocks_by_content_id := Map.empty\<rparr>)
                      (order (cached_tx_blocks_by_content_id L))) (\<lambda>L. Ok (t, L))))
           (stage_children_of E L received))"

text \<open>\<open>now\<close> is the clock when the blocks of a timeslot have been applied.\<close>

partial_function (option) sync_blocks ::
  "'e blocklib_scheme \<Rightarrow> ((ContentId \<rightharpoonup> Block) \<Rightarrow> (ContentId \<times> Block) list) \<Rightarrow>
     (u64 \<Rightarrow> RequestError + Block list \<times> SimpleCreditTx list) \<Rightarrow> (u64 \<Rightarrow> nat) \<Rightarrow> u64 \<Rightarrow> Ledger \<Rightarrow> (TimerState \<times> Ledger) res option" where
  "sync_blocks E order fetch now timeslot L =
     (case fetch timeslot of
        Inl _ \<Rightarrow> Some (Panic (PanicMsg ''Failed to request blocks''))
      | Inr bundle \<Rightarrow>
          (case sync_timeslot E timeslot L bundle of
             Inl e \<Rightarrow> Some (Panic e)
           | Inr L \<Rightarrow>
               if next_timeslot_arrived L timeslot (now timeslot) then
                 (case sync_epoch E timeslot L of
                    Inl e \<Rightarrow> Some (Panic e)
                  | Inr L \<Rightarrow> sync_blocks E order fetch now (timeslot + 1) L)
               else finish_sync E order timeslot L (fst bundle)))"

text \<open>
  The whole of the startup: a gateway only logs here, any other node synchronises from what the
  peers answer.  The state and the plot are those the node was created with.
\<close>

record answers =
  an_genesis :: "RequestError + GenesisConfig"
  an_state_block :: "u64 \<Rightarrow> RequestError + StateBlock option"
  an_piece :: "u64 \<Rightarrow> RequestError + NetworkPieceBundleByIndex option"
  an_blocks :: "u64 \<Rightarrow> RequestError + Block list \<times> SimpleCreditTx list"

definition protocol_startup ::
  "'e blocklib_scheme \<Rightarrow> ('d, 'z) storage_scheme \<Rightarrow> ((ContentId \<rightharpoonup> Block) \<Rightarrow> (ContentId \<times> Block) list) \<Rightarrow> answers \<Rightarrow> (u64 \<Rightarrow> nat) \<Rightarrow>
     NodeType \<Rightarrow> NodeID \<Rightarrow> Ledger \<Rightarrow> 'd PlotState \<Rightarrow> (TimerState option \<times> Ledger \<times> 'd PlotState) res option" where
  "protocol_startup E D order A now node_type node_id L p =
     (if node_type = Gateway then Some (Ok (None, L, p))
      else case an_genesis A of
        Inl _ \<Rightarrow> Some (Panic (PanicMsg ''Failed to request genesis config''))
      | Inr cfg \<Rightarrow>
          (let L = set_genesis_config L cfg
           in Option.bind (sync_state_chain E (an_state_block A) 0 (replicate 32 0) (state L)) (\<lambda>r.
              case r of Inl e \<Rightarrow> Some (Panic e)
              | Inr (_, st) \<Rightarrow>
                  (let L = L\<lparr>state := st\<rparr>
                   in Option.bind (init E PRIME_SIZE_BITS) (\<lambda>sl.
                      Option.bind (sync_pieces E D node_id sl (state L) (an_piece A) 0 p) (\<lambda>r.
                      case r of Inl e \<Rightarrow> Some (Panic e)
                      | Inr (_, p) \<Rightarrow>
                          map_option (\<lambda>r. bindR r (\<lambda>(t, L). Ok (Some t, L, p)))
                            (sync_blocks E order (an_blocks A) now 0 L)))))))"

section \<open>A message is passed on once\<close>

text \<open>What the node has seen only grows.\<close>

definition grows :: "Ledger \<Rightarrow> Ledger \<Rightarrow> bool" where
  "grows L L' \<longleftrightarrow> recent_proof_ids L \<subseteq> recent_proof_ids L' \<and> dom (txs L) \<subseteq> dom (txs L')"

lemma grows_refl [simp]: "grows L L"
  by (simp add: grows_def)

lemma grows_trans: "grows L1 L2 \<Longrightarrow> grows L2 L3 \<Longrightarrow> grows L1 L3"
  unfolding grows_def by blast

lemma fixed_recent: "fixed_part L' = fixed_part L \<Longrightarrow> recent_proof_ids L' = recent_proof_ids L"
  by (simp add: fixed_part_def)

lemma confirm_txs:
  assumes "confirm_block E L m = Ok (L', r)"
  shows "txs L' = txs L"
proof (cases r)
  case True
  then have "confirm_block E L m = Ok (L', True)" using assms by simp
  then obtain L4 where L4: "same_but_applied (update_solution_range L (mb_height m)) L4"
      "prune_siblings (L4\<lparr>confirmed_blocks := insert (mb_proof_id m) (confirmed_blocks L4)\<rparr>) m = Ok L'"
    by (rule confirm_True_parts)
  have "same_but_pruned (L4\<lparr>confirmed_blocks := insert (mb_proof_id m) (confirmed_blocks L4)\<rparr>) L'"
    using prune_siblings_Ok [OF L4(2)] by (elim disjE exE) (simp, rule prune_same)
  then have "txs L' = txs L4" using same_but_pruned_fields(6) by fastforce
  then show ?thesis using same_fields(1) [OF L4(1)] by (simp add: update_solution_range_def close_eon_def Let_def)
next
  case False
  then show ?thesis using assms confirm_False [of E L m L'] by (auto simp: update_solution_range_def close_eon_def Let_def)
qed

lemma stage_proposer_grows:
  assumes "stage_proposer_block E L b = Ok L'"
  shows "grows L L'"
proof -
  obtain pc L1 r where L1: "c_parent_id (b_content b) = Some pc" "record_proposer_block E L b pc = Ok L1"
      "r = None \<and> L' = L1 \<or> (\<exists>m v. r = Some m \<and> confirm_block E L1 m = Ok (L', v))"
    using assms by (rule stage_proposer_Ok)
  have "txs L1 = (txs L)(CoinbaseTx_get_id E (b_coinbase_tx b) \<mapsto> Coinbase (b_coinbase_tx b))"
    using L1(2) by (rule record_proposer_Ok)
  moreover have "txs L' = txs L1" using L1(3) confirm_txs [of E L1 _ L'] by auto
  ultimately show ?thesis using fixed_recent [OF stage_proposer_fixed(1) [OF assms]] by (auto simp: grows_def)
qed

lemma stage_tx_grows:
  assumes "stage_tx_block E L b = Ok L'"
  shows "grows L L'"
proof -
  have "\<exists>x. txs L' = (txs L)(CoinbaseTx_get_id E (b_coinbase_tx b) \<mapsto> x)"
    using assms by (auto simp: stage_tx_block_def Let_def bindR_Ok_iff claim_txs_with add_block_to_timeslot_def split: if_splits)
  then show ?thesis using fixed_recent [OF stage_tx_fixed [OF assms]] by (auto simp: grows_def)
qed

text \<open>What every staging of a proposer block keeps, the rounds over cached children keep.\<close>

lemma stage_rounds_keep:
  assumes "stage_rounds E L bs = Some r" and "r = Ok L'"
    and "\<And>M. P M M" and "\<And>M1 M2 M3. P M1 M2 \<Longrightarrow> P M2 M3 \<Longrightarrow> P M1 M3"
    and "\<And>M b M'. stage_proposer_block E M b = Ok M' \<Longrightarrow> P M M'"
  shows "P L L'"
  using assms
proof (induction E L bs r rule: stage_rounds.raw_induct [rotated, consumes 1, case_names step])
  case (step rounds E L bs r)
  show ?case
  proof (cases "bs = []")
    case False
    then obtain L1 acc where f: "foldR (stage_child E) (L, []) bs = Ok (L1, acc)" and r: "rounds E L1 acc = Some r"
      using step(2,3) by (auto split: sum.splits)
    have child: "P (fst s) (fst s')" if "stage_child E s b = Ok s'" for s b s'
      using that step(4) [of "fst s"] step(6) [of "fst s" b] by (auto simp: stage_child_def bindR_Ok_iff split: prod.splits if_splits)
    have "P L (fst (L1, acc))"
    proof (rule foldR_invariant [OF f, where P = "\<lambda>s. P L (fst s)"])
      fix s b s' assume "P L (fst s)" "stage_child E s b = Ok s'"
      then show "P L (fst s')" using step(5) child by blast
    qed (use step(4) in simp)
    moreover have "P L1 L'" by (rule step(1) [OF r step(3-6)])
    ultimately show ?thesis using step(5) [of L L1 L'] by simp
  qed (use step in simp)
qed

lemma validate_gossip_grows:
  assumes "validate_block_from_gossip E L b = Ok (L', r)"
  shows "grows L L' \<and> Proof_get_id E (b_proof b) \<in> recent_proof_ids L'"
  using assms by (auto simp: grows_def validate_block_from_gossip_def Let_def cache_before_sync_def cache_remote_proposer_block_def
      bindR_Ok_iff split: if_splits)

lemma insert_tx_grows: "grows L (insert_tx E L tx)" "txs (insert_tx E L tx) (SimpleCreditTx_get_id E tx) \<noteq> None"
  by (auto simp: grows_def insert_tx_def Let_def)

text \<open>The number under which a message is remembered, and whether the node remembers it.\<close>

fun gossip_key :: "'e blocklib_scheme \<Rightarrow> GossipMessage \<Rightarrow> ProofId + TxId" where
  "gossip_key E (BlockProposal b) = Inl (Proof_get_id E (b_proof b))"
| "gossip_key E (TxProposal tx) = Inr (SimpleCreditTx_get_id E tx)"

definition seen_keys :: "Ledger \<Rightarrow> (ProofId + TxId) set" where
  "seen_keys L = Inl ` recent_proof_ids L \<union> Inr ` dom (txs L)"

lemma grows_seen: "grows L L' \<Longrightarrow> seen_keys L \<subseteq> seen_keys L'"
  unfolding grows_def seen_keys_def by blast

lemma seen_not_passed_on: "gossip_key E m \<in> seen_keys L \<Longrightarrow> handle_gossip E L m = (None, Some (Ok L))"
  by (cases m) (auto simp: seen_keys_def validate_block_from_gossip_def Let_def)

lemma stage_cached_grows: "stage_cached_children E L c = Some (Ok L') \<Longrightarrow> grows L L'"
  unfolding stage_cached_children_def
  by (rule stage_rounds_keep [where P = grows]) (auto intro: grows_trans stage_proposer_grows)

lemma handle_gossip_grows:
  assumes "handle_gossip E L m = (out, Some (Ok L'))"
  shows "grows L L' \<and> (out \<noteq> None \<longrightarrow> gossip_key E m \<in> seen_keys L')"
proof (cases m)
  case (TxProposal tx)
  then show ?thesis using assms insert_tx_grows [where L = L and E = E and tx = tx] by (auto simp: seen_keys_def split: if_splits sum.splits)
next
  case (BlockProposal b)
  then obtain L1 v where v: "validate_block_from_gossip E L b = Ok (L1, v)"
    using assms by (auto split: sum.splits)
  note g = validate_gossip_grows [OF v]
  show ?thesis
  proof (cases v)
    case True
    have "grows L1 L'"
    proof (cases "c_parent_id (b_content b) = None")
      case False
      then obtain L2 where L2: "stage_proposer_block E L1 b = Ok L2"
          "stage_cached_children E L2 (Content_get_id E (b_content b)) = Some (Ok L')"
        using assms BlockProposal v True by (auto split: sum.splits)
      then show ?thesis
        using stage_proposer_grows [OF L2(1)] stage_cached_grows [OF L2(2)] grows_trans by blast
    qed (use assms BlockProposal v True in \<open>auto intro: stage_tx_grows\<close>)
    then show ?thesis using g grows_trans [of L L1 L'] by (auto simp: BlockProposal seen_keys_def grows_def)
  qed (use assms BlockProposal v g in auto)
qed

lemma handle_gossip_out: "handle_gossip E L m = (Some m', r) \<Longrightarrow> m' = m \<and> gossip_key E m \<notin> seen_keys L"
proof (intro conjI notI)
  assume h: "handle_gossip E L m = (Some m', r)"
  then show "m' = m" by (cases m) (auto split: sum.splits if_splits)
  show False if "gossip_key E m \<in> seen_keys L" using seen_not_passed_on [OF that] h by simp
qed

text \<open>A sequence of incoming messages: what is passed on.\<close>

fun gossip_run :: "'e blocklib_scheme \<Rightarrow> Ledger \<Rightarrow> GossipMessage list \<Rightarrow> GossipMessage list" where
  "gossip_run E L [] = []"
| "gossip_run E L (m # ms) =
     (case handle_gossip E L m of (out, r) \<Rightarrow>
        (case out of None \<Rightarrow> [] | Some m' \<Rightarrow> [m']) @
        (case r of Some (Inr L) \<Rightarrow> gossip_run E L ms | _ \<Rightarrow> []))"

lemma gossip_run_once:
  "distinct (map (gossip_key E) (gossip_run E L ms)) \<and> set (gossip_run E L ms) \<subseteq> set ms \<and>
     gossip_key E ` set (gossip_run E L ms) \<inter> seen_keys L = {}"
proof (induction ms arbitrary: L)
  case (Cons m ms)
  obtain out r where h: "handle_gossip E L m = (out, r)" by force
  have o: "out = None \<or> out = Some m \<and> gossip_key E m \<notin> seen_keys L" using handle_gossip_out [of E L m _ r] h by (cases out) auto
  show ?case
  proof (cases "\<exists>L'. r = Some (Ok L')")
    case True
    then obtain L' where r: "r = Some (Ok L')" by auto
    have g: "seen_keys L \<subseteq> seen_keys L'" "out \<noteq> None \<longrightarrow> gossip_key E m \<in> seen_keys L'"
      using handle_gossip_grows [of E L m out L'] h r grows_seen by auto
    have k: "gossip_key E ` set (gossip_run E L' ms) \<inter> seen_keys L = {}" using Cons.IH [of L'] g(1) by blast
    have "gossip_key E m \<notin> gossip_key E ` set (gossip_run E L' ms)" if "out = Some m" using Cons.IH [of L'] g(2) that by blast
    then show ?thesis using Cons.IH [of L'] o k by (auto simp: h r)
  next
    case False
    then have "gossip_run E L (m # ms) = (case out of None \<Rightarrow> [] | Some m' \<Rightarrow> [m'])"
      by (auto simp: h split: option.split sum.split)
    then show ?thesis using o by (auto split: option.splits)
  qed
qed simp

section \<open>Synchronisation of the state chain\<close>

definition state_of :: "'e statelib_scheme \<Rightarrow> StateBlock list \<Rightarrow> State" where
  "state_of E bs = foldl (save_state_block E) State_new bs"

lemma state_of_snoc [simp]: "state_of E (bs @ [b]) = save_state_block E (state_of E bs) b"
  by (simp add: state_of_def)

lemma state_of_fields:
  "blocks_by_id (state_of E bs) = map_of (rev (map (\<lambda>b. (StateBlock_get_id E b, b)) bs)) \<and>
   blocks_by_height (state_of E bs) = map_of (rev (map (\<lambda>b. (sb_height b, StateBlock_get_id E b)) bs)) \<and>
   last_state_block_height (state_of E bs) = of_nat (length bs) \<and> last_state_block_id (state_of E bs) = last_id E bs"
proof (induction bs rule: rev_induct)
  case Nil
  then show ?case by (simp add: state_of_def State_new_def last_id_def)
next
  case (snoc b bs)
  then show ?case by (simp add: save_state_block_def Let_def last_id_def)
qed

lemma state_block_none:
  assumes "chain_ok E st" and "length (state_sender st) < 2 ^ 64"
  shows "get_state_block_by_height st (of_nat (length (state_sender st))) = None"
proof -
  let ?bs = "sent_blocks st"
  have l: "length ?bs = length (state_sender st)" by (simp add: sent_blocks_def)
  have "sb_height b \<noteq> of_nat (length ?bs)" if b: "b \<in> set ?bs" for b
  proof -
    obtain i where i: "i < length ?bs" "b = ?bs ! i" using b unfolding in_set_conv_nth by blast
    have h: "sb_height b = of_nat i" using i chain_height [OF assms(1), of i] l by simp
    have u: "unat (of_nat i :: u64) = i" by (rule unat_of_nat_u64) (use i(1) assms(2) l in linarith)
    have v: "unat (of_nat (length ?bs) :: u64) = length ?bs" by (rule unat_of_nat_u64) (use assms(2) l in linarith)
    show ?thesis
    proof
      assume "sb_height b = of_nat (length ?bs)"
      then have "unat (of_nat i :: u64) = unat (of_nat (length ?bs) :: u64)" using h by (rule_tac arg_cong [of _ _ unat]) (rule trans [OF sym])
      then show False using i(1) unfolding u v by simp
    qed
  qed
  then have "of_nat (length ?bs) \<notin> sb_height ` set ?bs" by force
  moreover have "blocks_by_height st = map_of (rev (map (\<lambda>b. (sb_height b, StateBlock_get_id E b)) ?bs))"
    using assms(1) unfolding chain_ok_def Let_def by (elim conjE)
  ultimately have "blocks_by_height st (of_nat (length ?bs)) = None"
    by (simp add: map_of_eq_None_iff image_image)
  then show ?thesis by (simp add: get_state_block_by_height_def l)
qed

lemma sync_from_honest:
  assumes ok: "chain_ok E st" and len: "length (state_sender st) < 2 ^ 64" and inj: "inj_on (StateBlock_get_id E) (set (sent_blocks st))"
    and "i \<le> length (state_sender st)"
  shows "sync_state_chain E (\<lambda>h. Inr (get_state_block_by_height st h)) (of_nat i) (last_id E (take i (sent_blocks st)))
      (state_of E (take i (sent_blocks st))) =
    Some (Ok (of_nat (length (state_sender st)), state_of E (sent_blocks st)))"
  using assms(4)
proof (induction "length (state_sender st) - i" arbitrary: i)
  case 0
  then have i: "i = length (state_sender st)" by simp
  then have "take i (sent_blocks st) = sent_blocks st" by (simp add: sent_blocks_def)
  then show ?case using state_block_none [OF ok len] i by (subst sync_state_chain.simps) simp
next
  case (Suc k)
  let ?bs = "sent_blocks st"
  have i: "i < length (state_sender st)" "i < length ?bs" using Suc(2) by (simp_all add: sent_blocks_def)
  have b: "get_state_block_by_height st (of_nat i) = Some (?bs ! i)" by (rule state_block_at [OF ok i(1) _ inj]) (use len in simp)
  have p: "previous_state_block_id (?bs ! i) = last_id E (take i ?bs)" using ok i(2) unfolding chain_ok_def Let_def by blast
  have t: "take (Suc i) ?bs = take i ?bs @ [?bs ! i]" using i(2) by (rule take_Suc_conv_app_nth)
  have "sync_state_chain E (\<lambda>h. Inr (get_state_block_by_height st h)) (of_nat (Suc i)) (last_id E (take (Suc i) ?bs)) (state_of E (take (Suc i) ?bs)) =
      Some (Ok (of_nat (length (state_sender st)), state_of E ?bs))"
    by (rule Suc(1)) (use Suc(2) i in simp_all)
  then have "sync_state_chain E (\<lambda>h. Inr (get_state_block_by_height st h)) (of_nat i + 1) (StateBlock_get_id E (?bs ! i))
      (save_state_block E (state_of E (take i ?bs)) (?bs ! i)) = Some (Ok (of_nat (length (state_sender st)), state_of E ?bs))"
    unfolding t by (simp add: last_id_def add.commute)
  then show ?case using b p by (subst sync_state_chain.simps) simp
qed

text \<open>Whatever the peers answer, the blocks that were accepted are linked by their ids.\<close>

lemma sync_links:
  assumes "sync_state_chain E fetch h prev st = Some r" and "r = Ok (k, st')"
  shows "\<exists>bs. st' = foldl (save_state_block E) st bs \<and> k = h + of_nat (length bs) \<and>
    (\<forall>i < length bs. fetch (h + of_nat i) = Inr (Some (bs ! i)) \<and>
      (h + of_nat i \<noteq> 0 \<longrightarrow> previous_state_block_id (bs ! i) = (if i = 0 then prev else StateBlock_get_id E (bs ! (i - 1)))))"
  using assms
proof (induction E fetch h prev st r rule: sync_state_chain.raw_induct [rotated, consumes 1, case_names step])
  case (step sync E fetch h prev st r)
  show ?case
  proof (cases "fetch h = Inr None")
    case False
    then obtain b where b: "fetch h = Inr (Some b)" "h = 0 \<or> previous_state_block_id b = prev"
        "sync E fetch (h + 1) (StateBlock_get_id E b) (save_state_block E st b) = Some r"
      using step(2,3) by (auto simp: word_gt_0 split: sum.splits option.splits if_splits)
    from step(1) [OF b(3) step(3)] obtain bs where bs: "st' = foldl (save_state_block E) (save_state_block E st b) bs"
        "k = h + 1 + of_nat (length bs)" "\<forall>i < length bs. fetch (h + 1 + of_nat i) = Inr (Some (bs ! i)) \<and>
          (h + 1 + of_nat i \<noteq> 0 \<longrightarrow> previous_state_block_id (bs ! i) = (if i = 0 then StateBlock_get_id E b else StateBlock_get_id E (bs ! (i - 1))))"
      by blast
    show ?thesis
    proof (intro exI [of _ "b # bs"] conjI allI impI)
      show "st' = foldl (save_state_block E) st (b # bs)" "k = h + of_nat (length (b # bs))" using bs(1,2) by simp_all
      fix i assume i: "i < length (b # bs)"
      show "fetch (h + of_nat i) = Inr (Some ((b # bs) ! i))" using i b(1) bs(3) by (cases i) (auto simp: add.assoc)
      assume "h + of_nat i \<noteq> 0"
      then show "previous_state_block_id ((b # bs) ! i) = (if i = 0 then prev else StateBlock_get_id E ((b # bs) ! (i - 1)))"
        using i b(2) bs(3) by (cases i) (auto simp: add.assoc nth_Cons')
    qed
  qed (use step in \<open>auto intro!: exI [of _ "[]"]\<close>)
qed

section \<open>Synchronisation of the pieces\<close>

text \<open>No block of the decoded piece takes the value of the prime when it is encoded again.\<close>

definition bundle_encodable :: "'e blocklib_scheme \<Rightarrow> Ledger \<Rightarrow> NetworkPieceBundleByIndex \<Rightarrow> bool" where
  "bundle_encodable E L b \<longleftrightarrow>
     (\<forall>piece. decode E (sloth L) (nb_encoding b) (expand_iv E (nb_node_id b)) ENCODING_LAYERS_TEST = Ok piece \<longrightarrow>
        layers_good (sqrt_permutation E (sloth L)) (\<lambda>c. c \<noteq> prime (sloth L)) ENCODING_LAYERS_TEST
          (from_digits (expand_iv E (digest_sha_256 E (public (keys L)))))
          (map from_digits (chunks_exact (block_size_bytes (sloth L)) piece)))"

text \<open>The piece at an index is readable, and what it decodes to is proved by the state chain.\<close>

definition proved_piece :: "'e blocklib_scheme \<Rightarrow> ('d, 'z) storage_scheme \<Rightarrow> Ledger \<Rightarrow> 'd PlotState \<Rightarrow> u64 \<Rightarrow> bool" where
  "proved_piece E D L p i \<longleftrightarrow>
     (\<exists>encoding merkle_proof sb piece. read_encoding D p i = Ok (Inr (encoding, merkle_proof)) \<and>
        get_state_block_by_height (state L) (i div of_nat PIECES_PER_STATE_BLOCK) = Some sb \<and>
        decode E (sloth L) encoding (expand_iv E (digest_sha_256 E (public (keys L)))) ENCODING_LAYERS_TEST = Ok piece \<and>
        validate_merkle_proof E (digest_sha_256 E piece) merkle_proof (piece_merkle_root sb))"

lemma sync_piece_facts:
  assumes "storage_ok D" and "hmac_ok E" and "plot_ok D p" and "plot_provable E D L p" and "sloth_fits E (sloth L)"
    and "bundle_encodable E L b" and "length (plot_file p) + PIECE_SIZE < 2 ^ 64"
    and s: "sync_piece E D (digest_sha_256 E (public (keys L))) (sloth L) (state L) i p b = Ok p'"
  shows "plot_ok D p' \<and> plot_provable E D L p' \<and> length (plot_file p') = length (plot_file p) + PIECE_SIZE \<and>
    proved_piece E D L p' i \<and> (\<forall>j. j \<noteq> i \<longrightarrow> read_encoding D p' j = read_encoding D p j)"
proof -
  let ?iv = "expand_iv E (digest_sha_256 E (public (keys L)))"
  obtain piece sb e p1 r where d: "decode E (sloth L) (nb_encoding b) (expand_iv E (nb_node_id b)) ENCODING_LAYERS_TEST = Ok piece"
      and sb: "get_state_block_by_height (state L) (i div of_nat PIECES_PER_STATE_BLOCK) = Some sb"
      "validate_merkle_proof E (digest_sha_256 E piece) (nb_piece_proof b) (piece_merkle_root sb)" "length piece = PIECE_SIZE"
      and e: "unwrap_sloth (encode E (sloth L) piece (from_digits ?iv) ENCODING_LAYERS_TEST) = Ok e"
      and w: "write_encoding E D p e (encoding_nonce E e) i (nb_piece_proof b) = Ok (p1, r)"
      "(case r of Inl e \<Rightarrow> Panic (PanicMsg ''write'') | Inr _ \<Rightarrow> Ok p1) = Ok p'"
    using s unfolding sync_piece_def by (auto simp: bindR_Ok_iff split: if_splits)
  have p1: "p1 = p'" using w(2) by (cases r) simp_all
  let ?b = "\<lparr>pb_piece = piece, pb_piece_id = [], pb_piece_index = i, pb_piece_proof = nb_piece_proof b\<rparr>"
  have enc: "encode E (sloth L) piece (from_digits ?iv) ENCODING_LAYERS_TEST = Ok e"
    using e by (auto simp: unwrap_sloth_def split: sum.splits sloth_error.splits)
  have "layers_good (sqrt_permutation E (sloth L)) (\<lambda>c. c \<noteq> prime (sloth L)) ENCODING_LAYERS_TEST (from_digits ?iv)
      (map from_digits (chunks_exact (block_size_bytes (sloth L)) piece))"
    using assms(6) d unfolding bundle_encodable_def by blast
  then have "bundle_good E L ?b" using sb enc by (simp add: bundle_good_def Let_def)
  from plot_piece_facts [OF assms(1-5) this assms(7)]
  obtain p'' where p'': "plot_piece E D (sloth L) (from_digits ?iv) p ?b = Ok p''" "plot_ok D p''" "plot_provable E D L p''"
      "length (plot_file p'') = length (plot_file p) + PIECE_SIZE" "holds_piece E D L p'' ?b"
      "\<forall>j. j \<noteq> i \<longrightarrow> read_encoding D p'' j = read_encoding D p j" by auto
  have "p'' = p'" using p''(1) e w(1) p1 by (simp add: plot_piece_def)
  moreover have "proved_piece E D L p'' i" using p''(5) sb(1,2) by (auto simp: holds_piece_def proved_piece_def)
  ultimately show ?thesis using p'' by blast
qed

lemma proved_piece_cong: "read_encoding D p' i = read_encoding D p i \<Longrightarrow> proved_piece E D L p' i = proved_piece E D L p i"
  by (simp add: proved_piece_def)

lemma sync_pieces_facts:
  assumes "storage_ok D" and "hmac_ok E" and "sloth_fits E (sloth L)"
    and fetch: "\<forall>i b. fetch i = Inr (Some b) \<longrightarrow> unat i < N \<and> bundle_encodable E L b" and N: "N < 2 ^ 64"
    and "plot_ok D p" and "plot_provable E D L p" and "unat i \<le> N" and "length (plot_file p) + (N - unat i) * PIECE_SIZE < 2 ^ 64"
  shows "\<exists>r. sync_pieces E D (digest_sha_256 E (public (keys L))) (sloth L) (state L) fetch i p = Some r \<and>
    (\<forall>k p'. r = Ok (k, p') \<longrightarrow> plot_ok D p' \<and> plot_provable E D L p' \<and> (\<forall>j. i \<le> j \<and> j < k \<longrightarrow> proved_piece E D L p' j) \<and>
       (\<forall>j < i. read_encoding D p' j = read_encoding D p j))"
  using assms(6-9)
proof (induction "N - unat i" arbitrary: i p rule: less_induct)
  case less
  let ?sync = "sync_pieces E D (digest_sha_256 E (public (keys L))) (sloth L) (state L) fetch"
  consider x where "fetch i = Inl x" | "fetch i = Inr None" | b where "fetch i = Inr (Some b)" by (metis option.exhaust sum.exhaust)
  then show ?case
  proof cases
    case (3 b)
    have lt: "unat i < N" and b: "bundle_encodable E L b" using fetch 3 by blast+
    have i: "i \<noteq> - 1" using lt N unat_bound [of i] by (auto simp: unsigned_minus_1_eq_mask mask_eq_exp_minus_1)
    have u: "unat (i + 1) = unat i + 1" by (rule unat_succ_u64 [OF i])
    have c: "(N - unat i) = Suc (N - unat (i + 1))" using lt u by simp
    show ?thesis
    proof (cases "sync_piece E D (digest_sha_256 E (public (keys L))) (sloth L) (state L) i p b")
      case (Inl e)
      then show ?thesis using 3 by (subst sync_pieces.simps) simp
    next
      case (Inr p1)
      have l: "length (plot_file p) + PIECE_SIZE < 2 ^ 64" using less(5) unfolding c mult_Suc by linarith
      have p1: "plot_ok D p1" "plot_provable E D L p1" "length (plot_file p1) = length (plot_file p) + PIECE_SIZE"
          "proved_piece E D L p1 i" "\<forall>j. j \<noteq> i \<longrightarrow> read_encoding D p1 j = read_encoding D p j"
        using sync_piece_facts [OF assms(1,2) less(2,3) assms(3) b l Inr] by blast+
      have x: "N - unat (i + 1) < N - unat i" "unat (i + 1) \<le> N" using c lt u by linarith+
      have "length (plot_file p1) + (N - unat (i + 1)) * PIECE_SIZE < 2 ^ 64" using less(5) unfolding c mult_Suc p1(3) by linarith
      note IH = less(1) [OF x(1) p1(1,2) x(2) this]
      obtain r where r: "?sync (i + 1) p1 = Some r" "\<forall>k p'. r = Ok (k, p') \<longrightarrow> plot_ok D p' \<and> plot_provable E D L p' \<and>
          (\<forall>j. i + 1 \<le> j \<and> j < k \<longrightarrow> proved_piece E D L p' j) \<and> (\<forall>j < i + 1. read_encoding D p' j = read_encoding D p1 j)"
        using IH by blast
      have s: "?sync i p = Some r" using 3 Inr r(1) by (subst sync_pieces.simps) simp
      have lti: "j < i + 1 \<longleftrightarrow> j \<le> i" for j unfolding word_less_nat_alt word_le_nat_alt u by auto
      have "proved_piece E D L p' j" if "r = Ok (k, p')" "i \<le> j" "j < k" for k p' j
      proof (cases "j = i")
        case True
        have "read_encoding D p' i = read_encoding D p1 i" using r(2) that(1) lti by simp
        then show ?thesis using p1(4) True proved_piece_cong by blast
      next
        case False
        then have "i + 1 \<le> j" using that(2) unfolding word_le_nat_alt u by (metis Suc_eq_plus1 Suc_leI le_neq_implies_less word_unat_eq_iff)
        then show ?thesis using r(2) that by blast
      qed
      moreover have "read_encoding D p' j = read_encoding D p j" if "r = Ok (k, p')" "j < i" for k p' j
        using r(2) that p1(5) lti by auto
      ultimately show ?thesis using s r(2) by blast
    qed
  qed (subst sync_pieces.simps, use less in auto)+
qed

section \<open>The timer after synchronisation\<close>

lemma same_epoch_stage: "stage_cached_children E L c = Some (Ok L') \<Longrightarrow> same_epoch (epoch_tracker L) (epoch_tracker L')"
  unfolding stage_cached_children_def
  by (rule stage_rounds_keep [where P = "\<lambda>L L'. same_epoch (epoch_tracker L) (epoch_tracker L')"])
    (auto intro: same_epoch_trans stage_proposer_same_epoch)

lemma same_epoch_children:
  assumes "stage_children_of E L bs = Some (Ok L')"
  shows "same_epoch (epoch_tracker L) (epoch_tracker L')"
  using assms
proof (induction bs arbitrary: L)
  case (Cons b bs)
  then obtain r where r: "stage_cached_children E L (Content_get_id E (b_content b)) = Some r"
      "(case r of Inl e \<Rightarrow> Some (Panic e) | Inr L \<Rightarrow> stage_children_of E L bs) = Some (Ok L')"
    by (auto simp: bind_eq_Some_conv)
  then obtain L1 where L1: "stage_cached_children E L (Content_get_id E (b_content b)) = Some (Ok L1)" "stage_children_of E L1 bs = Some (Ok L')"
    by (cases r) simp_all
  show ?case by (rule same_epoch_trans [OF same_epoch_stage [OF L1(1)] Cons.IH [OF L1(2)]])
qed simp

lemma sync_txs_tracker: "epoch_tracker (foldl (sync_tx E) L ts) = epoch_tracker L"
  by (induction ts arbitrary: L) (simp_all add: sync_tx_def insert_tx_def Let_def)

lemma sync_block_same_epoch:
  assumes "sync_block E timeslot L b = Ok L'"
  shows "same_epoch (epoch_tracker L) (epoch_tracker L')"
proof -
  obtain L1 v where v: "validate_block_from_sync E L b timeslot = Ok (L1, v)"
      and s: "stage_proposer_block E L1 b = Ok L' \<or> stage_tx_block E L1 b = Ok L'"
    using assms by (auto simp: sync_block_def bindR_Ok_iff split: if_splits)
  have "epoch_tracker L1 = epoch_tracker L"
    using v by (auto simp: validate_block_from_sync_def Let_def bindR_Ok_iff split: if_splits)
  moreover have "same_epoch (epoch_tracker L1) (epoch_tracker L')"
    using s stage_proposer_same_epoch [of E L1 b L'] stage_tx_same_epoch [of E L1 b L'] by auto
  ultimately show ?thesis by simp
qed

lemma sync_timeslot_same_epoch:
  assumes "sync_timeslot E timeslot L bundle = Ok L'"
  shows "same_epoch (epoch_tracker L) (epoch_tracker L')"
proof (rule foldR_invariant [OF assms [unfolded sync_timeslot_def], where P = "\<lambda>M. same_epoch (epoch_tracker L) (epoch_tracker M)"])
  fix M b M' assume "same_epoch (epoch_tracker L) (epoch_tracker M)" "sync_block E timeslot M b = Ok M'"
  then show "same_epoch (epoch_tracker L) (epoch_tracker M')" using sync_block_same_epoch same_epoch_trans by blast
qed (simp add: sync_txs_tracker)

lemma cached_tx_same_epoch: "stage_cached_tx_block E L cb = Ok L' \<Longrightarrow> epoch_tracker L' = epoch_tracker L"
  using stage_tx_same_epoch [of E L "snd cb" L'] by (auto simp: stage_cached_tx_block_def bindR_Ok_iff split: if_splits)

lemma finish_sync_facts:
  assumes "finish_sync E order timeslot L bs = Some (Ok (t, L'))"
  shows "t = timer_start L timeslot" "same_epoch (epoch_tracker L) (epoch_tracker L')"
proof -
  let ?L = "L\<lparr>timer_is_running := True, current_timeslot := timeslot - 1\<rparr>"
  obtain L1 where L1: "stage_children_of E ?L bs = Some (Ok L1)" "t = timer_start ?L timeslot"
      "foldR (stage_cached_tx_block E) (L1\<lparr>cached_tx_blocks_by_content_id := Map.empty\<rparr>) (order (cached_tx_blocks_by_content_id L1)) = Ok L'"
    using assms unfolding finish_sync_def Let_def by (auto simp: bindR_Ok_iff)
  show "t = timer_start L timeslot" using L1(2) by (simp add: timer_start_def)
  have "epoch_tracker L' = epoch_tracker L1"
    by (rule foldR_invariant [OF L1(3), where P = "\<lambda>M. epoch_tracker M = epoch_tracker L1"]) (auto dest: cached_tx_same_epoch)
  then show "same_epoch (epoch_tracker L) (epoch_tracker L')" using same_epoch_children [OF L1(1)] by simp
qed

lemma sync_epoch_next:
  assumes "sync_epoch E timeslot L = Ok L'" and "tracker_ok (epoch_tracker L)" and "timeslot \<noteq> - 1"
    and "current_epoch (epoch_tracker L) = timeslot div TIMESLOTS_PER_EPOCH"
  shows "tracker_ok (epoch_tracker L') \<and> current_epoch (epoch_tracker L') = (timeslot + 1) div TIMESLOTS_PER_EPOCH"
proof (cases "(timeslot + 1) mod TIMESLOTS_PER_EPOCH = 0")
  case True
  note n = epoch_next [OF assms(3)]
  have c: "current_epoch (epoch_tracker L) \<noteq> - 1" using n(1) assms(4) by simp
  obtain tr e where a: "advance_epoch E (epoch_tracker L) = Ok (tr, e)" "epoch_tracker L' = tr"
    using assms(1) True by (auto simp: sync_epoch_def bindR_Ok_iff)
  moreover have "current_epoch tr = current_epoch (epoch_tracker L) + 1" using advance_epoch_Ok [OF assms(2) c, of E] a(1) by auto
  ultimately show ?thesis using tracker_ok_advance [OF assms(2) c] n(2) True assms(4) by simp
next
  case False
  then show ?thesis using assms epoch_next(2) [OF assms(3)] by (simp add: sync_epoch_def)
qed

lemma sync_aligned:
  assumes "sync_blocks E order fetch now timeslot L = Some r" and "r = Ok (t, L')" and "fetch (- 1) = Inl x"
    and "tracker_ok (epoch_tracker L)" and "current_epoch (epoch_tracker L) = timeslot div TIMESLOTS_PER_EPOCH"
  shows "timer_ok (t, L') \<and> current_epoch_index t = t_next_timeslot t div TIMESLOTS_PER_EPOCH"
  using assms
proof (induction E order fetch now timeslot L r rule: sync_blocks.raw_induct [rotated, consumes 1, case_names step])
  case (step sync E order fetch now timeslot L r)
  obtain bs L1 where b: "fetch timeslot = Inr bs" and L1: "sync_timeslot E timeslot L bs = Ok L1"
    using step(2,3) by (auto split: sum.splits)
  have ts: "timeslot \<noteq> - 1" using b step(4) by auto
  have e1: "tracker_ok (epoch_tracker L1)" "current_epoch (epoch_tracker L1) = timeslot div TIMESLOTS_PER_EPOCH"
    using sync_timeslot_same_epoch [OF L1] step(5,6) by (simp_all add: same_epoch_def)
  show ?case
  proof (cases "next_timeslot_arrived L1 timeslot (now timeslot)")
    case True
    then obtain L2 where L2: "sync_epoch E timeslot L1 = Ok L2" "sync E order fetch now (timeslot + 1) L2 = Some r"
      using step(2,3) b L1 by (auto split: sum.splits)
    show ?thesis
      using step(1) [OF L2(2) step(3,4)] sync_epoch_next [OF L2(1) e1(1) ts e1(2)] by blast
  next
    case False
    then have "finish_sync E order timeslot L1 (fst bs) = Some (Ok (t, L'))" using step(2,3) b L1 by simp
    from finish_sync_facts [OF this] e1 show ?thesis
      by (simp add: timer_ok_def timer_start_def get_current_epoch_def same_epoch_def aligned_def)
  qed
qed

section \<open>Properties\<close>

text \<open>The message would be accepted by a ledger.\<close>

fun gossip_valid :: "'e blocklib_scheme \<Rightarrow> Ledger \<Rightarrow> GossipMessage \<Rightarrow> bool" where
  "gossip_valid E L (BlockProposal b) \<longleftrightarrow> validate_block E L b = Ok True \<and> p_timeslot (b_proof b) \<le> current_timeslot L"
| "gossip_valid E L (TxProposal tx) \<longleftrightarrow> SimpleCreditTx_is_valid E tx (balances L (tx_from_address tx)) = Ok True"

lemma handle_gossip_valid:
  assumes "handle_gossip E L m = (Some m', r)"
  shows "gossip_valid E L m"
proof (cases m)
  case (BlockProposal b)
  then obtain L1 where "validate_block_from_gossip E L b = Ok (L1, True)" using assms by (auto split: sum.splits if_splits)
  then show ?thesis using BlockProposal by (auto simp: validate_block_from_gossip_def Let_def bindR_Ok_iff split: if_splits)
next
  case (TxProposal tx)
  then show ?thesis using assms by (auto split: sum.splits if_splits)
qed

lemma gossip_run_valid: "m \<in> set (gossip_run E L ms) \<Longrightarrow> \<exists>L'. grows L L' \<and> gossip_valid E L' m"
proof (induction ms arbitrary: L)
  case (Cons m0 ms)
  obtain out r where h: "handle_gossip E L m0 = (out, r)" by force
  show ?case
  proof (cases "out = Some m")
    case True
    then have "m = m0" "gossip_valid E L m0" using handle_gossip_out [of E L m0 m r] handle_gossip_valid [of E L m0 m r] h by simp_all
    then show ?thesis using grows_refl by blast
  next
    case False
    then obtain L1 where "r = Some (Ok L1)" "m \<in> set (gossip_run E L1 ms)"
      using Cons.prems by (auto simp: h split: option.splits sum.splits)
    then show ?thesis using Cons.IH [of L1] handle_gossip_grows [of E L m0 out L1] h grows_trans by blast
  qed
qed simp


text \<open>What the requesting node gets: no answer is a timeout.\<close>

definition answer_of :: "ResponseMessage option res \<Rightarrow> RequestError + ResponseMessage" where
  "answer_of r = (case r of Inr (Some m) \<Rightarrow> Inr m | _ \<Rightarrow> Inl TimedOut)"

text \<open>
  \<^bold>\<open>C24\<close>: a new node that asks an honest one for its state blocks ends with the same chain: the
  same blocks by id and by height, the same last id and height.
\<close>

theorem honest_state_sync:
  assumes "chain_ok E (state S)" and "length (state_sender (state S)) < 2 ^ 64"
    and "inj_on (StateBlock_get_id E) (set (sent_blocks (state S)))"
  shows "\<exists>st. sync_state_chain E
      (\<lambda>h. state_block_by_height_response (answer_of (handle_request E D order node_id S p (ReqStateByHeight \<lparr>hq_height = h\<rparr>))))
      0 (replicate 32 0) State_new = Some (Ok (of_nat (length (state_sender (state S))), st)) \<and>
    blocks_by_id st = blocks_by_id (state S) \<and> blocks_by_height st = blocks_by_height (state S) \<and>
    last_state_block_id st = last_state_block_id (state S) \<and> last_state_block_height st = last_state_block_height (state S)"
proof -
  let ?bs = "sent_blocks (state S)"
  have f: "state_block_by_height_response (answer_of (handle_request E D order node_id S p (ReqStateByHeight \<lparr>hq_height = h\<rparr>))) =
      Inr (get_state_block_by_height (state S) h)" for h by (simp add: answer_of_def)
  have s: "sync_state_chain E (\<lambda>h. Inr (get_state_block_by_height (state S) h)) 0 (replicate 32 0) State_new =
      Some (Ok (of_nat (length (state_sender (state S))), state_of E ?bs))"
    using sync_from_honest [OF assms, of 0] by (simp add: last_id_def state_of_def)
  have "length ?bs = length (state_sender (state S))" by (simp add: sent_blocks_def)
  moreover have "blocks_by_id (state S) = map_of (rev (map (\<lambda>b. (StateBlock_get_id E b, b)) ?bs))"
      "blocks_by_height (state S) = map_of (rev (map (\<lambda>b. (sb_height b, StateBlock_get_id E b)) ?bs))"
      "last_state_block_height (state S) = of_nat (length ?bs)" "last_state_block_id (state S) = last_id E ?bs"
    using assms(1) unfolding chain_ok_def Let_def by blast+
  ultimately show ?thesis unfolding f using s state_of_fields [of E ?bs] by simp
qed

text \<open>
  \<^bold>\<open>C27\<close>: whatever peers answer, the state blocks that a synchronising node keeps are those it
  received for the heights from 0 on, and each names the one before it by its hash.
\<close>

theorem state_chain_linked:
  assumes "sync_state_chain E fetch 0 (replicate 32 0) State_new = Some (Ok (k, st))"
  shows "\<exists>bs. st = foldl (save_state_block E) State_new bs \<and> k = of_nat (length bs) \<and>
    (\<forall>i < length bs. fetch (of_nat i) = Inr (Some (bs ! i))) \<and>
    (\<forall>i. 0 < i \<and> i < length bs \<and> i < 2 ^ 64 \<longrightarrow> previous_state_block_id (bs ! i) = StateBlock_get_id E (bs ! (i - 1)))"
proof -
  obtain bs where bs: "st = foldl (save_state_block E) State_new bs" "k = of_nat (length bs)"
      "\<forall>i < length bs. fetch (of_nat i) = Inr (Some (bs ! i)) \<and> (of_nat i \<noteq> (0 :: u64) \<longrightarrow>
        previous_state_block_id (bs ! i) = (if i = 0 then replicate 32 0 else StateBlock_get_id E (bs ! (i - 1))))"
    using sync_links [OF assms refl] by auto
  have "of_nat i \<noteq> (0 :: u64)" if "0 < i" "i < 2 ^ 64" for i
    using unat_of_nat_u64 [OF that(2)] that(1) by (metis less_irrefl unat_0)
  then show ?thesis using bs by (intro exI [of _ bs]) auto
qed

text \<open>
  \<^bold>\<open>C25\<close>: the synchronisation of pieces ends, whatever a peer sends, as long as it offers
  finitely many; and if no piece was refused, every piece that was received can be read from the plot, decodes, and is
  proved by the state chain, as is every piece behind a tag.
\<close>

theorem synced_plot_provable:
  assumes "storage_ok D" and "hmac_ok E" and "sloth_fits E (sloth L)"
    and "\<forall>i b. fetch i = Inr (Some b) \<longrightarrow> unat i < N \<and> bundle_encodable E L b" and "N < 2 ^ 64"
    and "plot_ok D p" and "plot_provable E D L p" and "length (plot_file p) + N * PIECE_SIZE < 2 ^ 64"
  shows "\<exists>r. sync_pieces E D (digest_sha_256 E (public (keys L))) (sloth L) (state L) fetch 0 p = Some r \<and>
    (\<forall>k p'. r = Ok (k, p') \<longrightarrow> plot_ok D p' \<and> plot_provable E D L p' \<and> (\<forall>j < k. proved_piece E D L p' j))"
  using sync_pieces_facts [OF assms(1-7), of 0] assms(8) by auto

text \<open>
  \<^bold>\<open>C26\<close>: when a new node has synchronised the blocks, its epoch is that of the timeslot its
  timer starts with, so the timer is aligned with the epochs from its first turn on.
\<close>

theorem sync_timer_aligned:
  assumes "sync_blocks E order fetch now 0 L = Some (Ok (t, L'))" and "fetch (- 1) = Inl x"
    and "EpochTracker_new E = Ok (epoch_tracker L)"
  shows "timer_ok (t, L') \<and> current_epoch_index t = t_next_timeslot t div TIMESLOTS_PER_EPOCH"
proof -
  have "tracker_ok (epoch_tracker L)" "current_epoch (epoch_tracker L) = 0 div TIMESLOTS_PER_EPOCH"
    using tracker_start [OF assms(3)] by simp_all
  then show ?thesis using sync_aligned [OF assms(1) refl assms(2)] by blast
qed

text \<open>
  \<^bold>\<open>C28\<close>: a transaction block that fails validation during synchronisation is stored all the
  same.
\<close>

theorem sync_stages_invalid:
  assumes "validate_block_from_sync E L b timeslot = Ok (L1, False)" and "c_parent_id (b_content b) = None"
    and "metablocks_ok E (metablocks L)" and "heights_ok (metablocks L)" and "fresh_block E (metablocks L) b"
  shows "\<exists>L'. sync_block E timeslot L b = Ok L' \<and> contains_content_id (metablocks L') (Content_get_id E (b_content b))"
proof -
  have "metablocks L1 = metablocks L"
    using assms(1) by (auto simp: validate_block_from_sync_def Let_def bindR_Ok_iff split: if_splits)
  then show ?thesis
    using stage_tx_block_tracks [of E L1 b] assms by (auto simp: sync_block_def)
qed

section \<open>Concrete cases\<close>

lemma toy_block_keys: "ed25519_ok toy_blocklib toy_keys"
  by (simp add: toy_laws(3) toy_blocklib_def blocklib.defs toy_defs toy_keys_def)

definition toy_transfer :: SimpleCreditTx where
  "toy_transfer = SimpleCreditTx_new toy_blocklib 5 (replicate 32 1) 3 toy_keys"

definition rich_ledger :: Ledger where
  "rich_ledger = toy_ledger\<lparr>timer_is_running := True, balances := [tx_from_address toy_transfer \<mapsto> \<lparr>a_balance = 9, a_nonce = 2\<rparr>]\<rparr>"


theorem honest_state_sync_witness:
  "\<exists>S st. length (state_sender (state S)) = 1 \<and> sync_state_chain toy_blocklib
      (\<lambda>h. state_block_by_height_response (answer_of (handle_request toy_blocklib log_storage (\<lambda>_. []) [] S empty_plot (ReqStateByHeight \<lparr>hq_height = h\<rparr>))))
      0 (replicate 32 0) State_new = Some (Ok (1, st)) \<and> blocks_by_height st = blocks_by_height (state S)"
proof -
  obtain st b where st: "state_sender st = [b]" "chain_ok toy_blocklib st" by (rule one_block_chain [OF toy_blocklib_ok])
  let ?S = "toy_ledger\<lparr>state := st\<rparr>"
  have "chain_ok toy_blocklib (state ?S)" "length (state_sender (state ?S)) < 2 ^ 64" "inj_on (StateBlock_get_id toy_blocklib) (set (sent_blocks (state ?S)))"
    using st by (simp_all add: sent_blocks_def)
  from honest_state_sync [OF this, of log_storage "\<lambda>_. []" "[]" empty_plot] show ?thesis
    using st(1) by (intro exI [of _ ?S]) auto
qed

theorem state_chain_linked_witness:
  "sync_state_chain toy_blocklib (\<lambda>h. Inr (if h = 0 then Some \<lparr>previous_state_block_id = [], piece_merkle_root = [], sb_height = 0\<rparr> else None))
     0 (replicate 32 0) State_new =
     Some (Ok (1, save_state_block toy_blocklib State_new \<lparr>previous_state_block_id = [], piece_merkle_root = [], sb_height = 0\<rparr>)) \<and>
   (\<exists>bs. of_nat (length bs) = (1 :: u64) \<and>
     save_state_block toy_blocklib State_new \<lparr>previous_state_block_id = [], piece_merkle_root = [], sb_height = 0\<rparr> =
       foldl (save_state_block toy_blocklib) State_new bs)"
  (is "sync_state_chain _ ?f _ _ _ = Some (Ok (1, ?st)) \<and> _")
proof -
  have s: "sync_state_chain toy_blocklib ?f 0 (replicate 32 0) State_new = Some (Ok (1, ?st))"
    by (subst sync_state_chain.simps, simp, subst sync_state_chain.simps) simp
  then show ?thesis using state_chain_linked [OF s] by auto
qed

definition small_offer :: "u64 \<Rightarrow> RequestError + NetworkPieceBundleByIndex option" where
  "small_offer i = Inr (if i = 0 then
     Some \<lparr>nb_encoding = small_encoding, nb_piece_proof = pb_piece_proof small_bundle, nb_node_id = replicate 32 0\<rparr> else None)"

lemma small_offer_synced:
  "\<exists>p'. sync_pieces toy_blocklib log_storage (replicate 32 0) small_sloth toy_state small_offer 0 empty_plot = Some (Ok (1, p'))"
proof -
  let ?b = "\<lparr>nb_encoding = small_encoding, nb_piece_proof = pb_piece_proof small_bundle, nb_node_id = replicate 32 0\<rparr>"
  obtain sb where sb: "get_state_block_by_height toy_state 0 = Some sb"
      "validate_merkle_proof toy_blocklib (digest_sha_256 toy_blocklib small_piece) (pb_piece_proof small_bundle) (piece_merkle_root sb)"
    using small_bundle_good by (auto simp: bundle_good_def small_bundle_def)
  have e: "encode toy_blocklib small_sloth small_piece (from_digits (replicate 32 0)) ENCODING_LAYERS_TEST = Ok small_encoding"
    using small_encode by (simp add: toy_gmp ENCODING_LAYERS_TEST_def small_encoding_def)
  have "length (plot_file empty_plot) + PIECE_SIZE < 2 ^ 64" by (simp add: empty_plot_def PIECE_SIZE_def)
  from write_encoding_reads [OF log_storage_ok toy_block_hmac empty_plot_ok conjunct2 [OF small_decode] this]
  obtain p' where w: "write_encoding toy_blocklib log_storage empty_plot small_encoding (encoding_nonce toy_blocklib small_encoding) 0
      (pb_piece_proof small_bundle) = Ok (p', Inr ())" by blast
  have "sync_piece toy_blocklib log_storage (replicate 32 0) small_sloth toy_state 0 empty_plot ?b = Ok p'"
    using small_decode sb e w small_length
    by (simp add: sync_piece_def toy_iv_zero unwrap_sloth_def PIECE_SIZE_def)
  then show ?thesis
    by (subst sync_pieces.simps, simp add: small_offer_def, subst sync_pieces.simps) (simp add: small_offer_def)
qed

lemma small_offer_encodable: "\<forall>i b. small_offer i = Inr (Some b) \<longrightarrow> unat i < 1 \<and> bundle_encodable toy_blocklib plot_ledger b"
  using small_bundle_good small_decode
  by (simp add: small_offer_def bundle_encodable_def bundle_good_def Let_def toy_iv_zero toy_digest_zero small_bundle_def)

theorem synced_plot_provable_witness:
  "\<exists>p'. sync_pieces toy_blocklib log_storage (replicate 32 0) small_sloth toy_state small_offer 0 empty_plot = Some (Ok (1, p')) \<and>
     plot_provable toy_blocklib log_storage plot_ledger p' \<and> proved_piece toy_blocklib log_storage plot_ledger p' 0"
proof -
  obtain p' where p': "sync_pieces toy_blocklib log_storage (replicate 32 0) small_sloth toy_state small_offer 0 empty_plot = Some (Ok (1, p'))"
    using small_offer_synced by blast
  have l: "length (plot_file empty_plot) + 1 * PIECE_SIZE < 2 ^ 64" by (simp add: empty_plot_def PIECE_SIZE_def)
  have s: "sloth_fits toy_blocklib (sloth plot_ledger)" using small_sloth_fits by simp
  show ?thesis
    using synced_plot_provable [OF log_storage_ok toy_block_hmac s small_offer_encodable _ empty_plot_ok empty_plot_provable l] p'
    by (auto simp: toy_digest_zero)
qed

lemma toy_digest_same: "digest_sha_256 toy_blocklib = digest_sha_256 toy_crypto"
  by (simp add: fun_eq_iff digest_sha_256_def toy_blocklib_def blocklib.defs toy_defs)

theorem sync_timer_aligned_witness:
  "\<exists>t L'. sync_blocks toy_blocklib (\<lambda>_. []) (\<lambda>ts. if ts = - 1 then Inl TimedOut else Inr ([], [])) (\<lambda>_. 0) 0 toy_ledger = Some (Ok (t, L')) \<and>
     timer_ok (t, L')"
  (is "\<exists>t L'. sync_blocks _ _ ?fetch _ _ _ = _ \<and> _")
proof -
  have "\<exists>t L'. sync_blocks toy_blocklib (\<lambda>_. []) ?fetch (\<lambda>_. 0) 0 toy_ledger = Some (Ok (t, L'))"
    by (subst sync_blocks.simps) (simp add: sync_timeslot_def next_timeslot_arrived_def finish_sync_def Let_def)
  then obtain t L' where s: "sync_blocks toy_blocklib (\<lambda>_. []) ?fetch (\<lambda>_. 0) 0 toy_ledger = Some (Ok (t, L'))" by blast
  have "EpochTracker_new toy_blocklib = Ok (epoch_tracker toy_ledger)"
    using tracker_new(1) [of toy_blocklib] toy_digest_same by (simp add: Epoch_new_def)
  then show ?thesis using sync_timer_aligned [OF s, of TimedOut] s by auto
qed

theorem sync_stages_invalid_witness:
  "validate_block_from_sync toy_blocklib toy_ledger (toy_block None [[6]]) 0 = Ok (toy_ledger, False) \<and>
   (\<exists>L'. sync_block toy_blocklib 0 toy_ledger (toy_block None [[6]]) = Ok L' \<and>
     contains_content_id (metablocks L') (Content_get_id toy_blocklib (b_content (toy_block None [[6]]))))"
proof -
  have "validate_block_from_sync toy_blocklib toy_ledger (toy_block None [[6]]) 0 = Ok (toy_ledger, False)"
    by (simp add: validate_block_from_sync_def)
  then show ?thesis
    using sync_stages_invalid [of toy_blocklib toy_ledger "toy_block None [[6]]" 0 toy_ledger]
    by (simp add: metablocks_new_ok toy_fresh)
qed

end
