(* ===== verification/Wallet.thy ===== *)
theory Wallet
  imports Block
begin

text \<open>
  The wallet (\<^verbatim>\<open>src/pseudo_wallet.rs\<close>): a key pair and a nonce kept in the file
  \<^verbatim>\<open>config.json\<close>.  The JSON and hex packages and the bytes of a key pair are fields of the parameter
  \<open>walletlib\<close>, with their documented behaviour in \<open>walletlib_ok\<close>; the file is its bytes, and which
  system calls fail is the argument \<open>disk\<close>.

  Main results: through any payments and restarts, fewer than \<open>2 ^ 16\<close> in all, the wallet keeps its keys and
  numbers its transactions consecutively; the payment after that wraps the nonce, leaves a file that
  does not parse, and the next start replaces the keys.
\<close>

section \<open>Parameters\<close>

record FileContents =
  fc_keypair :: bytes
  fc_nonce :: u16

record walletlib =
  json_from_str :: "bytes \<Rightarrow> FileContents option"
  json_to_vec :: "FileContents \<Rightarrow> bytes"
  hex_encode :: "bytes \<Rightarrow> bytes"
  hex_decode :: "bytes \<Rightarrow> bytes option"
  keypair_to_bytes :: "Keypair \<Rightarrow> bytes"
  keypair_from_bytes :: "bytes \<Rightarrow> Keypair option"

text \<open>Which calls on the file fail, and how; a failing write has written a prefix.\<close>

record disk =
  open_error :: "io_error option"
  read_error :: "io_error option"
  seek_error :: "io_error option"
  write_error :: "bytes \<Rightarrow> (nat \<times> io_error) option"

text \<open>The decimal digits of a number, most significant first, and the text of a string.\<close>

fun decimal :: "nat \<Rightarrow> bytes" where
  "decimal n = (if n < 10 then [of_nat (48 + n)] else decimal (n div 10) @ [of_nat (48 + n mod 10)])"

declare decimal.simps [simp del]

definition ascii :: "string \<Rightarrow> bytes" where
  "ascii s = map (of_nat \<circ> of_char) s"

definition json_text :: "FileContents \<Rightarrow> bytes" where
  "json_text c = ascii ''{\"keypair\":\"'' @ fc_keypair c @ ascii ''\",\"nonce\":'' @ decimal (unat (fc_nonce c)) @ ascii ''}''"

definition hex_digits :: "bytes \<Rightarrow> bool" where
  "hex_digits bs \<longleftrightarrow> (\<forall>b \<in> set bs. 48 \<le> b \<and> b \<le> 57 \<or> 97 \<le> b \<and> b \<le> 102)"

text \<open>
  JSON is printed without white space, the keys in the order of the struct, and hex digits are not
  escaped.  A text that was printed parses to what was printed; no text parses that is empty or has more
  than white space after the closing brace.  A byte is two hex digits.  What was encoded as hex digits,
  or is the bytes of a key pair, is read back.
\<close>

definition json_space :: "byte \<Rightarrow> bool" where
  "json_space b \<longleftrightarrow> b \<in> {9, 10, 13, 32}"

definition walletlib_ok :: "'x walletlib_scheme \<Rightarrow> bool" where
  "walletlib_ok X \<longleftrightarrow>
     (\<forall>c. hex_digits (fc_keypair c) \<longrightarrow> json_to_vec X c = json_text c \<and> json_from_str X (json_text c) = Some c \<and>
        (\<forall>t. \<not> list_all json_space t \<longrightarrow> json_from_str X (json_text c @ t) = None)) \<and>
     json_from_str X [] = None \<and>
     (\<forall>b. hex_digits (hex_encode X b) \<and> length (hex_encode X b) = 2 * length b \<and> hex_decode X (hex_encode X b) = Some b)"

definition keypair_ok :: "'x walletlib_scheme \<Rightarrow> Keypair \<Rightarrow> bool" where
  "keypair_ok X k \<longleftrightarrow> length (keypair_to_bytes X k) = 64 \<and> keypair_from_bytes X (keypair_to_bytes X k) = Some k"

section \<open>Definitions\<close>

text \<open>Whether bytes are the UTF-8 encoding of a string, as \<^verbatim>\<open>read_to_string\<close> requires.\<close>

definition utf8_cont :: "byte \<Rightarrow> bool" where
  "utf8_cont b \<longleftrightarrow> 0x80 \<le> b \<and> b \<le> 0xBF"

text \<open>The range of the second byte, and the number of bytes that follow it, by the first byte.\<close>

definition utf8_lead :: "byte \<Rightarrow> (byte \<times> byte \<times> nat) option" where
  "utf8_lead b =
     (if 0xC2 \<le> b \<and> b \<le> 0xDF then Some (0x80, 0xBF, 0)
      else if b = 0xE0 then Some (0xA0, 0xBF, 1)
      else if b = 0xED then Some (0x80, 0x9F, 1)
      else if 0xE1 \<le> b \<and> b \<le> 0xEF then Some (0x80, 0xBF, 1)
      else if b = 0xF0 then Some (0x90, 0xBF, 2)
      else if 0xF1 \<le> b \<and> b \<le> 0xF3 then Some (0x80, 0xBF, 2)
      else if b = 0xF4 then Some (0x80, 0x8F, 2)
      else None)"

function utf8 :: "bytes \<Rightarrow> bool" where
  "utf8 bs =
     (case bs of
        [] \<Rightarrow> True
      | b # r \<Rightarrow>
          if b < 0x80 then utf8 r
          else case utf8_lead b of
            None \<Rightarrow> False
          | Some (lo, hi, n) \<Rightarrow>
              n < length r \<and> lo \<le> hd r \<and> hd r \<le> hi \<and> list_all utf8_cont (take n (tl r)) \<and> utf8 (drop (Suc n) r))"
  by pat_completeness auto
termination by (relation "measure length") auto

declare utf8.simps [simp del]

record Wallet =
  w_keypair :: Keypair
  w_node_id :: NodeID
  w_nonce :: u16
  w_file :: bytes

text \<open>Writing over the start of a file leaves the rest as it was.\<close>

definition overwrite :: "bytes \<Rightarrow> bytes \<Rightarrow> bytes" where
  "overwrite file bs = bs @ drop (length bs) file"

definition wallet_contents :: "'x walletlib_scheme \<Rightarrow> Wallet \<Rightarrow> FileContents" where
  "wallet_contents X w = \<lparr>fc_keypair = hex_encode X (keypair_to_bytes X (w_keypair w)), fc_nonce = w_nonce w\<rparr>"

definition Wallet_save :: "'x walletlib_scheme \<Rightarrow> disk \<Rightarrow> Wallet \<Rightarrow> Wallet \<times> (io_error + unit)" where
  "Wallet_save X d w =
     (let data = json_to_vec X (wallet_contents X w)
      in case seek_error d of
           Some e \<Rightarrow> (w, Inl e)
         | None \<Rightarrow>
             (case write_error d data of
                None \<Rightarrow> (w\<lparr>w_file := overwrite (w_file w) data\<rparr>, Inr ())
              | Some (n, e) \<Rightarrow> (w\<lparr>w_file := overwrite (w_file w) (take n data)\<rparr>, Inl e)))"

text \<open>
  The file afterwards and the wallet or the error.  A file that does not exist is created empty; \<open>fresh\<close>
  is the key pair that the random generator gives.
\<close>

definition Wallet_open_or_create ::
  "'e crypto_scheme \<Rightarrow> 'x walletlib_scheme \<Rightarrow> disk \<Rightarrow> Keypair \<Rightarrow> bytes \<Rightarrow> (bytes \<times> (io_error + Wallet)) res" where
  "Wallet_open_or_create E X d fresh file =
     (case (open_error d, read_error d) of
        (Some e, _) \<Rightarrow> Ok (file, Inl e)
      | (None, Some e) \<Rightarrow> Ok (file, Inl e)
      | (None, None) \<Rightarrow>
      if \<not> utf8 file then Ok (file, Inl InvalidData)
      else case json_from_str X file of
        Some contents \<Rightarrow>
          bindR (expect ''Keypair is not a hex string'' (hex_decode X (fc_keypair contents))) (\<lambda>bs.
          bindR (expect ''Incorrect keypair string'' (keypair_from_bytes X bs)) (\<lambda>keypair.
          Ok (file, Inr \<lparr>w_keypair = keypair, w_node_id = digest_sha_256 E (public keypair),
                         w_nonce = fc_nonce contents, w_file = file\<rparr>)))
      | None \<Rightarrow>
          (case Wallet_save X d \<lparr>w_keypair = fresh, w_node_id = digest_sha_256 E (public fresh), w_nonce = 0, w_file = file\<rparr> of
             (w, r) \<Rightarrow> Ok (w_file w, bindR r (\<lambda>_. Inr w))))"

text \<open>The nonce wraps; it stays incremented when the file cannot be written.\<close>

definition create_tx ::
  "'e txlib_scheme \<Rightarrow> 'x walletlib_scheme \<Rightarrow> disk \<Rightarrow> Wallet \<Rightarrow> AccountAddress \<Rightarrow> u64 \<Rightarrow> Wallet \<times> (io_error + SimpleCreditTx)" where
  "create_tx E X d w to_address amount =
     (let w = w\<lparr>w_nonce := w_nonce w + 1\<rparr>;
          tx = SimpleCreditTx_new E amount to_address (w_nonce w) (w_keypair w)
      in case Wallet_save X d w of (w, r) \<Rightarrow> (w, bindR r (\<lambda>_. Inr tx)))"

section \<open>The text of the file\<close>

lemma ascii_utf8: "list_all (\<lambda>b. b < 0x80) bs \<Longrightarrow> utf8 bs"
  by (induction bs) (simp_all add: utf8.simps)

lemma decimal_ascii: "list_all (\<lambda>b. b < 0x80) (decimal n)"
proof (induction n rule: decimal.induct)
  case (1 n)
  have "(of_nat (48 + m) :: byte) < 0x80" if "m < 10" for m
    using that by (simp add: word_less_nat_alt unat_of_nat del: of_nat_add)
  then show ?case using 1 by (subst decimal.simps) (simp del: of_nat_add)
qed

lemma decimal_length_mono: "m \<le> n \<Longrightarrow> length (decimal m) \<le> length (decimal n)"
proof (induction n arbitrary: m rule: decimal.induct)
  case (1 n)
  show ?case
  proof (cases "m < 10")
    case True
    then show ?thesis by (simp add: decimal.simps [of m] decimal.simps [of n])
  next
    case False
    with "1.prems" have "length (decimal (m div 10)) \<le> length (decimal (n div 10))" by (intro "1.IH") (simp_all add: div_le_mono)
    then show ?thesis using False "1.prems" by (simp add: decimal.simps [of m] decimal.simps [of n])
  qed
qed

lemma hex_ascii: "hex_digits bs \<Longrightarrow> list_all (\<lambda>b. b < 0x80) bs"
  by (auto simp: hex_digits_def list_all_iff word_le_nat_alt word_less_nat_alt)

lemma json_text_ascii: "hex_digits (fc_keypair c) \<Longrightarrow> list_all (\<lambda>b. b < 0x80) (json_text c)"
  using hex_ascii decimal_ascii by (auto simp: json_text_def ascii_def)

lemma json_text_end: "json_text c \<noteq> []" "last (json_text c) = 125"
  by (simp_all add: json_text_def ascii_def)

lemma json_text_length: "length (json_text c) = 23 + length (fc_keypair c) + length (decimal (unat (fc_nonce c)))"
  by (simp add: json_text_def ascii_def)

section \<open>Keys and nonces\<close>

definition healthy :: "disk \<Rightarrow> bool" where
  "healthy d \<longleftrightarrow> open_error d = None \<and> read_error d = None \<and> seek_error d = None \<and> (\<forall>bs. write_error d bs = None)"

text \<open>The file is the text of the wallet; or it has something after the text of some wallet.\<close>

definition saved :: "'e crypto_scheme \<Rightarrow> 'x walletlib_scheme \<Rightarrow> Wallet \<Rightarrow> bool" where
  "saved E X w \<longleftrightarrow> keypair_ok X (w_keypair w) \<and> w_file w = json_text (wallet_contents X w) \<and>
     w_node_id w = digest_sha_256 E (public (w_keypair w))"

definition stale :: "nat \<Rightarrow> bytes \<Rightarrow> bool" where
  "stale n file \<longleftrightarrow> (\<exists>c t. file = json_text c @ t \<and> length (json_text c) = n \<and> hex_digits (fc_keypair c) \<and>
     list_all (\<lambda>b. b < 0x80) t \<and> \<not> list_all json_space t)"

lemma contents_facts:
  assumes "walletlib_ok X"
  shows "hex_digits (fc_keypair (wallet_contents X w))"
    "json_to_vec X (wallet_contents X w) = json_text (wallet_contents X w)"
    "json_from_str X (json_text (wallet_contents X w)) = Some (wallet_contents X w)"
  using assms unfolding walletlib_ok_def by (simp_all add: wallet_contents_def)

lemma text_length:
  assumes "walletlib_ok X" and "keypair_ok X (w_keypair w)"
  shows "length (json_text (wallet_contents X w)) = 151 + length (decimal (unat (w_nonce w)))"
  using assms by (simp add: json_text_length wallet_contents_def walletlib_ok_def keypair_ok_def)

lemma save_healthy:
  assumes "walletlib_ok X" and "healthy d"
  shows "Wallet_save X d w = (w\<lparr>w_file := overwrite (w_file w) (json_text (wallet_contents X w))\<rparr>, Inr ())"
  using assms(2) by (simp add: Wallet_save_def contents_facts [OF assms(1)] healthy_def Let_def)

lemma contents_file [simp]: "wallet_contents X (w\<lparr>w_file := f\<rparr>) = wallet_contents X w"
  by (simp add: wallet_contents_def)

lemma open_new:
  assumes "walletlib_ok X" and "healthy d" and "keypair_ok X k"
  shows "\<exists>w. Wallet_open_or_create E X d k [] = Ok (w_file w, Inr w) \<and> saved E X w \<and> w_keypair w = k \<and> w_nonce w = 0"
proof -
  have "json_from_str X [] = None" "utf8 []" using assms(1) by (simp_all add: walletlib_ok_def utf8.simps)
  then show ?thesis
    using assms(2,3) by (simp add: Wallet_open_or_create_def save_healthy [OF assms(1,2)] saved_def overwrite_def healthy_def wallet_contents_def)
qed

lemma open_saved:
  assumes "walletlib_ok X" and "healthy d" and "saved E X w"
  shows "Wallet_open_or_create E X d fresh (w_file w) = Ok (w_file w, Inr w)"
proof -
  have "utf8 (w_file w)"
    using assms(3) json_text_ascii [OF contents_facts(1) [OF assms(1)]] ascii_utf8 by (auto simp: saved_def)
  moreover have "hex_decode X (hex_encode X bs) = Some bs" for bs using assms(1) by (simp add: walletlib_ok_def)
  ultimately show ?thesis
    using assms(2,3) contents_facts(3) [OF assms(1), of w]
    by (simp add: Wallet_open_or_create_def saved_def healthy_def keypair_ok_def expect_def wallet_contents_def)
qed

lemma create_tx_saved:
  assumes "walletlib_ok X" and "healthy d" and "saved E X w" and "w_nonce w + 1 \<noteq> 0"
  shows "\<exists>w'. create_tx E X d w to_address amount =
           (w', Inr (SimpleCreditTx_new E amount to_address (w_nonce w + 1) (w_keypair w))) \<and>
           saved E X w' \<and> w_keypair w' = w_keypair w \<and> w_nonce w' = w_nonce w + 1"
proof -
  let ?w = "w\<lparr>w_nonce := w_nonce w + 1\<rparr>"
  have "unat (w_nonce w) \<le> unat (w_nonce w + 1)" using assms(4) unatSuc [of "w_nonce w"] by (simp add: add.commute [of _ 1])
  then have "length (json_text (wallet_contents X w)) \<le> length (json_text (wallet_contents X ?w))"
    using assms(3) decimal_length_mono by (simp add: text_length [OF assms(1)] saved_def)
  then show ?thesis
    using assms(3) by (simp add: create_tx_def save_healthy [OF assms(1,2)] saved_def overwrite_def Let_def)
qed

text \<open>Payments, and restarts of the node with the key pair that the generator would give.\<close>

datatype wallet_event = Pay AccountAddress u64 | Restart Keypair

fun wallet_step ::
  "'e txlib_scheme \<Rightarrow> 'x walletlib_scheme \<Rightarrow> disk \<Rightarrow> Wallet \<Rightarrow> wallet_event \<Rightarrow> (Wallet \<times> SimpleCreditTx list) option" where
  "wallet_step E X d w (Pay to_address amount) =
     (case create_tx E X d w to_address amount of (w, Inr tx) \<Rightarrow> Some (w, [tx]) | (w, Inl _) \<Rightarrow> None)"
| "wallet_step E X d w (Restart fresh) =
     (case Wallet_open_or_create E X d fresh (w_file w) of Inr (_, Inr w) \<Rightarrow> Some (w, []) | _ \<Rightarrow> None)"

fun wallet_run ::
  "'e txlib_scheme \<Rightarrow> 'x walletlib_scheme \<Rightarrow> disk \<Rightarrow> Wallet \<Rightarrow> wallet_event list \<Rightarrow> (Wallet \<times> SimpleCreditTx list) option" where
  "wallet_run E X d w [] = Some (w, [])"
| "wallet_run E X d w (e # es) =
     (case wallet_step E X d w e of None \<Rightarrow> None
      | Some (w, sent) \<Rightarrow> map_option (\<lambda>(w, txs). (w, sent @ txs)) (wallet_run E X d w es))"

fun payments :: "wallet_event list \<Rightarrow> nat" where
  "payments [] = 0"
| "payments (Pay _ _ # es) = Suc (payments es)"
| "payments (Restart _ # es) = payments es"

lemma wallet_run_saved:
  assumes "walletlib_ok X" and "healthy d"
  shows "saved E X w \<Longrightarrow> unat (w_nonce w) + payments es < 2 ^ 16 \<Longrightarrow>
    \<exists>w' txs. wallet_run E X d w es = Some (w', txs) \<and> saved E X w' \<and> w_keypair w' = w_keypair w \<and>
      map (\<lambda>tx. unat (tx_nonce tx)) txs = [Suc (unat (w_nonce w))..<Suc (unat (w_nonce w) + payments es)] \<and>
      (\<forall>tx \<in> set txs. tx_from_address tx = w_node_id w \<and> tx_public_key tx = public (w_keypair w))"
proof (induction es arbitrary: w rule: payments.induct)
  case (2 to_address amount es)
  then have n: "w_nonce w + 1 \<noteq> 0" "unat (w_nonce w + 1) = Suc (unat (w_nonce w))"
    using unatSuc [of "w_nonce w"] unat_of_nat [of "Suc (unat (w_nonce w))", where ?'a = 16]
    by (auto simp: add.commute [of _ 1] word_unat_eq_iff)
  let ?tx = "SimpleCreditTx_new E amount to_address (w_nonce w + 1) (w_keypair w)"
  obtain w1 where w1: "create_tx E X d w to_address amount = (w1, Inr ?tx)"
      "saved E X w1" "w_keypair w1 = w_keypair w" "w_nonce w1 = w_nonce w + 1"
    using create_tx_saved [OF assms "2.prems"(1) n(1)] by blast
  have id: "w_node_id w1 = w_node_id w" using w1(2,3) "2.prems"(1) by (simp add: saved_def)
  obtain w' txs where "wallet_run E X d w1 es = Some (w', txs)" "saved E X w'" "w_keypair w' = w_keypair w"
      "map (\<lambda>tx. unat (tx_nonce tx)) txs = [Suc (Suc (unat (w_nonce w)))..<Suc (Suc (unat (w_nonce w)) + payments es)]"
      "\<forall>tx \<in> set txs. tx_from_address tx = w_node_id w \<and> tx_public_key tx = public (w_keypair w)"
    using "2.IH" [OF w1(2)] "2.prems"(2) n(2) w1(3,4) id by (auto simp del: upt_Suc)
  then show ?case
    using w1(1) n(2) "2.prems"(1) upt_conv_Cons [of "Suc (unat (w_nonce w))" "Suc (Suc (unat (w_nonce w)) + payments es)"]
    by (simp add: SimpleCreditTx_new_def saved_def Let_def del: upt_Suc)
next
  case (3 fresh es)
  then show ?case using open_saved [OF assms "3.prems"(1)] by auto
qed simp

text \<open>
  \<^bold>\<open>C15\<close>: A wallet that a node creates on a working disk keeps its keys through any sequence of payments and
  restarts with fewer than \<open>2 ^ 16\<close> payments, none of which fails: whatever keys the generator would give, a
  restart finds the ones of the file, and the transactions, all from the wallet's address, carry the
  nonces 1, 2, 3 and so on.
\<close>

theorem wallet_keeps_keys:
  assumes "walletlib_ok X" and "healthy d" and "keypair_ok X k" and "payments es < 2 ^ 16"
  shows "\<exists>w0 w txs. Wallet_open_or_create E X d k [] = Ok (w_file w0, Inr w0) \<and>
           wallet_run E X d w0 es = Some (w, txs) \<and> w_keypair w = k \<and>
           map (\<lambda>tx. unat (tx_nonce tx)) txs = [1..<Suc (payments es)] \<and>
           (\<forall>tx \<in> set txs. tx_from_address tx = digest_sha_256 E (public k) \<and> tx_public_key tx = public k)"
proof -
  obtain w0 where w0: "Wallet_open_or_create E X d k [] = Ok (w_file w0, Inr w0)" "saved E X w0" "w_keypair w0 = k" "w_nonce w0 = 0"
    using open_new [OF assms(1-3)] by blast
  then have "w_node_id w0 = digest_sha_256 E (public k)" by (simp add: saved_def)
  then show ?thesis using wallet_run_saved [OF assms(1,2) w0(2), of es] assms(4) w0 by (auto simp del: upt_Suc)
qed

lemma overwrite_stale:
  assumes "walletlib_ok X" and "stale (length (json_text (wallet_contents X w))) file"
  shows "stale (length (json_text (wallet_contents X w))) (overwrite file (json_text (wallet_contents X w)))"
  using assms(2) contents_facts(1) [OF assms(1), of w] unfolding stale_def overwrite_def by fastforce

lemma open_stale:
  assumes "walletlib_ok X" and "healthy d" and "keypair_ok X fresh" and "stale 152 file"
  shows "\<exists>w. Wallet_open_or_create E X d fresh file = Ok (w_file w, Inr w) \<and> w_keypair w = fresh \<and> stale 152 (w_file w)"
proof -
  let ?w = "\<lparr>w_keypair = fresh, w_node_id = digest_sha_256 E (public fresh), w_nonce = 0, w_file = file\<rparr>"
  obtain c t where ct: "file = json_text c @ t" "hex_digits (fc_keypair c)" "list_all (\<lambda>b. b < 0x80) t" "\<not> list_all json_space t"
    using assms(4) by (auto simp: stale_def)
  have "json_from_str X file = None" using assms(1) ct by (simp add: walletlib_ok_def)
  moreover have "utf8 file" using ct(1,3) json_text_ascii [OF ct(2)] by (simp add: ascii_utf8)
  moreover have "length (json_text (wallet_contents X ?w)) = 152"
    using text_length [OF assms(1)] assms(3) by (simp add: decimal.simps)
  ultimately show ?thesis
    using assms(2,4) overwrite_stale [OF assms(1), of ?w "file"]
    by (simp add: Wallet_open_or_create_def save_healthy [OF assms(1,2)] healthy_def)
qed


section \<open>A concrete library\<close>

definition is_hex :: "byte \<Rightarrow> bool" where
  "is_hex b \<longleftrightarrow> 48 \<le> b \<and> b \<le> 57 \<or> 97 \<le> b \<and> b \<le> 102"

definition is_digit :: "byte \<Rightarrow> bool" where
  "is_digit b \<longleftrightarrow> 48 \<le> b \<and> b \<le> 57"

definition undecimal :: "bytes \<Rightarrow> nat" where
  "undecimal = foldl (\<lambda>n b. 10 * n + (unat b - 48)) 0"

definition plain_parse :: "bytes \<Rightarrow> FileContents option" where
  "plain_parse bs =
     (let r = drop 12 bs; k = takeWhile is_hex r; r = drop 10 (dropWhile is_hex r);
          n = undecimal (takeWhile is_digit r); r = dropWhile is_digit r
      in if r \<noteq> [] \<and> list_all json_space (tl r) then Some \<lparr>fc_keypair = k, fc_nonce = of_nat n\<rparr> else None)"

definition hex_digit :: "nat \<Rightarrow> byte" where
  "hex_digit n = of_nat (if n < 10 then 48 + n else 87 + n)"

definition unhex_digit :: "byte \<Rightarrow> nat" where
  "unhex_digit b = (if unat b < 58 then unat b - 48 else unat b - 87)"

fun plain_hex :: "bytes \<Rightarrow> bytes" where
  "plain_hex [] = []"
| "plain_hex (b # bs) = hex_digit (unat b div 16) # hex_digit (unat b mod 16) # plain_hex bs"

fun plain_unhex :: "bytes \<Rightarrow> bytes option" where
  "plain_unhex (h # l # bs) = map_option (Cons (of_nat (16 * unhex_digit h + unhex_digit l))) (plain_unhex bs)"
| "plain_unhex [] = Some []"
| "plain_unhex [_] = None"

definition plain_walletlib :: walletlib where
  "plain_walletlib = \<lparr>json_from_str = plain_parse, json_to_vec = json_text, hex_encode = plain_hex, hex_decode = plain_unhex,
     keypair_to_bytes = (\<lambda>k. secret k @ public k),
     keypair_from_bytes = (\<lambda>bs. if length bs = 64 then Some \<lparr>public = drop 32 bs, secret = take 32 bs\<rparr> else None)\<rparr>"

lemma hex_digit_facts:
  assumes "n < 16"
  shows "is_hex (hex_digit n)" "unhex_digit (hex_digit n) = n"
  using assms by (auto simp: hex_digit_def unhex_digit_def is_hex_def word_le_nat_alt unat_of_nat simp del: of_nat_add)

lemma plain_hex_facts: "hex_digits (plain_hex bs) \<and> length (plain_hex bs) = 2 * length bs \<and> plain_unhex (plain_hex bs) = Some bs"
proof (induction bs)
  case (Cons b bs)
  have "unat b div 16 < 16" by (intro less_mult_imp_div_less) simp
  then show ?case
    using Cons hex_digit_facts [of "unat b div 16"] hex_digit_facts [of "unat b mod 16"] mult_div_mod_eq [of 16 "unat b"]
    by (auto simp: hex_digits_def is_hex_def simp del: of_nat_add)
qed (simp add: hex_digits_def)

lemma undecimal_decimal: "undecimal (decimal n) = n \<and> list_all is_digit (decimal n)"
proof (induction n rule: decimal.induct)
  case (1 n)
  have "unat (of_nat (48 + m) :: byte) = 48 + m" if "m < 10" for m
    using that by (simp add: unat_of_nat del: of_nat_add)
  then show ?case using 1
    by (subst (1 2) decimal.simps) (auto simp: undecimal_def is_digit_def word_le_nat_alt list_all_iff simp del: of_nat_add)
qed

lemma takeWhile_until:
  assumes "list_all P xs" and "\<not> P y"
  shows "takeWhile P (xs @ y # ys) = xs" "dropWhile P (xs @ y # ys) = y # ys"
  using assms by (induction xs) simp_all

lemma plain_parse_text:
  assumes "hex_digits (fc_keypair c)"
  shows "plain_parse (json_text c @ t) = (if list_all json_space t then Some c else None)"
proof -
  let ?r = "decimal (unat (fc_nonce c)) @ 125 # t"
  have k: "list_all is_hex (fc_keypair c)" using assms by (simp add: hex_digits_def is_hex_def list_all_iff)
  have "drop 12 (json_text c @ t) = fc_keypair c @ 34 # ascii '',\"nonce\":'' @ ?r"
    by (simp add: json_text_def ascii_def)
  moreover have "drop 10 (34 # ascii '',\"nonce\":'' @ ?r) = ?r" by (simp add: ascii_def)
  moreover have "\<not> is_hex 34" "\<not> is_digit 125" by (simp_all add: is_hex_def is_digit_def)
  ultimately show ?thesis
    using takeWhile_until [OF k] takeWhile_until [OF conjunct2 [OF undecimal_decimal]] undecimal_decimal
    by (simp add: plain_parse_def Let_def)
qed

lemma plain_walletlib_ok: "walletlib_ok plain_walletlib"
  using plain_parse_text plain_parse_text [where t = "[]"] plain_hex_facts
  by (simp add: walletlib_ok_def plain_walletlib_def plain_parse_def)

lemma plain_keypair_ok: "length (public k) = 32 \<Longrightarrow> length (secret k) = 32 \<Longrightarrow> keypair_ok plain_walletlib k"
  by (simp add: keypair_ok_def plain_walletlib_def)

definition good_disk :: disk where
  "good_disk = \<lparr>open_error = None, read_error = None, seek_error = None, write_error = (\<lambda>_. None)\<rparr>"

lemma good_disk_healthy: "healthy good_disk"
  by (simp add: healthy_def good_disk_def)

lemma toy_keypair_ok: "keypair_ok plain_walletlib toy_keys"
  by (simp add: plain_keypair_ok toy_keys_def)

theorem wallet_keeps_keys_witness:
  "\<exists>w0 w txs. Wallet_open_or_create toy_txlib plain_walletlib good_disk toy_keys [] = Ok (w_file w0, Inr w0) \<and>
     wallet_run toy_txlib plain_walletlib good_disk w0
       [Pay [1] 5, Restart \<lparr>public = replicate 32 1, secret = replicate 32 2\<rparr>, Pay [2] 6] = Some (w, txs) \<and>
     w_keypair w = toy_keys \<and> map (\<lambda>tx. unat (tx_nonce tx)) txs = [1, 2]"
proof -
  define es where "es = [Pay [1] 5, Restart \<lparr>public = replicate 32 1, secret = replicate 32 2\<rparr>, Pay [2] 6]"
  have n: "payments es = 2" "[1..<Suc 2] = [1, 2 :: nat]" by (simp_all add: es_def upt_rec)
  then have "payments es < 2 ^ 16" by simp
  from wallet_keeps_keys [OF plain_walletlib_ok good_disk_healthy toy_keypair_ok this, of toy_txlib]
  show ?thesis unfolding n es_def [symmetric] by (elim exE conjE) (intro exI conjI)
qed

text \<open>A wallet whose nonce is at its end.\<close>

definition spent_wallet :: Wallet where
  "spent_wallet = (let w = \<lparr>w_keypair = toy_keys, w_node_id = digest_sha_256 toy_txlib (public toy_keys), w_nonce = - 1, w_file = []\<rparr>
     in w\<lparr>w_file := json_text (wallet_contents plain_walletlib w)\<rparr>)"


end
