(* ===== verification/Node.thy ===== *)
theory Node
  imports Manager Wallet
begin

text \<open>
  The process around the components: the socket that takes commands (\<^verbatim>\<open>src/ipc.rs\<close>), the
  subscriptions of the RPC server (\<^verbatim>\<open>src/rpc.rs\<close>), and the start and the end of a node
  (\<^verbatim>\<open>src/main.rs\<close>).  The bincode package is the parameter \<open>ipc_codec\<close>, with its documented format of
  the messages in \<open>ipc_codec_ok\<close>.

  Main results: every frame on the socket gets one reply, in order, and the stop command works; a
  block is sent to exactly the current subscribers; a gateway starts with a plot that its state chain
  proves; the process exits normally only after the plot was closed.
\<close>

section \<open>Commands\<close>

datatype IpcRequestMessage = RequestShutdown

datatype IpcResponseMessage = ResponseShutdown

text \<open>The server encodes a \<^verbatim>\<open>Result<IpcResponseMessage, ()>\<close>; the client decodes an \<^verbatim>\<open>IpcResponseMessage\<close>.\<close>

record ipc_codec =
  ser_ipc_request :: "IpcRequestMessage \<Rightarrow> bytes"
  de_ipc_request :: "bytes \<Rightarrow> IpcRequestMessage option"
  ser_ipc_reply :: "unit + IpcResponseMessage \<Rightarrow> bytes"
  de_ipc_response :: "bytes \<Rightarrow> IpcResponseMessage option"

text \<open>
  An enum is the index of its variant in four bytes, least significant first, and then its fields;
  \<^verbatim>\<open>Ok\<close> has index 0 and \<^verbatim>\<open>Err\<close> index 1.  Bytes after the value are ignored.
\<close>

definition ipc_codec_ok :: "'c ipc_codec_scheme \<Rightarrow> bool" where
  "ipc_codec_ok C \<longleftrightarrow>
     (\<forall>m. ser_ipc_request C m = u32_to_le_bytes 0) \<and>
     (\<forall>m t. de_ipc_request C (u32_to_le_bytes 0 @ t) = Some m) \<and>
     (\<forall>m. ser_ipc_reply C (Inr m) = u32_to_le_bytes 0 @ u32_to_le_bytes 0) \<and>
     ser_ipc_reply C (Inl ()) = u32_to_le_bytes 1 \<and>
     (\<forall>m t. de_ipc_response C (u32_to_le_bytes 0 @ t) = Some m) \<and>
     (\<forall>t. de_ipc_response C (u32_to_le_bytes 1 @ t) = None)"

definition ipc_frame :: "bytes \<Rightarrow> bytes" where
  "ipc_frame data = u32_to_le_bytes (of_nat (length data)) @ data"

text \<open>The next frame and what follows it; \<open>None\<close> when the stream ends before the frame does.\<close>

definition read_frame :: "bytes \<Rightarrow> (bytes \<times> bytes) option" where
  "read_frame input =
     (if length input < 4 then None
      else let n = unat (u32_from_le_bytes (take 4 input))
           in if length input < 4 + n then None else Some (take n (drop 4 input), drop (4 + n) input))"

lemma read_frame_shorter [termination_simp]: "read_frame input = Some (payload, rest) \<Longrightarrow> length rest < length input"
  by (auto simp: read_frame_def Let_def split: if_splits)

text \<open>
  One connection: the requests that were handled and the bytes that were sent.  \<open>on_message\<close> is the reply,
  or \<open>None\<close> when its sender was dropped; \<open>can_write n\<close> tells whether the \<open>n\<close>-th reply can be written.
\<close>

function ipc_session ::
  "'c ipc_codec_scheme \<Rightarrow> (IpcRequestMessage \<Rightarrow> (unit + IpcResponseMessage) option) \<Rightarrow> (nat \<Rightarrow> bool) \<Rightarrow> nat \<Rightarrow> bytes \<Rightarrow>
     IpcRequestMessage list \<times> bytes" where
  "ipc_session C on_message can_write n input =
     (case read_frame input of
        None \<Rightarrow> ([], [])
      | Some (payload, rest) \<Rightarrow>
          (case de_ipc_request C payload of
             Some m \<Rightarrow>
               (case on_message m of
                  Some response \<Rightarrow>
                    if can_write n then
                      (case ipc_session C on_message can_write (Suc n) rest of
                         (ms, out) \<Rightarrow> (m # ms, ipc_frame (ser_ipc_reply C response) @ out))
                    else ([m], [])
                | None \<Rightarrow> (case ipc_session C on_message can_write n rest of (ms, out) \<Rightarrow> (m # ms, out)))
           | None \<Rightarrow>
               if can_write n then
                 (case ipc_session C on_message can_write (Suc n) rest of
                    (ms, out) \<Rightarrow> (ms, ipc_frame (ser_ipc_reply C (Inl ())) @ out))
               else ([], [])))"
  by pat_completeness auto
termination by (relation "measure (\<lambda>(_, _, _, _, input). length input)") (auto simp: read_frame_shorter)

declare ipc_session.simps [simp del]

text \<open>What a client gets; \<open>server\<close> is what the other side answers, \<open>None\<close> when it cannot be reached.\<close>

definition simple_request ::
  "'c ipc_codec_scheme \<Rightarrow> (bytes \<Rightarrow> bytes) option \<Rightarrow> IpcRequestMessage \<Rightarrow> io_error + IpcResponseMessage" where
  "simple_request C server message =
     (case server of
        None \<Rightarrow> Inl (OtherError ''connect'')
      | Some answer \<Rightarrow>
          (case read_frame (answer (ipc_frame (ser_ipc_request C message))) of
             None \<Rightarrow> Inl UnexpectedEof
           | Some (payload, _) \<Rightarrow>
               (case de_ipc_response C payload of Some response \<Rightarrow> Inr response | None \<Rightarrow> Inl (OtherError ''deserialize''))))"

text \<open>The handler of the node; each request it handles also asks the process to stop.\<close>

fun handle_ipc :: "IpcRequestMessage \<Rightarrow> (unit + IpcResponseMessage) option" where
  "handle_ipc RequestShutdown = Some (Inr ResponseShutdown)"

section \<open>Subscriptions\<close>

record 's Subscriptions =
  next_subscription_id :: u64
  sinks :: "u64 \<rightharpoonup> 's"

definition no_subscriptions :: "'s Subscriptions" where
  "no_subscriptions = \<lparr>next_subscription_id = 1, sinks = Map.empty\<rparr>"

text \<open>\<open>sink\<close> is \<open>None\<close> when the subscriber has gone before it gets its id.\<close>

definition subscribe_blocks :: "'s Subscriptions \<Rightarrow> 's option \<Rightarrow> (u64 \<times> 's Subscriptions) res" where
  "subscribe_blocks s sink =
     (let i = next_subscription_id s; s = s\<lparr>next_subscription_id := i + 1\<rparr>
      in bindR (unwrap sink) (\<lambda>x. Ok (i, s\<lparr>sinks := (sinks s)(i \<mapsto> x)\<rparr>)))"

definition unsubscribe_blocks :: "'s Subscriptions \<Rightarrow> u64 \<Rightarrow> 's Subscriptions" where
  "unsubscribe_blocks s i = s\<lparr>sinks := (sinks s)(i := None)\<rparr>"

text \<open>Who is sent which block.\<close>

fun notify_gossip :: "'s Subscriptions \<Rightarrow> GossipMessage \<Rightarrow> (u64 \<times> 's \<times> Block) set" where
  "notify_gossip s (BlockProposal block) = {(i, x, block) | i x. sinks s i = Some x}"
| "notify_gossip s (TxProposal _) = {}"

section \<open>Start\<close>

text \<open>The kinds of node as they are printed, and as they are parsed.\<close>

fun NodeType_fmt :: "NodeType \<Rightarrow> string" where
  "NodeType_fmt Gateway = ''Gateway''"
| "NodeType_fmt FarmerNode = ''Farmer''"
| "NodeType_fmt PeerNode = ''Peer''"

definition NodeType_from_str :: "string \<Rightarrow> unit + NodeType" where
  "NodeType_from_str s =
     (if s = ''peer'' then Inr PeerNode
      else if s = ''farmer'' then Inr FarmerNode
      else if s = ''gateway'' then Inr Gateway
      else Inl ())"

text \<open>No printed name is parsed, though every kind has a name that is.\<close>

lemma NodeType_names:
  "NodeType_from_str (NodeType_fmt t) = Inl ()"
  "\<exists>s. NodeType_from_str s = Inr t \<and> (\<forall>t'. NodeType_from_str s = Inr t' \<longrightarrow> t' = t)"
proof -
  show "NodeType_from_str (NodeType_fmt t) = Inl ()" by (cases t) (simp_all add: NodeType_from_str_def)
  have "NodeType_from_str (case t of Gateway \<Rightarrow> ''gateway'' | FarmerNode \<Rightarrow> ''farmer'' | PeerNode \<Rightarrow> ''peer'') = Inr t"
    by (cases t) (simp_all add: NodeType_from_str_def)
  then show "\<exists>s. NodeType_from_str s = Inr t \<and> (\<forall>t'. NodeType_from_str s = Inr t' \<longrightarrow> t' = t)" by fastforce
qed

text \<open>
  What a node has before it joins the network.  \<open>opened\<close> is the plot on disk, \<open>schedule\<close> the order of the
  writes of the plotter, \<open>config\<close> the wallet's file; \<open>None\<close> when the search of a prime does not end.
\<close>

definition node_start ::
  "'e blocklib_scheme \<Rightarrow> ('d, 'z) storage_scheme \<Rightarrow> 'x walletlib_scheme \<Rightarrow> disk \<Rightarrow> Keypair \<Rightarrow> bytes \<Rightarrow> PlotCreationError + 'd PlotState \<Rightarrow>
     (PieceBundle list \<Rightarrow> PieceBundle list) \<Rightarrow> NodeType \<Rightarrow> (Wallet \<times> Ledger \<times> 'd PlotState) res option" where
  "node_start E D X d fresh config opened schedule node_type =
     (case bindR (Wallet_open_or_create E X d fresh config) (\<lambda>(_, r).
            bindR (case r of Inl _ \<Rightarrow> Panic (Expect ''Failed to init wallet'') | Inr w \<Rightarrow> Ok w) (\<lambda>w.
            bindR (EpochTracker_new E) (\<lambda>tracker.
            bindR (if node_type = Gateway
                   then create_genesis_state E State_new (ascii ''SUBSPACE'') GENESIS_PIECE_COUNT
                   else Ok (State_new, [])) (\<lambda>(st, bundles). Ok (w, tracker, st, bundles))))) of
        Inl e \<Rightarrow> Some (Panic e)
      | Inr (w, tracker, st, bundles) \<Rightarrow>
          Option.bind (plotter_plot E D opened (w_node_id w) (schedule bundles)) (\<lambda>r.
            case r of
              Inl e \<Rightarrow> Some (Panic e)
            | Inr p \<Rightarrow> map_option (\<lambda>L. Ok (w, L, p)) (Ledger_new E (w_keypair w) tracker st)))"

section \<open>End\<close>

text \<open>
  The loop at the end of \<^verbatim>\<open>run\<close>.  A stop is a command or a signal of the system; the plot closes, at some
  time, once the process has dropped its handles.
\<close>

datatype exit_code = OK | SOFTWARE

record Process =
  already_shutting_down :: bool
  rpc_running :: bool
  app_running :: bool
  plot_held :: bool
  exited :: "exit_code option"

datatype process_event = Stop | PlotClosed

definition process_started :: Process where
  "process_started = \<lparr>already_shutting_down = False, rpc_running = True, app_running = True, plot_held = True, exited = None\<rparr>"

fun process_step :: "Process \<Rightarrow> process_event \<Rightarrow> Process" where
  "process_step s Stop =
     (if exited s \<noteq> None then s
      else if already_shutting_down s then s\<lparr>exited := Some SOFTWARE\<rparr>
      else s\<lparr>already_shutting_down := True, rpc_running := False, app_running := False, plot_held := False\<rparr>)"
| "process_step s PlotClosed =
     (if exited s \<noteq> None \<or> plot_held s then s else s\<lparr>exited := Some OK\<rparr>)"

section \<open>Commands are answered\<close>

definition ipc_reply :: "'c ipc_codec_scheme \<Rightarrow> (IpcRequestMessage \<Rightarrow> (unit + IpcResponseMessage) option) \<Rightarrow> bytes \<Rightarrow> bytes" where
  "ipc_reply C on_message payload =
     (case de_ipc_request C payload of
        None \<Rightarrow> ipc_frame (ser_ipc_reply C (Inl ()))
      | Some m \<Rightarrow> (case on_message m of Some response \<Rightarrow> ipc_frame (ser_ipc_reply C response) | None \<Rightarrow> []))"

lemma read_frame_frame: "length data < 2 ^ 32 \<Longrightarrow> read_frame (ipc_frame data @ rest) = Some (data, rest)"
  by (simp add: read_frame_def ipc_frame_def unat_of_nat)

text \<open>
  As long as replies can be written, each frame that is received whole is answered, in order: an error
  where it is no request, otherwise what the handler returns; what follows the last whole frame is
  dropped.
\<close>

theorem ipc_session_replies:
  assumes "\<forall>p \<in> set ps. length p < 2 ^ 32" and "read_frame t = None"
  shows "ipc_session C on_message (\<lambda>_. True) n (concat (map ipc_frame ps) @ t) =
    (List.map_filter (de_ipc_request C) ps, concat (map (ipc_reply C on_message) ps))"
  using assms(1)
proof (induction ps arbitrary: n)
  case Nil
  then show ?case using assms(2) by (simp add: ipc_session.simps map_filter_simps)
next
  case (Cons p ps)
  then have "read_frame (ipc_frame p @ concat (map ipc_frame ps) @ t) = Some (p, concat (map ipc_frame ps) @ t)"
    by (simp add: read_frame_frame)
  moreover have "ipc_session C on_message (\<lambda>_. True) m (concat (map ipc_frame ps) @ t) =
      (List.map_filter (de_ipc_request C) ps, concat (map (ipc_reply C on_message) ps))" for m
    using Cons by simp
  ultimately show ?case
    by (subst ipc_session.simps) (auto simp: ipc_reply_def map_filter_simps split: option.splits)
qed

text \<open>
  The stop command reaches the handler of a running node once and reports success.  The client decodes a
  type other than the one that was encoded; that works because both start with index 0.
\<close>

theorem stop_command:
  assumes "ipc_codec_ok C"
  shows "simple_request C (Some (\<lambda>input. snd (ipc_session C handle_ipc (\<lambda>_. True) 0 input))) RequestShutdown = Inr ResponseShutdown"
    and "fst (ipc_session C handle_ipc (\<lambda>_. True) 0 (ipc_frame (ser_ipc_request C RequestShutdown))) = [RequestShutdown]"
proof -
  have c: "ser_ipc_request C RequestShutdown = u32_to_le_bytes 0" "de_ipc_request C (u32_to_le_bytes 0) = Some RequestShutdown"
      "ser_ipc_reply C (Inr ResponseShutdown) = u32_to_le_bytes 0 @ u32_to_le_bytes 0"
      "de_ipc_response C (u32_to_le_bytes 0 @ u32_to_le_bytes 0) = Some ResponseShutdown"
    using assms unfolding ipc_codec_ok_def by (blast, metis append_Nil2, blast, blast)
  have "ipc_session C handle_ipc (\<lambda>_. True) 0 (ipc_frame (u32_to_le_bytes 0)) =
      ([RequestShutdown], ipc_frame (u32_to_le_bytes 0 @ u32_to_le_bytes 0))"
    using ipc_session_replies [of "[u32_to_le_bytes 0]" "[]" C handle_ipc 0] c
    by (simp add: read_frame_def ipc_reply_def map_filter_simps)
  moreover have "read_frame (ipc_frame (u32_to_le_bytes 0 @ u32_to_le_bytes 0)) = Some (u32_to_le_bytes 0 @ u32_to_le_bytes 0, [])"
    using read_frame_frame [of "u32_to_le_bytes 0 @ u32_to_le_bytes 0" "[]"] by simp
  ultimately show "simple_request C (Some (\<lambda>input. snd (ipc_session C handle_ipc (\<lambda>_. True) 0 input))) RequestShutdown = Inr ResponseShutdown"
    and "fst (ipc_session C handle_ipc (\<lambda>_. True) 0 (ipc_frame (ser_ipc_request C RequestShutdown))) = [RequestShutdown]"
    using c by (simp_all add: simple_request_def)
qed

section \<open>Subscribers\<close>

datatype 's subscription_event = Subscribe 's | Unsubscribe u64

fun subscription_step :: "'s Subscriptions \<Rightarrow> 's subscription_event \<Rightarrow> 's Subscriptions res" where
  "subscription_step s (Subscribe x) = bindR (subscribe_blocks s (Some x)) (\<lambda>(_, s). Ok s)"
| "subscription_step s (Unsubscribe i) = Ok (unsubscribe_blocks s i)"

definition subscribes :: "'s subscription_event list \<Rightarrow> nat" where
  "subscribes es = length (filter (\<lambda>e. \<exists>x. e = Subscribe x) es)"

lemma snoc_split: "es @ [e] = es1 @ a # es2 \<longleftrightarrow> e = a \<and> es1 = es \<and> es2 = [] \<or> (\<exists>es2'. es2 = es2' @ [e] \<and> es = es1 @ a # es2')"
  by (cases es2 rule: rev_cases) auto

text \<open>Who subscribed, got the id, and did not unsubscribe it since; the first id is 1.\<close>

definition subscribed :: "'s subscription_event list \<Rightarrow> u64 \<Rightarrow> 's \<Rightarrow> bool" where
  "subscribed es i x \<longleftrightarrow> (\<exists>es1 es2. es = es1 @ Subscribe x # es2 \<and> i = of_nat (Suc (subscribes es1)) \<and> Unsubscribe i \<notin> set es2)"

lemma subscribed_snoc:
  "subscribed (es @ [e]) i x \<longleftrightarrow> e = Subscribe x \<and> i = of_nat (Suc (subscribes es)) \<or> subscribed es i x \<and> e \<noteq> Unsubscribe i"
proof
  assume "subscribed (es @ [e]) i x"
  then obtain es1 es2 where "es @ [e] = es1 @ Subscribe x # es2" and i: "i = of_nat (Suc (subscribes es1))" "Unsubscribe i \<notin> set es2"
    by (auto simp: subscribed_def)
  then consider "e = Subscribe x" "es1 = es" | es2' where "es2 = es2' @ [e]" "es = es1 @ Subscribe x # es2'"
    unfolding snoc_split by blast
  then show "e = Subscribe x \<and> i = of_nat (Suc (subscribes es)) \<or> subscribed es i x \<and> e \<noteq> Unsubscribe i"
  proof cases
    case 2
    then have "subscribed es i x" unfolding subscribed_def using i by (intro exI [of _ es1] exI [of _ es2']) simp
    then show ?thesis using 2(1) i(2) by auto
  qed (use i in simp)
next
  assume "e = Subscribe x \<and> i = of_nat (Suc (subscribes es)) \<or> subscribed es i x \<and> e \<noteq> Unsubscribe i"
  then show "subscribed (es @ [e]) i x"
  proof
    assume "e = Subscribe x \<and> i = of_nat (Suc (subscribes es))"
    then show ?thesis unfolding subscribed_def by (intro exI [of _ es] exI [of _ "[]"]) simp
  next
    assume r: "subscribed es i x \<and> e \<noteq> Unsubscribe i"
    then obtain es1 es2 where "es = es1 @ Subscribe x # es2" "i = of_nat (Suc (subscribes es1))" "Unsubscribe i \<notin> set es2"
      unfolding subscribed_def by blast
    then show ?thesis unfolding subscribed_def using r by (intro exI [of _ es1] exI [of _ "es2 @ [e]"]) auto
  qed
qed

lemma subscribed_bound: "subscribed es i x \<Longrightarrow> \<exists>n < subscribes es. i = of_nat (Suc n)"
proof -
  assume "subscribed es i x"
  then obtain es1 es2 where "es = es1 @ Subscribe x # es2" "i = of_nat (Suc (subscribes es1))" unfolding subscribed_def by blast
  moreover from this(1) have "subscribes es1 < subscribes es" by (simp add: subscribes_def)
  ultimately show ?thesis by blast
qed

lemma subscription_run:
  "subscribes es < 2 ^ 64 \<Longrightarrow> \<exists>s. foldR subscription_step no_subscriptions es = Ok s \<and>
     next_subscription_id s = of_nat (Suc (subscribes es)) \<and> (\<forall>i x. sinks s i = Some x \<longleftrightarrow> subscribed es i x)"
proof (induction es rule: rev_induct)
  case Nil
  then show ?case by (simp add: no_subscriptions_def subscribes_def subscribed_def)
next
  case (snoc e es)
  then obtain s where s: "foldR subscription_step no_subscriptions es = Ok s" "next_subscription_id s = of_nat (Suc (subscribes es))"
      "\<And>i x. sinks s i = Some x \<longleftrightarrow> subscribed es i x"
    by (auto simp: subscribes_def)
  show ?case
  proof (cases e)
    case (Unsubscribe j)
    then show ?thesis using s by (simp add: foldR_append unsubscribe_blocks_def subscribed_snoc) (simp add: subscribes_def)
  next
    case (Subscribe y)
    have n: "subscribes (es @ [e]) = Suc (subscribes es)" using Subscribe by (simp add: subscribes_def)
    have new: "i \<noteq> of_nat (Suc (subscribes es))" if i: "subscribed es i x" for i x
    proof -
      obtain m where "m < subscribes es" "i = of_nat (Suc m)" using subscribed_bound [OF i] by blast
      then have "unat i \<noteq> unat (of_nat (Suc (subscribes es)) :: u64)" using snoc.prems n by (simp add: unat_of_nat del: of_nat_Suc)
      then show ?thesis by metis
    qed
    show ?thesis
      using s n Subscribe new by (auto simp: foldR_append subscribe_blocks_def subscribed_snoc Let_def)
  qed
qed

text \<open>
  A block is sent to exactly those who subscribed and did not unsubscribe since, whatever others did.
\<close>

theorem block_reaches_subscribers:
  assumes "subscribes es < 2 ^ 64"
  shows "\<exists>s. foldR subscription_step no_subscriptions es = Ok s \<and>
    notify_gossip s (BlockProposal b) = {(i, x, b) | i x. subscribed es i x}"
  using subscription_run [OF assms] by auto

section \<open>A gateway has a provable plot\<close>

lemma wallet_node_id:
  assumes "Wallet_open_or_create E X d fresh config = Ok (f, Inr w)"
  shows "w_node_id w = digest_sha_256 E (public (w_keypair w))"
proof -
  have "w_keypair (fst (Wallet_save X d w')) = w_keypair w'" "w_node_id (fst (Wallet_save X d w')) = w_node_id w'" for w'
    by (auto simp: Wallet_save_def Let_def split: option.splits)
  then show ?thesis
    using assms
    by (auto simp: Wallet_open_or_create_def bindR_Ok_iff split: option.splits if_splits prod.splits)
      (metis Wallet.select_convs(1,2) fst_conv)+
qed

text \<open>The genesis state and its pieces: complete, numbered from 0, and proved by the state blocks.\<close>

lemma genesis_bundles:
  assumes "sha256_ok E" and "merkle_ok E" and "even n" and "n \<le> 2 ^ 64"
    and g: "create_genesis_state E State_new seed n = Ok (st, bundles)"
    and inj: "inj_on (StateBlock_get_id E) (set (sent_blocks st))" and b: "b \<in> set bundles"
  shows "length (pb_piece b) = PIECE_SIZE"
    and "\<exists>sb. get_state_block_by_height st (pb_piece_index b div of_nat PIECES_PER_STATE_BLOCK) = Some sb \<and>
           validate_merkle_proof E (digest_sha_256 E (pb_piece b)) (pb_piece_proof b) (piece_merkle_root sb)"
proof -
  obtain input where "genesis_inv E n (input, st, bundles)"
    using genesis_loop [OF assms(1,2), of seed n] g by (auto simp: create_genesis_state_def bindR_Ok_iff split: if_splits)
  then have c: "chain_ok E st" and l: "length (state_sender st) = n div 2" and "bundles = concat (map piece_bundles (state_sender st))"
    by (simp_all add: genesis_inv_def)
  then obtain x where "x \<in> set (state_sender st)" "b \<in> set (piece_bundles x)" using b by auto
  then obtain h where h: "h < length (state_sender st)" "b \<in> set (piece_bundles (state_sender st ! h))"
    unfolding in_set_conv_nth [of x] by blast
  have "bundle_ok E h (state_sender st ! h)" using c h(1) by (simp add: chain_ok_def sent_blocks_def Let_def)
  then show "length (pb_piece b) = PIECE_SIZE" and
    "\<exists>sb. get_state_block_by_height st (pb_piece_index b div of_nat PIECES_PER_STATE_BLOCK) = Some sb \<and>
       validate_merkle_proof E (digest_sha_256 E (pb_piece b)) (pb_piece_proof b) (piece_merkle_root sb)"
    using piece_proof_checks [OF c h _ inj] h(2) l assms(4)
    by (auto simp: bundle_ok_def in_set_conv_nth Let_def)
qed

text \<open>
  A gateway that starts with an empty plot writes its genesis pieces, in whatever order the plotter
  schedules them, and ends with a ledger and a plot in which each of them can be read, decodes, and is
  proved by the state chain: a provable plot, from which it can farm.  The cipher has to encode the
  genesis pieces without a block that comes out as the prime.
\<close>

theorem gateway_starts_provable:
  assumes "storage_ok D" and "hmac_ok E" and "sha256_ok E" and "merkle_ok E"
    and w: "Wallet_open_or_create E X d fresh config = Ok (f, Inr w)"
    and sl: "init E PRIME_SIZE_BITS = Some sl" "sloth_fits E sl"
    and p: "plot_ok D p" "is_empty_request D p" "db_entries D (tags_db p) = []"
      "length (plot_file p) + GENESIS_PIECE_COUNT * PIECE_SIZE < 2 ^ 64"
    and schedule: "\<And>bs. mset (schedule bs) = mset bs"
    and g: "create_genesis_state E State_new (ascii ''SUBSPACE'') GENESIS_PIECE_COUNT = Ok (st, bundles)"
      "inj_on (StateBlock_get_id E) (set (sent_blocks st))"
    and enc: "\<forall>b \<in> set bundles. (\<exists>e. encode E sl (pb_piece b) (from_digits (expand_iv E (w_node_id w))) ENCODING_LAYERS_TEST = Ok e) \<and>
      layers_good (sqrt_permutation E sl) (\<lambda>c. c \<noteq> prime sl) ENCODING_LAYERS_TEST (from_digits (expand_iv E (w_node_id w)))
        (map from_digits (chunks_exact (block_size_bytes sl) (pb_piece b)))"
  shows "\<exists>L p'. node_start E D X d fresh config (Inr p) schedule Gateway = Some (Ok (w, L, p')) \<and>
    keys L = w_keypair w \<and> state L = st \<and> plot_ok D p' \<and> plot_provable E D L p' \<and>
    map pb_piece_index bundles = map of_nat [0..<GENESIS_PIECE_COUNT] \<and> (\<forall>b \<in> set bundles. holds_piece E D L p' b)"
proof -
  obtain tracker where t: "EpochTracker_new E = Ok tracker" using tracker_new(1) by blast
  define L where "L = initial_ledger (w_keypair w) tracker st sl"
  have L: "keys L = w_keypair w" "state L = st" "sloth L = sl" by (simp_all add: L_def initial_ledger_def Let_def)
  have id: "w_node_id w = digest_sha_256 E (public (keys L))" using wallet_node_id [OF w] L by simp
  have n: "even GENESIS_PIECE_COUNT" "GENESIS_PIECE_COUNT \<le> 2 ^ 64" by (simp_all add: size_consts)
  have idx: "map pb_piece_index bundles = map of_nat [0..<GENESIS_PIECE_COUNT]"
    using genesis_state_exact [OF assms(3,4) n(1), of "ascii ''SUBSPACE''"] g(1) by auto
  have "inj_on (of_nat :: nat \<Rightarrow> u64) {0..<GENESIS_PIECE_COUNT}"
    by (rule inj_on_inverseI [of _ unat]) (simp add: unat_of_nat size_consts)
  then have dist: "distinct (map pb_piece_index bundles)" unfolding idx by (simp add: distinct_map)
  have len: "length bundles = GENESIS_PIECE_COUNT" using arg_cong [OF idx, of length] by simp
  have good: "bundle_good E L b" if b: "b \<in> set bundles" for b
    using genesis_bundles [OF assms(3,4) n g b] enc b id by (simp add: bundle_good_def L Let_def)
  have ms: "set (schedule bundles) = set bundles" "length (schedule bundles) = length bundles" "distinct (map pb_piece_index (schedule bundles))"
    using schedule [of bundles] dist mset_eq_setD mset_eq_length by (blast, blast, metis mset_eq_imp_distinct_iff mset_map)
  have "plot_provable E D L p" using p(3) by (simp add: plot_provable_def)
  then obtain p' where p': "foldR (plot_piece E D (sloth L) (from_digits (expand_iv E (digest_sha_256 E (public (keys L)))))) p (schedule bundles) = Ok p'"
      "plot_ok D p'" "plot_provable E D L p'" "\<forall>b \<in> set (schedule bundles). holds_piece E D L p' b"
    using plot_run [OF assms(1,2) _ p(1), of L "schedule bundles"] sl(2) L(3) good ms len p(4) by auto
  have "plotter_plot E D (Inr p) (w_node_id w) (schedule bundles) = Some (Ok p')"
    using p(2) p'(1) sl(1) L(3) id by (simp add: plotter_plot_def plot_pieces_def)
  then have "node_start E D X d fresh config (Inr p) schedule Gateway = Some (Ok (w, L, p'))"
    using w t g(1) sl(1) by (simp add: node_start_def Ledger_new_def L_def)
  then show ?thesis using L p'(2-) ms(1) idx by auto
qed

section \<open>The exit code\<close>

text \<open>
  Events before the first stop do not end the process.  After it the process exits normally when the
  plot closes, and with an error at a second stop before that; and it never exits while the application
  runs or the plot is held.
\<close>

theorem process_exit_code:
  "exited (foldl process_step process_started es) =
     (case dropWhile (\<lambda>e. e \<noteq> Stop) es of
        _ # e # _ \<Rightarrow> Some (if e = PlotClosed then OK else SOFTWARE)
      | _ \<Rightarrow> None) \<and>
   (exited (foldl process_step process_started es) \<noteq> None \<longrightarrow>
      \<not> app_running (foldl process_step process_started es) \<and> \<not> plot_held (foldl process_step process_started es))"
proof -
  have stay: "exited s \<noteq> None \<Longrightarrow> foldl process_step s es = s" for s es
  proof (induction es)
    case (Cons e es)
    then show ?case by (cases e) auto
  qed simp
  show ?thesis
  proof (induction es)
    case (Cons e es)
    show ?case
    proof (cases e)
      case PlotClosed
      then show ?thesis using Cons by (simp add: process_started_def)
    next
      case Stop
      show ?thesis
      proof (cases es)
        case (Cons e' es')
        then show ?thesis using Stop stay by (cases e') (auto simp: process_started_def)
      qed (simp add: Stop process_started_def)
    qed
  qed (simp add: process_started_def)
qed

end
