(* ===== verification/Spec2Isabelle.thy ===== *)
theory Spec2Isabelle
  imports Utils Node
begin

text \<open>
  A verification development for \<^verbatim>\<open>subspace-core-rust\<close>, a node of the Subspace proof-of-storage
  blockchain.

  \<^bold>\<open>The program.\<close>  Records are appended to a state that is cut into pieces.  A farmer encodes the pieces with a slow
  block cipher under its own id and stores the encodings in a plot.  Time is divided into timeslots
  and epochs.  In each timeslot the timer derives a challenge from the randomness of an earlier epoch; a farmer
  whose plot holds a tag near the challenge may make a block.  The ledger validates blocks, stages them
  in a tree, confirms those that are deep enough, and applies their transactions.  Nodes exchange blocks
  and transactions by gossip, answer each other's requests, and a new node copies the state chain, the pieces and the
  blocks from its peers.

  \<^bold>\<open>Conventions.\<close>  Integers have the width of the source and wrap, as in a release build; \<^verbatim>\<open>usize\<close> is \<open>nat\<close>; byte
  arrays are lists.  A panic is a value: \<open>'a res\<close> is \<open>Panic e\<close> or \<open>Ok x\<close>, threaded by \<open>bindR\<close> and \<open>foldR\<close>, so every \<^verbatim>\<open>unwrap\<close>,
  \<^verbatim>\<open>expect\<close>, \<^verbatim>\<open>panic!\<close> and index is a branch.  A loop that need not end is a \<open>partial_function\<close> into
  \<open>option\<close>; that it ends is a theorem.  There is no fuel.  A mutex makes an operation atomic; where tasks
  interleave, the order is an argument or a list of events.  Packages that are not part of the
  repository are parameters: the records \<open>gmp\<close>, \<open>crypto\<close>, \<open>statelib\<close>, \<open>txlib\<close>, \<open>blocklib\<close> (each extends the
  one before; the argument \<open>E\<close>), \<open>storage\<close>, \<open>lru\<close>, \<open>codec\<close>, \<open>walletlib\<close>, \<open>ipc_codec\<close>, with the documented behaviour as named
  predicates such as \<open>sha256_ok\<close>, and with a small concrete instance that satisfies them.  Clocks, random
  choices, failing system calls and the iteration order of hash tables are arguments.

  \<^bold>\<open>Theories and sources\<close> (under \<^verbatim>\<open>src/src\<close>).
  \<^item> \<open>Prelude\<close>: integers, bytes, panics, vectors and maps as Rust has them, constants of \<^verbatim>\<open>lib.rs\<close>; the locales
    \<open>invariant_operation\<close> and \<open>total_operation\<close>, by which an invariant of one operation carries over to runs.
  \<^item> \<open>Sloth_Math\<close>, \<open>Sloth\<close>: \<^verbatim>\<open>sloth.rs\<close>.  Square roots modulo a prime that is 3 modulo 4, the permutation and its inverse,
    layered encoding and (parallel) decoding; the locale \<open>block_cipher\<close>.  Round trip, search of the prime,
    equality of the two decoders, when decoding panics.
  \<^item> \<open>Utils\<close>: \<^verbatim>\<open>utils.rs\<close>.  \<open>Crypto\<close>: \<^verbatim>\<open>crypto.rs\<close>, digests, expansion of initialisation vectors, Merkle proofs.
  \<^item> \<open>State\<close>: \<^verbatim>\<open>state.rs\<close>.  The record \<open>State\<close> with its buffer and its chain of blocks.  No record is lost, every piece
    is proved by its state block, the genesis state is exact.
  \<^item> \<open>Transaction\<close>, \<open>Block\<close>: \<^verbatim>\<open>transaction.rs\<close>, \<^verbatim>\<open>block.rs\<close>.  The exact conditions of validity.
  \<^item> \<open>Epoch\<close>: \<^verbatim>\<open>timer/epoch.rs\<close>, \<^verbatim>\<open>timer/epoch_tracker.rs\<close>.  Challenges do not change once they can be computed.
  \<^item> \<open>MetaBlocks\<close>: \<^verbatim>\<open>metablocks.rs\<close>, the tree of blocks.  \<open>Float64\<close>: the double arithmetic of the solution range.
  \<^item> \<open>Ledger\<close>, \<open>Ledger_Confirm\<close>, \<open>Ledger_Staging\<close>, \<open>Ledger_Properties\<close>: \<^verbatim>\<open>ledger.rs\<close>.  The record \<open>Ledger\<close>; confirmation, which
    refines an abstract ledger over natural numbers and creates exactly the rewards; creation, validation
    and staging of blocks, which keep the tree, the heads and the heights consistent and confirm exactly the block
    that became deep enough; cached descendants are staged in finitely many rounds.
  \<^item> \<open>Plot\<close>, \<open>Plotter\<close>, \<open>Farmer\<close>: \<^verbatim>\<open>plot.rs\<close>, \<^verbatim>\<open>plotter.rs\<close>, \<^verbatim>\<open>farmer.rs\<close>.  Requests, the task that serves them (every request is answered,
    in order), reading, writing, searching by range (exactly the tags on the arc), plotting in any order,
    solving; farmed blocks are valid.
  \<^item> \<open>Timer\<close>: \<^verbatim>\<open>timer.rs\<close>.  A turn of the timer sends the challenge that validation computes.
  \<^item> \<open>Nodes_Container\<close>, \<open>Messages\<close>, \<open>Network\<close>: \<^verbatim>\<open>network/nodes_container.rs\<close>, \<^verbatim>\<open>network/messages.rs\<close>, \<^verbatim>\<open>network.rs\<close>.  The tables of
    addresses refine a state machine per address and stay disjoint; framing is a round trip however the stream
    is cut; a reply reaches its request; the search of peers ends; a state from which a node never reconnects.
  \<^item> \<open>Manager\<close>: \<^verbatim>\<open>manager.rs\<close>.  Gossip is passed on at most once and only when valid; the three loops of the synchronisation
    copy an honest state chain, store only proved pieces, and leave the timer aligned with the epochs.
  \<^item> \<open>Wallet\<close>: \<^verbatim>\<open>pseudo_wallet.rs\<close>.  Keys and nonces survive restarts, until the nonce wraps.
  \<^item> \<open>Node\<close>: \<^verbatim>\<open>main.rs\<close>, \<^verbatim>\<open>ipc.rs\<close>, \<^verbatim>\<open>rpc.rs\<close>.  Start of a node (a gateway ends with a provable plot), commands, subscriptions,
    and the loop that ends the process.
  \<^item> This theory: a property of a node from its synchronisation to its first blocks.

  \<^bold>\<open>Bounds.\<close>  Theorems about runs state what they need to exclude wrap-around: fewer than \<open>2 ^ 32\<close> requests, fewer than
  \<open>2 ^ 16\<close> payments, a plot file below \<open>2 ^ 64\<close> bytes, \<open>2 ^ 63\<close> state blocks.  Round trips of the cipher exclude pieces in which a
  block comes out as the prime, which the source does not recover.  Looking up a state block by its
  height assumes that no two blocks of the chain have the same id.

  \<^bold>\<open>Not modelled.\<close>
  \<^item> \<^verbatim>\<open>console.rs\<close>: a terminal user interface.  The loop of \<^verbatim>\<open>manager.rs\<close> that feeds it, and \<^verbatim>\<open>Network::get_state\<close>.
  \<^item> \<^verbatim>\<open>feeds.rs\<close> and \<^verbatim>\<open>wallet.rs\<close>: unused declarations and notes.
  \<^item> \<^verbatim>\<open>main.rs\<close>: the command line, logging, channels and the spawning of tasks; only what they run is modelled.
  \<^item> \<^verbatim>\<open>rpc.rs\<close>: the JSON-RPC server around the subscriptions.  \<^verbatim>\<open>ipc.rs\<close>: creation and removal of the socket file.
  \<^item> \<^verbatim>\<open>network.rs\<close>: the exchange of addresses as text, the concurrent reconnection to saved peers at start, the
    handlers for pause and resume, and the file of known nodes.  Its operations on the tables are modelled
    as atomic; between two locks of one connection attempt other attempts may run, which is covered
    only as far as the invariants are kept by every single operation.
  \<^item> \<^verbatim>\<open>plot.rs\<close>: the end of the task when the last handle is dropped.
  \<^item> \<^verbatim>\<open>plotter.rs\<close>: progress bars and timing.  \<^verbatim>\<open>ledger.rs\<close>: printing of balances.  Printing and debug output in
    general.
  \<^item> \<^verbatim>\<open>crypto.rs\<close>: random generation, which is an argument where it is used.  \<^verbatim>\<open>transaction.rs\<close>: stubs that nothing uses.
  \<^item> The tests.
\<close>

section \<open>From synchronisation to blocks\<close>

text \<open>
  \<^bold>\<open>C4\<close>: a node that filled its plot from pieces of its peers can farm with it.  Whatever peers offer,
  finitely many pieces that the cipher can encode, the synchronisation ends; when it succeeds, the
  farmer answers any challenge of the node's epoch tracker with solutions, and the ledger turns each of
  them into a block that passes validation.
\<close>

theorem synced_node_farms:
  assumes "storage_ok D" and "hmac_ok E" and "sloth_fits E (sloth L)"
    and "\<forall>i b. fetch i = Inr (Some b) \<longrightarrow> unat i < N \<and> bundle_encodable E L b" and "N < 2 ^ 64"
    and "plot_ok D p" and "plot_provable E D L p" and "length (plot_file p) + N * PIECE_SIZE < 2 ^ 64"
    and "ed25519_ok E (keys L)" and "get_slot_challenge E (epoch_tracker L) ei ts = Ok (rnd, challenge)"
  shows "\<exists>r. sync_pieces E D (digest_sha_256 E (public (keys L))) (sloth L) (state L) fetch 0 p = Some r \<and>
    (\<forall>k p'. r = Ok (k, p') \<longrightarrow>
       (\<exists>sols. farmer_step D p' True (SlotChallenge ei ts rnd challenge sr) = Ok (True, Some sols) \<and>
          (\<forall>s \<in> set sols. \<forall>sibs L1 parent refs. choose_refs L s sibs = Ok (L1, parent, refs) \<longrightarrow>
             (\<exists>L' b. create_and_apply_local_block E now L s sibs = Ok (L', b) \<and> validate_block E L b = Ok True))))"
proof -
  obtain r where r: "sync_pieces E D (digest_sha_256 E (public (keys L))) (sloth L) (state L) fetch 0 p = Some r"
      "\<forall>k p'. r = Ok (k, p') \<longrightarrow> plot_ok D p' \<and> plot_provable E D L p'"
    using sync_pieces_facts [OF assms(1-7), of 0] assms(8) by auto
  have "\<exists>sols. farmer_step D p' True (SlotChallenge ei ts rnd challenge sr) = Ok (True, Some sols) \<and>
      (\<forall>s \<in> set sols. \<forall>sibs L1 parent refs. choose_refs L s sibs = Ok (L1, parent, refs) \<longrightarrow>
         (\<exists>L' b. create_and_apply_local_block E now L s sibs = Ok (L', b) \<and> validate_block E L b = Ok True))"
    if "r = Ok (k, p')" for k p'
    using solutions_give_blocks [OF assms(1) _ _ assms(9,10), of p' sr now] r(2) that by auto
  then show ?thesis using r(1) by blast
qed

theorem synced_node_farms_witness:
  "\<exists>p' sols. sync_pieces toy_blocklib log_storage (replicate 32 0) small_sloth toy_state small_offer 0 empty_plot = Some (Ok (1, p')) \<and>
     farmer_step log_storage p' True (SlotChallenge 0 1 (replicate 32 0) first_challenge (- 1)) = Ok (True, Some sols)"
proof -
  obtain p' where p': "sync_pieces toy_blocklib log_storage (replicate 32 0) small_sloth toy_state small_offer 0 empty_plot = Some (Ok (1, p'))"
    using small_offer_synced by blast
  have l: "length (plot_file empty_plot) + 1 * PIECE_SIZE < 2 ^ 64" by (simp add: empty_plot_def PIECE_SIZE_def)
  have s: "sloth_fits toy_blocklib (sloth plot_ledger)" using small_sloth_fits by simp
  have k: "ed25519_ok toy_blocklib (keys plot_ledger)" by (simp add: toy_laws(3) toy_blocklib_def blocklib.defs toy_defs)
  from synced_node_farms [OF log_storage_ok toy_block_hmac s small_offer_encodable _ empty_plot_ok empty_plot_provable l k first_challenge_eq,
      of "- 1" 7] p'
  show ?thesis by (auto simp: toy_digest_zero)
qed

end
